(* ===== verification/Prelude.thy ===== *)
theory Prelude
  imports Main "HOL-Library.Word" "HOL-Library.List_Lexorder" "HOL-Library.Sublist"
begin

unbundle bit_operations_syntax

text \<open>
  Shared vocabulary of the development: the machine types of the engine, its byte
  strings, results that may be errors, bounds-checked memory access, decimal printing
  (\<^verbatim>\<open>std::to_string\<close>) and the fixed-width big-endian codecs used by the peer wire protocol
  and the UDP tracker protocol.
\<close>

named_theorems wire_simps \<open>layout of serialised data\<close>

section \<open>Types\<close>

type_synonym byte = "8 word"
type_synonym u16 = "16 word"
type_synonym u32 = "32 word"
type_synonym u64 = "64 word"

text \<open>\<^verbatim>\<open>std::string\<close>, \<^verbatim>\<open>std::string_view\<close>, \<^verbatim>\<open>std::vector<uint8_t>\<close> and \<^verbatim>\<open>std::span<const uint8_t>\<close>
  are all sequences of bytes.\<close>

type_synonym bytes = "byte list"

definition ascii :: "string \<Rightarrow> bytes" where
  "ascii s = map (\<lambda>c. of_nat (of_char c)) s"

lemma ascii_simps [simp]:
  "ascii [] = []"
  "ascii (c # s) = of_nat (of_char c) # ascii s"
  by (simp_all add: ascii_def)

abbreviation (input) INT64_MAX :: int where "INT64_MAX \<equiv> 9223372036854775807"
abbreviation (input) SIZE_MAX :: nat where "SIZE_MAX \<equiv> 18446744073709551615"

section \<open>Results\<close>

definition bindE :: "'e + 'a \<Rightarrow> ('a \<Rightarrow> 'e + 'b) \<Rightarrow> 'e + 'b" where
  "bindE r f = (case r of Inl e \<Rightarrow> Inl e | Inr a \<Rightarrow> f a)"

lemma bindE_simps [simp]:
  "bindE (Inl e) f = Inl e"
  "bindE (Inr a) f = f a"
  by (simp_all add: bindE_def)

lemma bindE_Inr_iff: "bindE r f = Inr b \<longleftrightarrow> (\<exists>a. r = Inr a \<and> f a = Inr b)"
  by (cases r) auto

lemma bindE_InrE [elim]:
  assumes "bindE r f = Inr b"
  obtains a where "r = Inr a" "f a = Inr b"
  using assms by (auto simp: bindE_Inr_iff)

definition mapE :: "('e \<Rightarrow> 'f) \<Rightarrow> 'e + 'a \<Rightarrow> 'f + 'a" where
  "mapE h r = (case r of Inl e \<Rightarrow> Inl (h e) | Inr a \<Rightarrow> Inr a)"

lemma mapE_simps [simp]:
  "mapE h (Inl e) = Inl (h e)"
  "mapE h (Inr a) = Inr a"
  "mapE h r = Inr b \<longleftrightarrow> r = Inr b"
  by (simp_all add: mapE_def split: sum.splits)

section \<open>Memory\<close>

text \<open>An access outside the bounds of a buffer is undefined behaviour in C++; the model
  makes it an error value.\<close>

datatype mem_error = OutOfBounds | UseAfterFree | Uninitialised | BadArithmetic | NullPointer

definition read_at :: "'a list \<Rightarrow> nat \<Rightarrow> mem_error + 'a" where
  "read_at xs i = (if i < length xs then Inr (xs ! i) else Inl OutOfBounds)"

definition read_span :: "'a list \<Rightarrow> nat \<Rightarrow> nat \<Rightarrow> mem_error + 'a list" where
  "read_span xs off n =
     (if off + n \<le> length xs then Inr (take n (drop off xs)) else Inl OutOfBounds)"

text \<open>\<^verbatim>\<open>memcpy\<close>/\<^verbatim>\<open>std::copy\<close> of \<open>src\<close> over \<open>buf\<close> at an offset.\<close>

definition write_at :: "'a list \<Rightarrow> nat \<Rightarrow> 'a list \<Rightarrow> 'a list" where
  "write_at buf off src = take off buf @ src @ drop (off + length src) buf"

definition write_span :: "'a list \<Rightarrow> nat \<Rightarrow> 'a list \<Rightarrow> mem_error + 'a list" where
  "write_span buf off src =
     (if off + length src \<le> length buf then Inr (write_at buf off src) else Inl OutOfBounds)"

lemma length_write_at [simp]:
  "off + length src \<le> length buf \<Longrightarrow> length (write_at buf off src) = length buf"
  by (simp add: write_at_def)

lemma nth_write_at:
  assumes "off + length src \<le> length buf" "i < length buf"
  shows "write_at buf off src ! i =
    (if off \<le> i \<and> i < off + length src then src ! (i - off) else buf ! i)"
  using assms by (auto simp: write_at_def nth_append)

lemma write_at_Nil [simp]: "write_at buf off [] = buf"
  by (simp add: write_at_def)

lemma take_drop_write_at_same:
  "off + length src \<le> length buf \<Longrightarrow> take (length src) (drop off (write_at buf off src)) = src"
  by (simp add: write_at_def)

lemma read_span_append [simp]:
  "n = length ys \<Longrightarrow> off = length xs \<Longrightarrow> read_span (xs @ ys @ zs) off n = Inr ys"
  by (simp add: read_span_def)

section \<open>Effects\<close>

text \<open>A computation of the program that may not return (\<open>None\<close>) or may run into undefined
  behaviour (\<open>Inl\<close>).\<close>

type_synonym 'a effect = "(mem_error + 'a) option"

definition returns :: "'a \<Rightarrow> 'a effect" where
  "returns a = Some (Inr a)"

definition bindR :: "'a effect \<Rightarrow> ('a \<Rightarrow> 'b effect) \<Rightarrow> 'b effect" where
  "bindR m f = Option.bind m (\<lambda>r. case r of Inl e \<Rightarrow> Some (Inl e) | Inr a \<Rightarrow> f a)"

definition lift_mem :: "mem_error + 'a \<Rightarrow> 'a effect" where
  "lift_mem r = Some r"

lemma bindR_simps [simp]:
  "bindR (returns a) f = f a"
  "bindR (Some (Inl e)) f = Some (Inl e)"
  "bindR (Some (Inr a)) f = f a"
  "bindR None f = None"
  "bindR (lift_mem (Inr a)) f = f a"
  "bindR (lift_mem (Inl e)) f = Some (Inl e)"
  by (simp_all add: bindR_def returns_def lift_mem_def)

lemma returns_eq [simp]: "returns a = returns b \<longleftrightarrow> a = b"
  by (simp add: returns_def)

lemma bindR_assoc: "bindR (bindR m f) g = bindR m (\<lambda>x. bindR (f x) g)"
  by (cases m) (auto simp: bindR_def split: sum.split)

lemma bindR_returns_iff: "bindR m f = returns b \<longleftrightarrow> (\<exists>a. m = returns a \<and> f a = returns b)"
  by (cases m) (auto simp: bindR_def returns_def split: sum.splits)

lemma bindR_returnsE:
  assumes "bindR m f = returns b"
  obtains a where "m = returns a" "f a = returns b"
  using assms by (auto simp: bindR_returns_iff)

lemma lift_mem_returns [simp]: "lift_mem r = returns a \<longleftrightarrow> r = Inr a"
  by (simp add: lift_mem_def returns_def)

text \<open>Three readings of a postcondition.  \<open>yields\<close>: if the computation returns, then with the property.
  \<open>settles\<close>: the computation ends, in an error or with the property.  \<open>achieves\<close>: it returns, with the property.\<close>

definition yields :: "('a \<Rightarrow> bool) \<Rightarrow> 'a effect \<Rightarrow> bool" where
  "yields P m = (case m of Some (Inr a) \<Rightarrow> P a | _ \<Rightarrow> True)"

definition settles :: "('a \<Rightarrow> bool) \<Rightarrow> 'a effect \<Rightarrow> bool" where
  "settles P m = (case m of None \<Rightarrow> False | Some (Inl e) \<Rightarrow> True | Some (Inr a) \<Rightarrow> P a)"

definition achieves :: "('a \<Rightarrow> bool) \<Rightarrow> 'a effect \<Rightarrow> bool" where
  "achieves P m = (case m of Some (Inr a) \<Rightarrow> P a | _ \<Rightarrow> False)"

lemma yields_simps [simp]:
  "yields P (returns a) = P a" "yields P None" "yields P (Some (Inl e))" "yields P (Some (Inr a)) = P a"
  "yields P (lift_mem r) = (\<forall>a. r = Inr a \<longrightarrow> P a)"
  "yields P (bindR m f) = yields (\<lambda>a. yields P (f a)) m"
  by (auto simp: yields_def returns_def lift_mem_def bindR_def split: option.split sum.split)

lemma settles_simps [simp]:
  "settles P (returns a) = P a" "\<not> settles P None" "settles P (Some (Inl e))" "settles P (Some (Inr a)) = P a"
  "settles P (lift_mem r) = (\<forall>a. r = Inr a \<longrightarrow> P a)"
  "settles P (bindR m f) = settles (\<lambda>a. settles P (f a)) m"
  by (auto simp: settles_def returns_def lift_mem_def bindR_def split: option.splits sum.split)

lemma yieldsD: "yields P m \<Longrightarrow> m = returns a \<Longrightarrow> P a"
  by simp

lemma yieldsI: "(\<And>a. m = returns a \<Longrightarrow> P a) \<Longrightarrow> yields P m"
  by (auto simp: yields_def returns_def split: option.split sum.split)

lemma yields_mono: "yields P m \<Longrightarrow> (\<And>a. P a \<Longrightarrow> Q a) \<Longrightarrow> yields Q m"
  by (auto simp: yields_def split: option.splits sum.splits)

lemma yields_bindI: "yields I m \<Longrightarrow> (\<And>a. I a \<Longrightarrow> yields Q (f a)) \<Longrightarrow> yields Q (bindR m f)"
  by (auto elim: yields_mono)

lemma settles_mono: "settles P m \<Longrightarrow> (\<And>a. P a \<Longrightarrow> Q a) \<Longrightarrow> settles Q m"
  by (auto simp: settles_def split: option.splits sum.splits)

lemma settles_Some: "settles P m \<Longrightarrow> \<exists>r. m = Some r"
  by (auto simp: settles_def split: option.splits)

lemma yields_True: "yields (\<lambda>_. True) m"
  by (simp add: yields_def split: option.split sum.split)

lemma settles_iff: "settles P m \<longleftrightarrow> m \<noteq> None \<and> yields P m"
  by (auto simp: settles_def yields_def split: option.split sum.split)

lemma yields_conj: "yields P m \<Longrightarrow> yields Q m \<Longrightarrow> yields (\<lambda>a. P a \<and> Q a) m"
  by (auto simp: yields_def split: option.splits sum.splits)

lemma achieves_simps [simp]:
  "achieves P (returns a) = P a" "\<not> achieves P None" "\<not> achieves P (Some (Inl e))" "achieves P (Some (Inr a)) = P a"
  "achieves P (lift_mem r) = (\<exists>a. r = Inr a \<and> P a)"
  "achieves P (bindR m f) = achieves (\<lambda>a. achieves P (f a)) m"
  by (auto simp: achieves_def returns_def lift_mem_def bindR_def split: option.split sum.split)

lemma achieves_iff: "achieves P m \<longleftrightarrow> (\<exists>a. m = returns a \<and> P a)"
  by (auto simp: achieves_def returns_def split: option.splits sum.splits)

lemma achieves_mono: "achieves P m \<Longrightarrow> (\<And>a. P a \<Longrightarrow> Q a) \<Longrightarrow> achieves Q m"
  by (auto simp: achieves_iff)

lemma achieves_bindI: "achieves I m \<Longrightarrow> (\<And>a. I a \<Longrightarrow> achieves Q (f a)) \<Longrightarrow> achieves Q (bindR m f)"
  by (auto elim: achieves_mono)

lemma achieves_yields: "achieves P m \<Longrightarrow> yields Q m \<Longrightarrow> achieves (\<lambda>a. P a \<and> Q a) m"
  by (auto simp: achieves_iff)

text \<open>A loop whose body says whether it goes on.  It is undefined where the loop does not end.\<close>

partial_function (option) repeat_while :: "('s \<Rightarrow> (bool \<times> 's) effect) \<Rightarrow> 's \<Rightarrow> 's effect" where
  "repeat_while body s =
     Option.bind (body s) (\<lambda>r.
       case r of
         Inl e \<Rightarrow> Some (Inl e)
       | Inr (continue, s') \<Rightarrow> if continue then repeat_while body s' else Some (Inr s'))"

lemma repeat_while_unfold:
  "repeat_while body s = bindR (body s) (\<lambda>(continue, s'). if continue then repeat_while body s' else returns s')"
  by (subst repeat_while.simps) (cases "body s"; auto simp: bindR_def returns_def split: sum.split)

lemma repeat_while_yields:
  assumes "I s" "\<And>s. I s \<Longrightarrow> yields (\<lambda>(continue, s'). I s') (body s)"
  shows "yields I (repeat_while body s)"
proof -
  have "I s \<longrightarrow> (\<forall>s. I s \<longrightarrow> yields (\<lambda>(continue, s'). I s') (body s)) \<longrightarrow> yields I (Some r)" if "repeat_while body s = Some r" for r
    using that
  proof (rule repeat_while.raw_induct
      [where P = "\<lambda>body s r. I s \<longrightarrow> (\<forall>s. I s \<longrightarrow> yields (\<lambda>(continue, s'). I s') (body s)) \<longrightarrow> yields I (Some r)", rotated],
      intro impI)
    fix rec s r and body :: "'a \<Rightarrow> (bool \<times> 'a) effect"
    assume IH: "\<And>body s r. rec body s = Some r \<Longrightarrow>
        I s \<longrightarrow> (\<forall>s. I s \<longrightarrow> yields (\<lambda>(continue, s'). I s') (body s)) \<longrightarrow> yields I (Some r)"
      and eq: "Option.bind (body s) (\<lambda>r. case r of Inl e \<Rightarrow> Some (Inl e)
        | Inr (continue, s') \<Rightarrow> if continue then rec body s' else Some (Inr s')) = Some r"
      and I: "I s" and body: "\<forall>s. I s \<longrightarrow> yields (\<lambda>(continue, s'). I s') (body s)"
    from eq obtain x where x: "body s = Some x" "(case x of Inl e \<Rightarrow> Some (Inl e)
        | Inr (continue, s') \<Rightarrow> if continue then rec body s' else Some (Inr s')) = Some r"
      by (auto simp: bind_eq_Some_conv)
    then show "yields I (Some r)" using body[rule_format, OF I] IH[rule_format, OF _ _ body[rule_format]]
      by (cases x) (auto split: if_splits)
  qed
  with assms show ?thesis by (cases "repeat_while body s") auto
qed

lemma repeat_while_settles:
  assumes "\<And>s. I s \<Longrightarrow> settles (\<lambda>(continue, s'). if continue then I s' \<and> (s', s) \<in> R else Q s') (body s)" "wf R"
  shows "I s \<Longrightarrow> settles Q (repeat_while body s)"
  using assms(2)
proof (induction s rule: wf_induct_rule)
  case (less s)
  show ?case
    unfolding repeat_while_unfold[of body s] settles_simps(6)
    by (rule settles_mono[OF assms(1)[OF less.prems]]) (auto intro: less.IH split: if_splits)
qed

lemma repeat_while_achieves:
  assumes "\<And>s. I s \<Longrightarrow> achieves (\<lambda>(continue, s'). if continue then I s' \<and> (s', s) \<in> R else Q s') (body s)" "wf R"
  shows "I s \<Longrightarrow> achieves Q (repeat_while body s)"
  using assms(2)
proof (induction s rule: wf_induct_rule)
  case (less s)
  show ?case
    unfolding repeat_while_unfold[of body s] achieves_simps(6)
    by (rule achieves_mono[OF assms(1)[OF less.prems]]) (auto intro: less.IH split: if_splits)
qed

section \<open>Sequences of operations\<close>

text \<open>An operation that keeps an invariant keeps it along every sequence of admissible
  events.  Components instantiate this with their own step functions.\<close>

locale event_invariant =
  fixes step :: "'s \<Rightarrow> 'e \<Rightarrow> 's" and ok :: "'e \<Rightarrow> bool" and inv :: "'s \<Rightarrow> bool"
  assumes inv_step: "inv s \<Longrightarrow> ok e \<Longrightarrow> inv (step s e)"
begin

lemma inv_run: "inv s \<Longrightarrow> \<forall>e\<in>set es. ok e \<Longrightarrow> inv (foldl step s es)"
  by (induction es arbitrary: s) (auto intro: inv_step)

end

section \<open>Decimal numerals\<close>

definition isdigit :: "byte \<Rightarrow> bool" where
  "isdigit c \<longleftrightarrow> 48 \<le> c \<and> c \<le> 57"

definition digit_val :: "byte \<Rightarrow> nat" where
  "digit_val c = unat (c - 48)"

text \<open>\<^verbatim>\<open>std::to_string\<close> on unsigned and on signed integers.\<close>

fun to_string_nat :: "nat \<Rightarrow> bytes" where
  "to_string_nat n =
     (if n < 10 then [of_nat (48 + n)] else to_string_nat (n div 10) @ [of_nat (48 + n mod 10)])"

declare to_string_nat.simps [simp del]

definition to_string :: "int \<Rightarrow> bytes" where
  "to_string i = (if i < 0 then 45 # to_string_nat (nat (- i)) else to_string_nat (nat i))"

text \<open>The value denoted by a digit string, continuing from an accumulator.\<close>

definition dec_val :: "nat \<Rightarrow> bytes \<Rightarrow> nat" where
  "dec_val acc ds = foldl (\<lambda>a d. a * 10 + digit_val d) acc ds"

lemma dec_val_simps [simp]:
  "dec_val acc [] = acc"
  "dec_val acc (d # ds) = dec_val (acc * 10 + digit_val d) ds"
  "dec_val acc (ds @ es) = dec_val (dec_val acc ds) es"
  by (simp_all add: dec_val_def)

lemma dec_val_mono: "acc \<le> dec_val acc ds"
proof (induction ds arbitrary: acc)
  case (Cons d ds)
  have "acc \<le> acc * 10 + digit_val d" by simp
  also have "\<dots> \<le> dec_val (acc * 10 + digit_val d) ds" by (rule Cons.IH)
  finally show ?case by simp
qed simp

lemma digit_of_nat:
  assumes "n < 10"
  shows "isdigit (of_nat (48 + n))" "digit_val (of_nat (48 + n)) = n"
proof -
  have u: "unat (of_nat (48 + n) :: byte) = 48 + n"
    using assms by (simp only: unat_of_nat) simp
  show "isdigit (of_nat (48 + n))"
    using assms by (simp add: isdigit_def word_le_nat_alt u del: of_nat_add)
  show "digit_val (of_nat (48 + n)) = n"
    using assms by (simp add: digit_val_def unat_of_nat)
qed

lemma digit_val_less: "isdigit c \<Longrightarrow> digit_val c < 10"
  by (auto simp: isdigit_def digit_val_def word_le_nat_alt unat_sub)

lemma of_nat_digit_val: "isdigit c \<Longrightarrow> of_nat (48 + digit_val c) = c"
  by (simp add: isdigit_def digit_val_def)

lemma to_string_nat_neq_Nil [simp]: "to_string_nat n \<noteq> []"
  by (subst to_string_nat.simps) simp

lemma to_string_nat_digits: "c \<in> set (to_string_nat n) \<Longrightarrow> isdigit c"
proof (induction n rule: to_string_nat.induct)
  case (1 n)
  then show ?case
    by (cases "n < 10") (auto simp: to_string_nat.simps[of n] digit_of_nat simp del: of_nat_add)
qed

lemma dec_val_to_string_nat [simp]: "dec_val 0 (to_string_nat n) = n"
proof (induction n rule: to_string_nat.induct)
  case (1 n)
  then show ?case
    by (cases "n < 10") (simp_all add: to_string_nat.simps[of n] digit_of_nat del: of_nat_add)
qed

lemma to_string_nat_set: "\<forall>c\<in>set (to_string_nat n). isdigit c"
  by (blast intro: to_string_nat_digits)

lemma isdigit_hd_to_string_nat [simp]: "isdigit (hd (to_string_nat n))"
  by (intro to_string_nat_digits[of _ n] hd_in_set) simp

lemma hd_to_string_nat_pos: "0 < n \<Longrightarrow> hd (to_string_nat n) \<noteq> 48"
proof (induction n rule: to_string_nat.induct)
  case (1 n)
  show ?case
  proof (cases "n < 10")
    case True
    have "unat (of_nat (48 + n) :: byte) = 48 + n"
      using True by (simp only: unat_of_nat) simp
    with True 1(2) show ?thesis
      by (auto simp: to_string_nat.simps[of n] word_unat_eq_iff simp del: of_nat_add)
  next
    case False
    with 1(1) show ?thesis by (simp add: to_string_nat.simps[of n] hd_append)
  qed
qed

text \<open>A digit string without superfluous leading zeros is the decimal numeral of its value.\<close>

lemma to_string_nat_dec_val:
  assumes "ds \<noteq> []" "\<forall>d\<in>set ds. isdigit d" "hd ds = 48 \<longrightarrow> length ds = 1"
  shows "to_string_nat (dec_val 0 ds) = ds"
  using assms
proof (induction ds rule: rev_induct)
  case (snoc d ds)
  note dig = digit_val_less[of d] of_nat_digit_val[of d]
  show ?case
  proof (cases "ds = []")
    case True
    with snoc.prems dig show ?thesis by (subst to_string_nat.simps) simp
  next
    case False
    then obtain x xs where ds: "ds = x # xs" by (cases ds) auto
    with snoc.prems have x: "x \<noteq> 48" "isdigit x" by auto
    have "of_nat (48 + digit_val x) \<noteq> (48 :: byte)" using x by (simp add: of_nat_digit_val del: of_nat_add)
    then have "0 < digit_val x" by (cases "digit_val x") auto
    then have pos: "0 < dec_val 0 ds"
      using dec_val_mono[of "digit_val x" xs] by (simp add: ds)
    have IH: "to_string_nat (dec_val 0 ds) = ds" using snoc x by (simp add: ds)
    show ?thesis
      using pos dig snoc.prems IH by (subst to_string_nat.simps) (simp add: div_mult_self4)
  qed
qed simp

lemma to_string_nat_0 [simp]: "to_string_nat 0 = [48]"
  by (subst to_string_nat.simps) simp

section \<open>Big-endian integers\<close>

lemma unat_less_pow: "unat (w :: 'a::len word) < 2 ^ LENGTH('a)"
  by (rule unsigned_less)

text \<open>The bytes of a number in network order, and the number that such bytes denote.\<close>

fun be_bytes :: "nat \<Rightarrow> nat \<Rightarrow> bytes" where
  "be_bytes 0 v = []"
| "be_bytes (Suc n) v = be_bytes n (v div 256) @ [of_nat v]"

lemma be_bytes_numeral [wire_simps]:
  "be_bytes (numeral k) v = be_bytes (pred_numeral k) (v div 256) @ [of_nat v]"
  by (subst numeral_eq_Suc) (rule be_bytes.simps)

definition be_value :: "bytes \<Rightarrow> nat" where
  "be_value bs = foldl (\<lambda>a b. a * 256 + unat b) 0 bs"

lemma length_be_bytes [simp]: "length (be_bytes n v) = n"
  by (induction n arbitrary: v) simp_all

lemma be_value_snoc [simp]: "be_value (bs @ [b]) = be_value bs * 256 + unat b"
  by (simp add: be_value_def)

lemma be_value_Nil [simp]: "be_value [] = 0"
  by (simp add: be_value_def)

lemma be_value_be_bytes: "be_value (be_bytes n v) = v mod 256 ^ n"
proof (induction n arbitrary: v)
  case (Suc n)
  have "be_value (be_bytes (Suc n) v) = (v div 256) mod 256 ^ n * 256 + v mod 256"
    by (simp add: Suc.IH unat_of_nat)
  also have "\<dots> = v mod 256 ^ Suc n"
    by (simp add: mod_mult2_eq)
  finally show ?case .
qed simp

lemma of_nat_mult_256: "(of_nat (k * 256 + unat b) :: byte) = b"
  using unat_less_pow[of b] by (simp only: word_unat_eq_iff unat_of_nat) simp

lemma be_bytes_be_value: "be_bytes (length bs) (be_value bs) = bs"
proof (induction bs rule: rev_induct)
  case (snoc b bs)
  have "unat b < 256" using unat_less_pow[of b] by simp
  then have "(be_value bs * 256 + unat b) div 256 = be_value bs" by simp
  with snoc show ?case by (simp add: of_nat_mult_256 del: of_nat_add of_nat_mult)
qed simp

lemma be_value_less: "be_value bs < 256 ^ length bs"
  by (metis be_bytes_be_value be_value_be_bytes mod_less_divisor zero_less_numeral zero_less_power)

locale fixed_codec =
  fixes enc :: "'a \<Rightarrow> bytes" and dec :: "bytes \<Rightarrow> 'a" and width :: nat
  assumes length_enc: "length (enc x) = width"
    and dec_enc: "dec (enc x) = x"
    and enc_dec: "length bs = width \<Longrightarrow> enc (dec bs) = bs"
begin

lemma enc_inject: "enc x = enc y \<longleftrightarrow> x = y"
  by (metis dec_enc)

lemma read_field:
  assumes "off = length xs"
  shows "bindE (read_span (xs @ enc v @ ys) off width) (\<lambda>b. Inr (dec b)) = Inr v"
  using assms by (simp add: length_enc dec_enc)

lemma read_field_sound:
  assumes "bindE (read_span xs off width) (\<lambda>b. Inr (dec b)) = Inr v"
  shows "enc v = take width (drop off xs)" "off + width \<le> length xs"
  using assms by (auto simp: read_span_def enc_dec split: if_splits)

end

definition enc16 :: "u16 \<Rightarrow> bytes" where "enc16 v = be_bytes 2 (unat v)"
definition dec16 :: "bytes \<Rightarrow> u16" where "dec16 bs = of_nat (be_value bs)"
definition enc32 :: "u32 \<Rightarrow> bytes" where "enc32 v = be_bytes 4 (unat v)"
definition dec32 :: "bytes \<Rightarrow> u32" where "dec32 bs = of_nat (be_value bs)"
definition enc64 :: "u64 \<Rightarrow> bytes" where "enc64 v = be_bytes 8 (unat v)"
definition dec64 :: "bytes \<Rightarrow> u64" where "dec64 bs = of_nat (be_value bs)"

interpretation be16: fixed_codec enc16 dec16 2
proof
  show "enc16 (dec16 bs) = bs" if "length bs = 2" for bs
    using that be_value_less[of bs] be_bytes_be_value[of bs]
    by (simp add: enc16_def dec16_def unat_of_nat)
  show "dec16 (enc16 x) = x" for x
    using unat_less_pow[of x] by (simp add: enc16_def dec16_def be_value_be_bytes)
qed (simp add: enc16_def)

interpretation be32: fixed_codec enc32 dec32 4
proof
  show "enc32 (dec32 bs) = bs" if "length bs = 4" for bs
    using that be_value_less[of bs] be_bytes_be_value[of bs]
    by (simp add: enc32_def dec32_def unat_of_nat)
  show "dec32 (enc32 x) = x" for x
    using unat_less_pow[of x] by (simp add: enc32_def dec32_def be_value_be_bytes)
qed (simp add: enc32_def)

interpretation be64: fixed_codec enc64 dec64 8
proof
  show "enc64 (dec64 bs) = bs" if "length bs = 8" for bs
    using that be_value_less[of bs] be_bytes_be_value[of bs]
    by (simp add: enc64_def dec64_def unat_of_nat)
  show "dec64 (enc64 x) = x" for x
    using unat_less_pow[of x] by (simp add: enc64_def dec64_def be_value_be_bytes)
qed (simp add: enc64_def)

section \<open>Hash maps\<close>

text \<open>What is asked of the iteration over \<^verbatim>\<open>std::unordered_map\<close>: it visits the entries of the table.\<close>

definition enumerates :: "(('a \<rightharpoonup> 'b) \<Rightarrow> 'a list) \<Rightarrow> bool" where
  "enumerates order \<longleftrightarrow> (\<forall>m. finite (dom m) \<longrightarrow> set (order m) = dom m)"

end
