(* ===== verification/Bencode.thy ===== *)
theory Bencode
  imports Prelude
begin

text \<open>
  The Bencode component (\<^verbatim>\<open>include/bencode.hpp\<close>, \<^verbatim>\<open>src/bencode.cpp\<close>): the value type with
  its accessors, the strict recursive-descent parser and the encoder.  A parser takes the
  remaining input and returns a value with what is left of the input, or the exception
  the C++ throws.  The main results are the two round trips: the parser inverts the
  encoder on well-formed values, and every input the parser accepts is the encoding of
  the value it returns.
\<close>

section \<open>Values\<close>

datatype BencodeValue =
    BInt int
  | BString bytes
  | BList "BencodeValue list"
  | BDict "(bytes \<times> BencodeValue) list"

text \<open>\<^verbatim>\<open>BencodeDict\<close> is a \<^verbatim>\<open>std::map\<close>: its entries are kept in increasing key order.  Keys are
  compared as \<^verbatim>\<open>std::string_view\<close>s, lexicographically by unsigned byte.  \<^verbatim>\<open>emplace\<close> leaves an
  existing entry alone.\<close>

fun dict_emplace :: "(bytes \<times> 'v) list \<Rightarrow> bytes \<Rightarrow> 'v \<Rightarrow> (bytes \<times> 'v) list" where
  "dict_emplace [] k v = [(k, v)]"
| "dict_emplace ((k', v') # d) k v =
     (if k < k' then (k, v) # (k', v') # d
      else if k = k' then (k', v') # d
      else (k', v') # dict_emplace d k v)"

definition dict_find :: "(bytes \<times> 'v) list \<Rightarrow> bytes \<Rightarrow> 'v option" where
  "dict_find d k = map_of d k"

datatype access_error = NotAnInteger | NotAString | NotAList | NotADictionary

fun is_int :: "BencodeValue \<Rightarrow> bool" where
  "is_int (BInt _) = True" | "is_int _ = False"

fun is_string :: "BencodeValue \<Rightarrow> bool" where
  "is_string (BString _) = True" | "is_string _ = False"

fun is_list :: "BencodeValue \<Rightarrow> bool" where
  "is_list (BList _) = True" | "is_list _ = False"

fun is_dict :: "BencodeValue \<Rightarrow> bool" where
  "is_dict (BDict _) = True" | "is_dict _ = False"

fun as_int :: "BencodeValue \<Rightarrow> access_error + int" where
  "as_int (BInt i) = Inr i" | "as_int _ = Inl NotAnInteger"

fun as_string :: "BencodeValue \<Rightarrow> access_error + bytes" where
  "as_string (BString s) = Inr s" | "as_string _ = Inl NotAString"

fun as_list :: "BencodeValue \<Rightarrow> access_error + BencodeValue list" where
  "as_list (BList vs) = Inr vs" | "as_list _ = Inl NotAList"

fun as_dict :: "BencodeValue \<Rightarrow> access_error + (bytes \<times> BencodeValue) list" where
  "as_dict (BDict d) = Inr d" | "as_dict _ = Inl NotADictionary"

section \<open>Parser\<close>

datatype bencode_error =
    ExtraData | UnexpectedEnd | InvalidFirstChar
  | ExpectedI | UnexpectedEndOfInt | ExpectedDigits | LeadingZeroInt | NegativeZero
  | IntOverflow | ExpectedEInt
  | ExpectedLengthDigit | LeadingZeroLength | LengthOverflow | ExpectedColon
  | UnexpectedEndOfString
  | ExpectedL | ExpectedEList
  | ExpectedD | DuplicateKey | KeysNotSorted | ExpectedEDict

text \<open>The digit loop of \<^verbatim>\<open>parse_int\<close>: the overflow test is made before the multiplication.\<close>

fun int_digits :: "int \<Rightarrow> bytes \<Rightarrow> bencode_error + int \<times> bytes" where
  "int_digits val [] = Inr (val, [])"
| "int_digits val (c # cs) =
     (if isdigit c then
        if val > (INT64_MAX - int (digit_val c)) div 10 then Inl IntOverflow
        else int_digits (val * 10 + int (digit_val c)) cs
      else Inr (val, c # cs))"

definition parse_int :: "bytes \<Rightarrow> bencode_error + int \<times> bytes" where
  "parse_int rem =
     (if rem = [] \<or> hd rem \<noteq> 105 then Inl ExpectedI
      else let rem = tl rem in
      if rem = [] then Inl UnexpectedEndOfInt
      else let negative = (hd rem = 45); rem = (if negative then tl rem else rem) in
      if rem = [] \<or> \<not> isdigit (hd rem) then Inl ExpectedDigits
      else if hd rem = 48 \<and> (length rem < 2 \<or> rem ! 1 \<noteq> 101) then Inl LeadingZeroInt
      else if hd rem = 48 \<and> negative then Inl NegativeZero
      else bindE (int_digits 0 rem) (\<lambda>(val, rem).
        if rem = [] \<or> hd rem \<noteq> 101 then Inl ExpectedEInt
        else Inr (if negative then - val else val, tl rem)))"

fun length_digits :: "nat \<Rightarrow> bytes \<Rightarrow> bencode_error + nat \<times> bytes" where
  "length_digits len [] = Inr (len, [])"
| "length_digits len (c # cs) =
     (if isdigit c then
        if len > (SIZE_MAX - digit_val c) div 10 then Inl LengthOverflow
        else length_digits (len * 10 + digit_val c) cs
      else Inr (len, c # cs))"

definition parse_string :: "bytes \<Rightarrow> bencode_error + bytes \<times> bytes" where
  "parse_string rem =
     (if rem = [] \<or> \<not> isdigit (hd rem) then Inl ExpectedLengthDigit
      else if hd rem = 48 \<and> (length rem < 2 \<or> rem ! 1 \<noteq> 58) then Inl LeadingZeroLength
      else bindE (length_digits 0 rem) (\<lambda>(len, rem).
        if rem = [] \<or> hd rem \<noteq> 58 then Inl ExpectedColon
        else let rem = tl rem in
        if length rem < len then Inl UnexpectedEndOfString
        else Inr (take len rem, drop len rem)))"

text \<open>The key check of the dictionary loop.\<close>

definition check_key :: "bytes option \<Rightarrow> bytes \<Rightarrow> bencode_error + unit" where
  "check_key last_key key =
     (case last_key of
        None \<Rightarrow> Inr ()
      | Some k \<Rightarrow> if key \<le> k then (if key = k then Inl DuplicateKey else Inl KeysNotSorted) else Inr ())"

text \<open>\<^verbatim>\<open>parse_value\<close>, \<^verbatim>\<open>parse_list\<close> and \<^verbatim>\<open>parse_dict\<close>; the while loops of the last two are the
  functions \<open>list_loop\<close> and \<open>dict_loop\<close>.\<close>

function (sequential) parse_value :: "bytes \<Rightarrow> bencode_error + BencodeValue \<times> bytes"
  and parse_list :: "bytes \<Rightarrow> bencode_error + BencodeValue list \<times> bytes"
  and list_loop :: "bytes \<Rightarrow> BencodeValue list \<Rightarrow> bencode_error + BencodeValue list \<times> bytes"
  and parse_dict :: "bytes \<Rightarrow> bencode_error + (bytes \<times> BencodeValue) list \<times> bytes"
  and dict_loop :: "bytes \<Rightarrow> (bytes \<times> BencodeValue) list \<Rightarrow> bytes option \<Rightarrow>
        bencode_error + (bytes \<times> BencodeValue) list \<times> bytes"
where
  "parse_value rem =
     (if rem = [] then Inl UnexpectedEnd
      else if hd rem = 105 then bindE (parse_int rem) (\<lambda>(i, rem). Inr (BInt i, rem))
      else if hd rem = 108 then bindE (parse_list rem) (\<lambda>(vs, rem). Inr (BList vs, rem))
      else if hd rem = 100 then bindE (parse_dict rem) (\<lambda>(d, rem). Inr (BDict d, rem))
      else if isdigit (hd rem) then bindE (parse_string rem) (\<lambda>(s, rem). Inr (BString s, rem))
      else Inl InvalidFirstChar)"
| "parse_list rem =
     (if rem = [] \<or> hd rem \<noteq> 108 then Inl ExpectedL else list_loop (tl rem) [])"
| "list_loop rem lst =
     (if rem \<noteq> [] \<and> hd rem \<noteq> 101 then
        (case parse_value rem of
           Inl e \<Rightarrow> Inl e
         | Inr (v, rem') \<Rightarrow> list_loop rem' (lst @ [v]))
      else if rem = [] \<or> hd rem \<noteq> 101 then Inl ExpectedEList
      else Inr (lst, tl rem))"
| "parse_dict rem =
     (if rem = [] \<or> hd rem \<noteq> 100 then Inl ExpectedD else dict_loop (tl rem) [] None)"
| "dict_loop rem dict last_key =
     (if rem \<noteq> [] \<and> hd rem \<noteq> 101 then
        (case parse_string rem of
           Inl e \<Rightarrow> Inl e
         | Inr (key, rem1) \<Rightarrow>
             (case check_key last_key key of
                Inl e \<Rightarrow> Inl e
              | Inr _ \<Rightarrow>
                  (case parse_value rem1 of
                     Inl e \<Rightarrow> Inl e
                   | Inr (v, rem2) \<Rightarrow> dict_loop rem2 (dict_emplace dict key v) (Some key))))
      else if rem = [] \<or> hd rem \<noteq> 101 then Inl ExpectedEDict
      else Inr (dict, tl rem))"
  by pat_completeness auto

lemma int_digits_length: "int_digits v xs = Inr (n, rest) \<Longrightarrow> length rest \<le> length xs"
  by (induction v xs rule: int_digits.induct) (auto split: if_splits)

lemma length_digits_length: "length_digits v xs = Inr (n, rest) \<Longrightarrow> length rest \<le> length xs"
  by (induction v xs rule: length_digits.induct) (auto split: if_splits)

lemma parse_int_length:
  assumes "parse_int xs = Inr (n, rest)"
  shows "length rest < length xs"
proof -
  obtain ys v zs where "length ys < length xs" "int_digits 0 ys = Inr (v, zs)"
    "rest = tl zs"
    using assms by (auto simp: parse_int_def Let_def bindE_Inr_iff split: if_splits)
      (metis diff_less length_greater_0_conv length_tl less_imp_diff_less zero_less_one)+
  then show ?thesis using int_digits_length[of 0 ys v zs] by simp
qed

lemma parse_string_length:
  assumes "parse_string xs = Inr (s, rest)"
  shows "length rest < length xs"
proof -
  obtain n zs where "length_digits 0 xs = Inr (n, zs)" "zs \<noteq> []" "rest = drop n (tl zs)"
    using assms by (auto simp: parse_string_def Let_def bindE_Inr_iff split: if_splits)
  then show ?thesis using length_digits_length[of 0 xs n zs] by (cases zs) auto
qed


text \<open>Every parser that succeeds has consumed input; this is what makes the mutual recursion
  terminate.\<close>

lemma parse_shrinks_dom:
  "parse_value_parse_list_list_loop_parse_dict_dict_loop_dom (Inl (Inl rem)) \<Longrightarrow>
     parse_value rem = Inr (v, r) \<Longrightarrow> length r < length rem"
  "parse_value_parse_list_list_loop_parse_dict_dict_loop_dom (Inl (Inr rem)) \<Longrightarrow>
     parse_list rem = Inr (vs, r) \<Longrightarrow> length r < length rem"
  "parse_value_parse_list_list_loop_parse_dict_dict_loop_dom (Inr (Inl (rem, lst))) \<Longrightarrow>
     list_loop rem lst = Inr (vs, r) \<Longrightarrow> length r < length rem"
  "parse_value_parse_list_list_loop_parse_dict_dict_loop_dom (Inr (Inr (Inl rem))) \<Longrightarrow>
     parse_dict rem = Inr (d, r) \<Longrightarrow> length r < length rem"
  "parse_value_parse_list_list_loop_parse_dict_dict_loop_dom (Inr (Inr (Inr (rem, dict, last_key)))) \<Longrightarrow>
     dict_loop rem dict last_key = Inr (d, r) \<Longrightarrow> length r < length rem"
proof (induction rem and rem and rem lst and rem and rem dict last_key arbitrary: v r and vs r and vs r and d r and d r
    rule: parse_value_parse_list_list_loop_parse_dict_dict_loop.pinduct)
  case (1 rem)
  then show ?case
    by (auto simp: parse_value.psimps bindE_Inr_iff dest: parse_int_length parse_string_length
        split: if_splits)
next
  case (2 rem)
  then show ?case
    by (cases rem) (auto simp: parse_list.psimps split: if_splits intro: less_SucI)
next
  case (3 rem lst)
  show ?case
  proof (cases "rem \<noteq> [] \<and> hd rem \<noteq> 101")
    case True
    then obtain v r' where pv: "parse_value rem = Inr (v, r')"
      and ll: "list_loop r' (lst @ [v]) = Inr (vs, r)"
      using 3(1,4) by (auto simp: list_loop.psimps split: sum.splits)
    show ?thesis using 3(2)[OF True pv] 3(3)[OF True pv refl ll] by simp
  next
    case False
    then show ?thesis using 3(1,4) by (auto simp: list_loop.psimps split: if_splits)
  qed
next
  case (4 rem)
  then show ?case
    by (cases rem) (auto simp: parse_dict.psimps split: if_splits intro: less_SucI)
next
  case (5 rem dict last_key)
  show ?case
  proof (cases "rem \<noteq> [] \<and> hd rem \<noteq> 101")
    case True
    then obtain k r1 v r2 where ps: "parse_string rem = Inr (k, r1)"
      and ck: "check_key last_key k = Inr ()" and pv: "parse_value r1 = Inr (v, r2)"
      and dl: "dict_loop r2 (dict_emplace dict k v) (Some k) = Inr (d, r)"
      using 5(1,4) by (auto simp: dict_loop.psimps split: sum.splits)
    show ?thesis
      using parse_string_length[OF ps] 5(2)[OF True ps refl ck pv]
        5(3)[OF True ps refl ck pv refl dl] by simp
  next
    case False
    then show ?thesis using 5(1,4) by (auto simp: dict_loop.psimps split: if_splits)
  qed
qed

termination parse_value
  by (relation "measure (\<lambda>x. case x of
        Inl (Inl r) \<Rightarrow> 3 * length r + 1 | Inl (Inr r) \<Rightarrow> 3 * length r
      | Inr (Inl (r, _)) \<Rightarrow> 3 * length r + 2 | Inr (Inr (Inl r)) \<Rightarrow> 3 * length r
      | Inr (Inr (Inr (r, _, _))) \<Rightarrow> 3 * length r + 2)")
    (auto simp: neq_Nil_conv dest!: parse_shrinks_dom parse_string_length)

declare parse_value.simps [simp del] parse_list.simps [simp del] list_loop.simps [simp del]
  parse_dict.simps [simp del] dict_loop.simps [simp del]

definition parse :: "bytes \<Rightarrow> bencode_error + BencodeValue" where
  "parse input =
     bindE (parse_value input) (\<lambda>(v, rem). if rem \<noteq> [] then Inl ExtraData else Inr v)"

section \<open>Encoder\<close>

fun encode_value :: "BencodeValue \<Rightarrow> bytes \<Rightarrow> bytes" where
  "encode_value (BInt i) out = out @ [105] @ to_string i @ [101]"
| "encode_value (BString s) out = out @ to_string_nat (length s) @ [58] @ s"
| "encode_value (BList vs) out = fold encode_value vs (out @ [108]) @ [101]"
| "encode_value (BDict d) out =
     fold (\<lambda>(k, v) out. encode_value v (out @ to_string_nat (length k) @ [58] @ k)) d
       (out @ [100]) @ [101]"

definition encode :: "BencodeValue \<Rightarrow> bytes" where
  "encode v = encode_value v []"

section \<open>Specification of the encoder\<close>

lemma fold_append_out:
  assumes "\<And>x out. x \<in> set xs \<Longrightarrow> f x out = out @ g x"
  shows "fold f xs out = out @ concat (map g xs)"
  using assms by (induction xs arbitrary: out) simp_all

lemma encode_value_append: "encode_value v out = out @ encode v"
proof (induction v arbitrary: out)
  case (BList vs)
  have "fold encode_value vs o' = o' @ concat (map encode vs)" for o'
    by (rule fold_append_out) (simp add: BList)
  then show ?case by (simp add: encode_def)
next
  case (BDict d)
  have "fold (\<lambda>(k, v) out. encode_value v (out @ to_string_nat (length k) @ [58] @ k)) d o' =
      o' @ concat (map (\<lambda>(k, v). to_string_nat (length k) @ [58] @ k @ encode v) d)" for o'
    by (rule fold_append_out) (use BDict in \<open>force split: prod.splits\<close>)
  then show ?case by (simp add: encode_def)
qed (simp_all add: encode_def)

lemma encode_BInt: "encode (BInt i) = 105 # to_string i @ [101]"
  by (simp add: encode_def)

lemma encode_BString: "encode (BString s) = to_string_nat (length s) @ 58 # s"
  by (simp add: encode_def)

lemma encode_BList: "encode (BList vs) = 108 # concat (map encode vs) @ [101]"
proof -
  have "fold encode_value vs [108] = [108] @ concat (map encode vs)"
    by (rule fold_append_out) (simp add: encode_value_append)
  then show ?thesis by (simp add: encode_def)
qed

definition encode_entry :: "bytes \<times> BencodeValue \<Rightarrow> bytes" where
  "encode_entry e = encode (BString (fst e)) @ encode (snd e)"

lemma encode_BDict: "encode (BDict d) = 100 # concat (map encode_entry d) @ [101]"
proof -
  have "fold (\<lambda>(k, v) out. encode_value v (out @ to_string_nat (length k) @ [58] @ k)) d [100] =
      [100] @ concat (map encode_entry d)"
    by (rule fold_append_out)
      (auto simp: encode_value_append encode_entry_def encode_BString)
  then show ?thesis by (simp add: encode_def)
qed

lemmas encode_eqs = encode_BInt encode_BString encode_BList encode_BDict

lemma hd_encode:
  obtains "\<exists>i. v = BInt i" "hd (encode v) = 105" | "\<exists>vs. v = BList vs" "hd (encode v) = 108"
  | "\<exists>d. v = BDict d" "hd (encode v) = 100" | "\<exists>s. v = BString s" "isdigit (hd (encode v))"
  by (cases v) (auto simp: encode_eqs hd_append)

lemma encode_neq_Nil [simp]: "encode v \<noteq> []"
  by (cases v) (simp_all add: encode_eqs)

lemma isdigit_neq: "isdigit c \<Longrightarrow> c \<noteq> 101 \<and> c \<noteq> 105 \<and> c \<noteq> 108 \<and> c \<noteq> 100 \<and> c \<noteq> 58 \<and> c \<noteq> 45"
  by (auto simp: isdigit_def)

lemma hd_encode_neq_e: "hd (encode v) \<noteq> 101"
  by (rule hd_encode[of v]) (auto dest: isdigit_neq)

section \<open>The digit loops\<close>

lemma div_ten_check_nat:
  fixes n d m :: nat
  assumes "d \<le> m"
  shows "(m - d) div 10 < n \<longleftrightarrow> m < n * 10 + d"
  using assms by (simp add: div_less_iff_less_mult less_diff_conv2)

lemma div_ten_check_int: "(m - d) div 10 < v \<longleftrightarrow> m < v * 10 + (d :: int)"
  by linarith

lemma nat_overflow_check:
  "d < 10 \<Longrightarrow> (n > (SIZE_MAX - d) div 10) \<longleftrightarrow> (n * 10 + d > SIZE_MAX)"
  by (rule div_ten_check_nat) simp

lemma int_overflow_check: "(v > (INT64_MAX - d) div 10) \<longleftrightarrow> (v * 10 + d > INT64_MAX)"
  by (rule div_ten_check_int)

lemma length_digits_append:
  assumes "\<forall>d\<in>set ds. isdigit d" "dec_val n ds \<le> SIZE_MAX" "rest = [] \<or> \<not> isdigit (hd rest)"
  shows "length_digits n (ds @ rest) = Inr (dec_val n ds, rest)"
  using assms
proof (induction ds arbitrary: n)
  case Nil
  then show ?case by (cases rest) auto
next
  case (Cons d ds)
  have "n * 10 + digit_val d \<le> SIZE_MAX"
    using Cons.prems(2) dec_val_mono[of "n * 10 + digit_val d" ds] by simp
  with Cons show ?case by (simp add: nat_overflow_check digit_val_less)
qed

lemma length_digits_sound:
  assumes "length_digits n xs = Inr (m, rest)" "n \<le> SIZE_MAX"
  obtains ds where "xs = ds @ rest" "\<forall>d\<in>set ds. isdigit d" "m = dec_val n ds" "m \<le> SIZE_MAX"
    "rest = [] \<or> \<not> isdigit (hd rest)"
  using assms
proof (induction n xs arbitrary: thesis rule: length_digits.induct)
  case (1 len)
  then show ?case by simp
next
  case (2 len c cs)
  show ?case
  proof (cases "isdigit c")
    case True
    then have le: "\<not> len > (SIZE_MAX - digit_val c) div 10"
      and rec: "length_digits (len * 10 + digit_val c) cs = Inr (m, rest)"
      using 2(3) by (simp_all split: if_splits)
    then have "len * 10 + digit_val c \<le> SIZE_MAX"
      using nat_overflow_check[OF digit_val_less[OF True]] by simp
    from 2(1)[OF True le _ rec this] obtain ds where "cs = ds @ rest" "\<forall>d\<in>set ds. isdigit d"
      "m = dec_val (len * 10 + digit_val c) ds" "m \<le> SIZE_MAX" "rest = [] \<or> \<not> isdigit (hd rest)"
      by blast
    then show ?thesis using True by (intro 2(2)[of "c # ds"]) auto
  next
    case False
    then show ?thesis using 2(2)[of "[]"] 2(3,4) by auto
  qed
qed

lemma int_digits_append:
  assumes "\<forall>d\<in>set ds. isdigit d" "int (dec_val n ds) \<le> INT64_MAX" "rest = [] \<or> \<not> isdigit (hd rest)"
  shows "int_digits (int n) (ds @ rest) = Inr (int (dec_val n ds), rest)"
  using assms
proof (induction ds arbitrary: n)
  case Nil
  then show ?case by (cases rest) auto
next
  case (Cons d ds)
  have "int (n * 10 + digit_val d) \<le> INT64_MAX"
    using Cons.prems(2) dec_val_mono[of "n * 10 + digit_val d" ds] by simp
  moreover from Cons have "int_digits (int (n * 10 + digit_val d)) (ds @ rest) =
      Inr (int (dec_val (n * 10 + digit_val d) ds), rest)"
    by (intro Cons.IH) simp_all
  ultimately show ?case
    using Cons.prems(1) int_overflow_check[of "int (digit_val d)" "int n"] digit_val_less[of d]
    by simp
qed

lemma int_digits_overflow:
  assumes "\<forall>d\<in>set ds. isdigit d" "int n \<le> INT64_MAX" "int (dec_val n ds) > INT64_MAX"
  shows "int_digits (int n) (ds @ rest) = Inl IntOverflow"
  using assms
proof (induction ds arbitrary: n)
  case (Cons d ds)
  show ?case
  proof (cases "int (n * 10 + digit_val d) \<le> INT64_MAX")
    case True
    with Cons have "int_digits (int (n * 10 + digit_val d)) (ds @ rest) = Inl IntOverflow"
      by (intro Cons.IH) simp_all
    with Cons.prems show ?thesis by simp
  next
    case False
    then show ?thesis
      using Cons.prems(1) int_overflow_check[of "int (digit_val d)" "int n"] by simp
  qed
qed simp

lemma int_digits_sound:
  assumes "int_digits (int n) xs = Inr (m, rest)" "int n \<le> INT64_MAX"
  obtains ds where "xs = ds @ rest" "\<forall>d\<in>set ds. isdigit d" "m = int (dec_val n ds)" "m \<le> INT64_MAX"
    "rest = [] \<or> \<not> isdigit (hd rest)"
  using assms
proof (induction xs arbitrary: n thesis)
  case Nil
  then show ?case using Nil(1)[of "[]"] by simp
next
  case (Cons c cs)
  show ?case
  proof (cases "isdigit c")
    case True
    have rec: "int_digits (int (n * 10 + digit_val c)) cs = Inr (m, rest)"
      and "int n * 10 + int (digit_val c) \<le> INT64_MAX"
      using True Cons.prems(2) int_overflow_check[of "int (digit_val c)" "int n"] digit_val_less[of c]
      by (simp_all split: if_splits)
    then have le: "int (n * 10 + digit_val c) \<le> INT64_MAX" by simp
    from Cons.IH[OF _ rec le] obtain ds where "cs = ds @ rest" "\<forall>d\<in>set ds. isdigit d"
      "m = int (dec_val (n * 10 + digit_val c) ds)" "m \<le> INT64_MAX" "rest = [] \<or> \<not> isdigit (hd rest)"
      by blast
    then show ?thesis using True by (intro Cons.prems(1)[of "c # ds"]) auto
  next
    case False
    then show ?thesis using Cons.prems(1)[of "[]"] Cons.prems(2,3) by auto
  qed
qed

section \<open>Well-formed values\<close>

text \<open>The values the encoder can represent: integers of 64 bits (all but the least one, see
  below), strings of at most \<^verbatim>\<open>SIZE_MAX\<close> bytes, and dictionaries with increasing keys (which
  \<^verbatim>\<open>std::map\<close> guarantees).\<close>

fun bencode_wf :: "BencodeValue \<Rightarrow> bool" where
  "bencode_wf (BInt i) \<longleftrightarrow> - INT64_MAX \<le> i \<and> i \<le> INT64_MAX"
| "bencode_wf (BString s) \<longleftrightarrow> length s \<le> SIZE_MAX"
| "bencode_wf (BList vs) \<longleftrightarrow> (\<forall>v\<in>set vs. bencode_wf v)"
| "bencode_wf (BDict d) \<longleftrightarrow> sorted_wrt (<) (map fst d) \<and>
     (\<forall>e\<in>set d. length (fst e) \<le> SIZE_MAX \<and> bencode_wf (snd e))"

lemma dict_emplace_snoc:
  "\<forall>k'\<in>fst ` set d. k' < k \<Longrightarrow> dict_emplace d k v = d @ [(k, v)]"
  by (induction d k v rule: dict_emplace.induct) auto

section \<open>The parser inverts the encoder\<close>

lemma parse_string_encode:
  assumes "length s \<le> SIZE_MAX"
  shows "parse_string (encode (BString s) @ rest) = Inr (s, rest)"
proof -
  let ?ds = "to_string_nat (length s)"
  have ld: "length_digits 0 (?ds @ 58 # s @ rest) = Inr (length s, 58 # s @ rest)"
    using assms length_digits_append[of ?ds 0 "58 # s @ rest"] to_string_nat_set[of "length s"]
    by (simp add: isdigit_def)
  have "hd ?ds = 48 \<Longrightarrow> ?ds = [48]"
    using hd_to_string_nat_pos[of "length s"] by (cases "length s") auto
  then have z: "\<not> (hd (?ds @ 58 # s @ rest) = 48 \<and>
      (length (?ds @ 58 # s @ rest) < 2 \<or> (?ds @ 58 # s @ rest) ! 1 \<noteq> 58))"
    by (auto simp: hd_append)
  show ?thesis using z ld by (auto simp: parse_string_def encode_BString hd_append)
qed

lemma parse_int_encode:
  assumes "- INT64_MAX \<le> i" "i \<le> INT64_MAX"
  shows "parse_int (encode (BInt i) @ rest) = Inr (i, rest)"
proof -
  define n where "n = nat \<bar>i\<bar>"
  let ?ds = "to_string_nat n"
  have n: "int n \<le> INT64_MAX" using assms by (simp add: n_def)
  have id: "int_digits 0 (?ds @ 101 # rest) = Inr (int n, 101 # rest)"
    using n int_digits_append[of ?ds 0 "101 # rest"] to_string_nat_set[of n]
    by (simp add: isdigit_def)
  have zero: "hd ?ds = 48 \<Longrightarrow> n = 0"
    using hd_to_string_nat_pos[of n] by auto
  show ?thesis
  proof (cases "i < 0")
    case True
    then have "n \<noteq> 0" and "int n = - i" by (simp_all add: n_def)
    then show ?thesis using True id zero
      by (auto simp: parse_int_def encode_BInt to_string_def hd_append n_def Let_def)
  next
    case False
    then have "int n = i" "hd ?ds = 48 \<Longrightarrow> ?ds = [48]" using zero by (auto simp: n_def)
    moreover have "hd ?ds \<noteq> 45"
      using isdigit_neq[OF isdigit_hd_to_string_nat[of n]] by simp
    ultimately show ?thesis using False id
      by (auto simp: parse_int_def encode_BInt to_string_def hd_append n_def Let_def)
  qed
qed

lemma list_loop_encode:
  assumes "\<And>v rest. v \<in> set vs \<Longrightarrow> parse_value (encode v @ rest) = Inr (v, rest)"
  shows "list_loop (concat (map encode vs) @ 101 # rest) lst = Inr (lst @ vs, rest)"
  using assms
proof (induction vs arbitrary: lst)
  case Nil
  then show ?case by (simp add: list_loop.simps)
next
  case (Cons v vs)
  have "parse_value (encode v @ concat (map encode vs) @ 101 # rest) =
      Inr (v, concat (map encode vs) @ 101 # rest)"
    using Cons.prems by simp
  with Cons show ?case
    by (subst list_loop.simps) (simp add: hd_append hd_encode_neq_e)
qed

lemma dict_loop_encode:
  assumes "\<And>e rest. e \<in> set d \<Longrightarrow> parse_value (encode (snd e) @ rest) = Inr (snd e, rest)"
    "\<And>e. e \<in> set d \<Longrightarrow> length (fst e) \<le> SIZE_MAX"
    "sorted_wrt (<) (map fst (dict @ d))"
    "last_key = (if dict = [] then None else Some (fst (last dict)))"
  shows "dict_loop (concat (map encode_entry d) @ 101 # rest) dict last_key = Inr (dict @ d, rest)"
  using assms
proof (induction d arbitrary: dict last_key)
  case Nil
  then show ?case by (simp add: dict_loop.simps)
next
  case (Cons e d)
  obtain k v where e: "e = (k, v)" by fastforce
  let ?r = "concat (map encode_entry d) @ 101 # rest"
  have ps: "parse_string (encode (BString k) @ encode v @ ?r) = Inr (k, encode v @ ?r)"
    using Cons.prems(2)[of e] by (intro parse_string_encode) (simp add: e)
  have pv: "parse_value (encode v @ ?r) = Inr (v, ?r)"
    using Cons.prems(1)[of e] by (simp add: e)
  have lt: "\<forall>k'\<in>fst ` set dict. k' < k"
    using Cons.prems(3) by (auto simp: e sorted_wrt_append)
  then have ck: "check_key last_key k = Inr ()"
    using Cons.prems(4) by (cases "dict = []") (force simp: check_key_def not_le)+
  have rec: "dict_loop ?r (dict @ [(k, v)]) (Some k) = Inr ((dict @ [(k, v)]) @ d, rest)"
    using Cons.prems by (intro Cons.IH) (auto simp: e)
  have hd: "hd (encode (BString k) @ encode v @ ?r) \<noteq> 101"
    by (simp add: hd_append hd_encode_neq_e)
  show ?case
    using ps pv ck rec hd lt
    by (subst dict_loop.simps) (simp add: e encode_entry_def dict_emplace_snoc)
qed

lemma parse_value_encode:
  "bencode_wf v \<Longrightarrow> parse_value (encode v @ rest) = Inr (v, rest)"
proof (induction v arbitrary: rest)
  case (BInt i)
  then show ?case
    using parse_int_encode[of i rest] by (simp add: parse_value.simps encode_BInt)
next
  case (BString s)
  have "isdigit (hd (encode (BString s) @ rest))" by (simp add: encode_BString hd_append)
  with BString show ?case
    using parse_string_encode[of s rest] isdigit_neq[of "hd (encode (BString s) @ rest)"]
    by (subst parse_value.simps) auto
next
  case (BList vs)
  have "list_loop (concat (map encode vs) @ 101 # rest) [] = Inr ([] @ vs, rest)"
    using BList by (intro list_loop_encode) auto
  then show ?case by (simp add: parse_value.simps parse_list.simps encode_BList)
next
  case (BDict d)
  have "dict_loop (concat (map encode_entry d) @ 101 # rest) [] None = Inr ([] @ d, rest)"
  proof (rule dict_loop_encode)
    show "parse_value (encode (snd e) @ rest) = Inr (snd e, rest)" if "e \<in> set d" for e rest
      using BDict that by (cases e) auto
  qed (use BDict in auto)
  then show ?case by (simp add: parse_value.simps parse_dict.simps encode_BDict)
qed

section \<open>Only encodings are accepted\<close>

lemma parse_string_sound:
  assumes "parse_string xs = Inr (s, rest)"
  shows "xs = encode (BString s) @ rest \<and> length s \<le> SIZE_MAX"
proof -
  obtain n zs where xs: "xs \<noteq> []" "isdigit (hd xs)"
    and z: "hd xs = 48 \<Longrightarrow> 2 \<le> length xs \<and> xs ! 1 = 58"
    and ld: "length_digits 0 xs = Inr (n, 58 # zs)"
    and s: "n \<le> length zs" "s = take n zs" "rest = drop n zs"
    using assms by (auto simp: parse_string_def Let_def bindE_Inr_iff not_less neq_Nil_conv split: if_splits)
  obtain ds where ds: "xs = ds @ 58 # zs" "\<forall>d\<in>set ds. isdigit d" "n = dec_val 0 ds" "n \<le> SIZE_MAX"
    by (rule length_digits_sound[OF ld]) auto
  have ne: "ds \<noteq> []" using xs ds(1) by (auto simp: isdigit_def)
  have "hd ds = 48 \<longrightarrow> length ds = 1"
  proof
    assume "hd ds = 48"
    then have "xs ! 1 = 58" using z ne ds(1) by (simp add: hd_append)
    then show "length ds = 1"
      using ne ds by (cases ds; cases "tl ds") (auto simp: isdigit_def)
  qed
  with ne ds have "to_string_nat n = ds" by (simp add: to_string_nat_dec_val)
  then show ?thesis using s ds by (auto simp: encode_BString min_absorb2)
qed

lemma parse_int_sound:
  assumes "parse_int xs = Inr (i, rest)"
  shows "xs = encode (BInt i) @ rest \<and> - INT64_MAX \<le> i \<and> i \<le> INT64_MAX"
proof -
  define neg where "neg = (hd (tl xs) = 45)"
  define ys where "ys = (if neg then tl (tl xs) else tl xs)"
  have eq: "parse_int xs =
     (if xs = [] \<or> hd xs \<noteq> 105 then Inl ExpectedI
      else if tl xs = [] then Inl UnexpectedEndOfInt
      else if ys = [] \<or> \<not> isdigit (hd ys) then Inl ExpectedDigits
      else if hd ys = 48 \<and> (length ys < 2 \<or> ys ! 1 \<noteq> 101) then Inl LeadingZeroInt
      else if hd ys = 48 \<and> neg then Inl NegativeZero
      else bindE (int_digits 0 ys) (\<lambda>(val, rem).
        if rem = [] \<or> hd rem \<noteq> 101 then Inl ExpectedEInt
        else Inr (if neg then - val else val, tl rem)))"
    by (simp only: parse_int_def Let_def neg_def ys_def)
  note res = assms[unfolded eq]
  have parsed: "xs \<noteq> []" "hd xs = 105" "tl xs \<noteq> []" "ys \<noteq> []" "isdigit (hd ys)"
    and ys: "hd ys = 48 \<Longrightarrow> 2 \<le> length ys \<and> ys ! 1 = 101 \<and> \<not> neg"
    using res by (simp_all split: if_split_asm)
  have "bindE (int_digits 0 ys) (\<lambda>(val, rem).
        if rem = [] \<or> hd rem \<noteq> 101 then Inl ExpectedEInt
        else Inr (if neg then - val else val, tl rem)) = Inr (i, rest)"
    using res parsed ys by (simp split: if_split_asm)
  then have "\<exists>v. int_digits 0 ys = Inr (v, 101 # rest) \<and> i = (if neg then - v else v)"
    by (auto simp: bindE_Inr_iff neq_Nil_conv split: if_split_asm)
  then obtain v where v: "int_digits (int 0) ys = Inr (v, 101 # rest)" "i = (if neg then - v else v)"
    by auto
  have xs: "xs = 105 # (if neg then 45 # ys else ys)"
    using parsed by (cases xs; cases "tl xs") (auto simp: neg_def ys_def)
  obtain ds where ds: "ys = ds @ 101 # rest" "\<forall>d\<in>set ds. isdigit d" "v = int (dec_val 0 ds)" "v \<le> INT64_MAX"
    by (rule int_digits_sound[OF v(1)]) auto
  have ne: "ds \<noteq> []" using parsed ds(1) by (auto simp: isdigit_def)
  have one: "length ds = 1" if "hd ds = 48"
  proof -
    have "ys ! 1 = 101" using ys that ne ds(1) by (simp add: hd_append)
    then show ?thesis using ne ds by (cases ds; cases "tl ds") (auto simp: isdigit_def)
  qed
  have str: "to_string_nat (nat v) = ds" using ne ds one by (simp add: to_string_nat_dec_val)
  have "v \<noteq> 0" if neg
  proof
    assume "v = 0"
    then have "ds = [48]" using str by simp
    then show False using ys ds(1) that by simp
  qed
  moreover have "0 \<le> v" using ds by simp
  ultimately have "to_string i = (if neg then 45 # ds else ds)"
    using str v(2) by (auto simp: to_string_def)
  then show ?thesis using v(2) ds xs \<open>0 \<le> v\<close> by (auto simp: encode_BInt)
qed

lemma parse_sound_mutual:
  "parse_value rem = Inr (v, r) \<Longrightarrow> rem = encode v @ r \<and> bencode_wf v"
  "parse_list rem = Inr (vs, r) \<Longrightarrow> rem = encode (BList vs) @ r \<and> bencode_wf (BList vs)"
  "list_loop rem lst = Inr (vs, r) \<Longrightarrow>
     \<exists>ws. vs = lst @ ws \<and> rem = concat (map encode ws) @ 101 # r \<and> (\<forall>w\<in>set ws. bencode_wf w)"
  "parse_dict rem = Inr (d, r) \<Longrightarrow> rem = encode (BDict d) @ r \<and> bencode_wf (BDict d)"
  "dict_loop rem dict last_key = Inr (d, r) \<Longrightarrow> sorted_wrt (<) (map fst dict) \<Longrightarrow>
     last_key = (if dict = [] then None else Some (fst (last dict))) \<Longrightarrow>
     \<exists>ws. d = dict @ ws \<and> rem = concat (map encode_entry ws) @ 101 # r \<and>
       sorted_wrt (<) (map fst d) \<and> (\<forall>e\<in>set ws. length (fst e) \<le> SIZE_MAX \<and> bencode_wf (snd e))"
proof (induction rem and rem and rem lst and rem and rem dict last_key
    arbitrary: v r and vs r and vs r and d r and d r
    rule: parse_value_parse_list_list_loop_parse_dict_dict_loop.induct)
  case (1 rem)
  from 1(3) show ?case
    by (subst (asm) parse_value.simps)
      (auto simp: bindE_Inr_iff dest: parse_int_sound parse_string_sound 1(1,2) split: if_splits)
next
  case (2 rem)
  then have g: "\<not> (rem = [] \<or> hd rem \<noteq> 108)" and ll: "list_loop (tl rem) [] = Inr (vs, r)"
    by (auto simp: parse_list.simps split: if_splits)
  from 2(1)[OF this] g show ?case by (cases rem) (auto simp: encode_BList)
next
  case (3 rem lst)
  show ?case
  proof (cases "rem \<noteq> [] \<and> hd rem \<noteq> 101")
    case True
    then obtain v r' where pv: "parse_value rem = Inr (v, r')"
      and ll: "list_loop r' (lst @ [v]) = Inr (vs, r)"
      using 3(3) by (subst (asm) list_loop.simps) (auto split: sum.splits)
    obtain ws where "vs = (lst @ [v]) @ ws" "r' = concat (map encode ws) @ 101 # r"
      "\<forall>w\<in>set ws. bencode_wf w"
      using 3(2)[OF True pv refl ll] by blast
    then show ?thesis using 3(1)[OF True pv] by (intro exI[of _ "v # ws"]) auto
  next
    case False
    then show ?thesis using 3(3) by (subst (asm) list_loop.simps) (auto simp: neq_Nil_conv split: if_splits)
  qed
next
  case (4 rem)
  then have g: "\<not> (rem = [] \<or> hd rem \<noteq> 100)" and dl: "dict_loop (tl rem) [] None = Inr (d, r)"
    by (auto simp: parse_dict.simps split: if_splits)
  from 4(1)[OF this] g show ?case by (cases rem) (auto simp: encode_BDict)
next
  case (5 rem dict last_key)
  show ?case
  proof (cases "rem \<noteq> [] \<and> hd rem \<noteq> 101")
    case True
    then obtain k r1 v r2 where ps: "parse_string rem = Inr (k, r1)"
      and ck: "check_key last_key k = Inr ()" and pv: "parse_value r1 = Inr (v, r2)"
      and dl: "dict_loop r2 (dict_emplace dict k v) (Some k) = Inr (d, r)"
      using 5(3) by (subst (asm) dict_loop.simps) (auto split: sum.splits)
    have lt: "\<forall>k'\<in>fst ` set dict. k' < k"
    proof (cases dict rule: rev_cases)
      case (snoc d' e)
      then have "fst e < k" using ck 5(5) by (auto simp: check_key_def split: if_splits)
      then show ?thesis using 5(4) snoc by (force simp: sorted_wrt_append)
    qed simp
    then have em: "dict_emplace dict k v = dict @ [(k, v)]" by (rule dict_emplace_snoc)
    have "sorted_wrt (<) (map fst (dict @ [(k, v)]))"
      using 5(4) lt by (auto simp: sorted_wrt_append)
    then obtain ws where ws: "d = (dict @ [(k, v)]) @ ws" "r2 = concat (map encode_entry ws) @ 101 # r"
      "sorted_wrt (<) (map fst d)" "\<forall>e\<in>set ws. length (fst e) \<le> SIZE_MAX \<and> bencode_wf (snd e)"
      using 5(2)[OF True ps refl ck pv refl dl] by (auto simp: em)
    then show ?thesis
      using parse_string_sound[OF ps] 5(1)[OF True ps refl ck pv]
      by (intro exI[of _ "(k, v) # ws"]) (auto simp: encode_entry_def[of "(k, v)"])
  next
    case False
    then show ?thesis using 5(3,4) by (subst (asm) dict_loop.simps) (auto simp: neq_Nil_conv split: if_splits)
  qed
qed

lemmas parse_value_sound = parse_sound_mutual(1)

lemma parse_encode: "bencode_wf v \<Longrightarrow> parse (encode v) = Inr v"
  using parse_value_encode[of v "[]"] by (simp add: parse_def)

lemma parse_sound: "parse bs = Inr v \<Longrightarrow> bencode_wf v \<and> bs = encode v"
  using parse_value_sound by (force simp: parse_def bindE_Inr_iff split: if_splits)

lemma parse_encode_overflow:
  assumes "\<not> (- INT64_MAX \<le> i \<and> i \<le> INT64_MAX)"
  shows "parse (encode (BInt i)) = Inl IntOverflow"
proof -
  define n where "n = nat \<bar>i\<bar>"
  let ?ds = "to_string_nat n"
  have n: "int n > INT64_MAX" "0 < n" using assms by (auto simp: n_def)
  have id: "int_digits 0 (?ds @ [101]) = Inl IntOverflow"
    using n int_digits_overflow[of ?ds 0 "[101]"] to_string_nat_set[of n] by simp
  have hds: "hd ?ds \<noteq> 48" "hd ?ds \<noteq> 45"
    using n hd_to_string_nat_pos[of n] isdigit_neq[OF isdigit_hd_to_string_nat[of n]] by simp_all
  have "parse_int (encode (BInt i)) = Inl IntOverflow"
    using id hds
    by (cases "i < 0") (auto simp: parse_int_def encode_BInt to_string_def hd_append n_def Let_def)
  then show ?thesis by (simp add: parse_def parse_value.simps encode_BInt)
qed

section \<open>Correctness\<close>

text \<open>C3: the parser accepts exactly the encodings of well-formed values.  \<^verbatim>\<open>BencodeParser::parse\<close>
  returns \<open>v\<close> on an input if and only if \<open>v\<close> is well formed and the input is
  \<^verbatim>\<open>BencodeParser::encode(v)\<close>: decoding inverts encoding, no two inputs decode to the same
  value, and leading zeros, unsorted or duplicate keys, overflowing numbers and trailing
  data are all refused.\<close>

theorem parse_iff_encode: "parse bs = Inr v \<longleftrightarrow> bencode_wf v \<and> bs = encode v"
  using parse_encode parse_sound by blast

text \<open>\<^verbatim>\<open>parse_value\<close> on a stream takes exactly one encoded value from the front and leaves the
  rest of the input untouched, whatever follows it (encodings are self-delimiting).\<close>

theorem parse_value_iff: "parse_value rem = Inr (v, rest) \<longleftrightarrow> bencode_wf v \<and> rem = encode v @ rest"
  using parse_value_sound parse_value_encode by metis

text \<open>An encoded integer is read back exactly when its magnitude fits the accumulator of the
  digit loop, and is reported as an overflow otherwise.  The least \<^verbatim>\<open>int64_t\<close> is the one value
  of the type that the encoder prints and the parser refuses.\<close>

theorem parse_encoded_int:
  "parse (encode (BInt i)) =
     (if - INT64_MAX \<le> i \<and> i \<le> INT64_MAX then Inr (BInt i) else Inl IntOverflow)"
  using parse_encode[of "BInt i"] parse_encode_overflow[of i] by simp

end
