(* ===== verification/Bitfields.thy ===== *)
theory Bitfields
  imports Prelude
begin

unbundle bit_operations_syntax

text \<open>
  The piece bitfield (\<^verbatim>\<open>include/bitfield.hpp\<close>, \<^verbatim>\<open>src/bitfield.cpp\<close>): a vector of bytes whose most
  significant bit comes first.  The component promises a set of piece indices below a
  fixed size (locale \<open>index_set\<close>); the interpretation shows that the byte vector with
  clean padding bits implements it, and the clients use the laws of the interface.
\<close>

section \<open>Interface\<close>

text \<open>What the clients rely on: a bounded set of indices with membership, insertion and size.\<close>

locale index_set =
  fixes inv :: "'b \<Rightarrow> bool" and bound :: "'b \<Rightarrow> nat" and elems :: "'b \<Rightarrow> nat set"
    and empty :: "nat \<Rightarrow> 'b" and mem :: "'b \<Rightarrow> nat \<Rightarrow> bool" and add :: "'b \<Rightarrow> nat \<Rightarrow> 'b"
    and size :: "'b \<Rightarrow> nat"
  assumes elems_bound: "inv b \<Longrightarrow> elems b \<subseteq> {..<bound b}"
    and inv_empty: "inv (empty n)"
    and bound_empty: "bound (empty n) = n"
    and elems_empty: "elems (empty n) = {}"
    and mem_elems: "inv b \<Longrightarrow> mem b i \<longleftrightarrow> i \<in> elems b"
    and inv_add: "inv b \<Longrightarrow> inv (add b i)"
    and bound_add: "bound (add b i) = bound b"
    and elems_add: "inv b \<Longrightarrow> elems (add b i) = (if i < bound b then insert i (elems b) else elems b)"
    and size_elems: "inv b \<Longrightarrow> size b = card (elems b)"
begin

lemma finite_elems: "inv b \<Longrightarrow> finite (elems b)"
  by (rule finite_subset[OF elems_bound]) auto

lemma mem_empty: "\<not> mem (empty n) i"
  by (simp add: mem_elems inv_empty elems_empty)

lemma mem_add: "inv b \<Longrightarrow> mem (add b i) j \<longleftrightarrow> (j = i \<and> i < bound b) \<or> mem b j"
  by (auto simp: mem_elems inv_add elems_add)

lemma mem_bound: "inv b \<Longrightarrow> mem b i \<Longrightarrow> i < bound b"
  using elems_bound by (auto simp: mem_elems)

lemma size_empty: "size (empty n) = 0"
  by (simp add: size_elems inv_empty elems_empty)

lemma size_add:
  assumes "inv b"
  shows "size (add b i) = (if i < bound b \<and> \<not> mem b i then Suc (size b) else size b)"
  using assms finite_elems[OF assms] by (auto simp: size_elems inv_add elems_add mem_elems insert_absorb)

lemma size_le: "inv b \<Longrightarrow> size b \<le> bound b"
  using card_mono[OF _ elems_bound] by (simp add: size_elems)

lemma size_full: "inv b \<Longrightarrow> size b = bound b \<longleftrightarrow> (\<forall>i<bound b. mem b i)"
  using card_subset_eq[OF finite_lessThan elems_bound, of b] subset_antisym[OF elems_bound, of b]
  by (auto simp: size_elems mem_elems) (metis card_lessThan lessThan_iff subsetI)

end

section \<open>The byte vector\<close>

record Bitfield =
  num_bits :: nat
  bf_bytes :: bytes

definition bitfield_empty :: "nat \<Rightarrow> Bitfield" where
  "bitfield_empty n = \<lparr>num_bits = n, bf_bytes = replicate ((n + 7) div 8) 0\<rparr>"

definition bitfield_of_bytes :: "bytes \<Rightarrow> nat \<Rightarrow> Bitfield" where
  "bitfield_of_bytes bs n =
     (let expected_size = (n + 7) div 8;
          buf = replicate expected_size 0;
          copy_size = min (length bs) expected_size;
          buf = write_at buf 0 (take copy_size bs);
          buf = (if n mod 8 \<noteq> 0 \<and> buf \<noteq> []
                 then let mask = push_bit (8 - n mod 8) 0xFF
                      in buf[length buf - 1 := last buf AND mask]
                 else buf)
      in \<lparr>num_bits = n, bf_bytes = buf\<rparr>)"

definition bf_has :: "Bitfield \<Rightarrow> nat \<Rightarrow> bool" where
  "bf_has b i =
     (if num_bits b \<le> i then False
      else let byte_idx = i div 8; bit_offset = 7 - i mod 8
           in bf_bytes b ! byte_idx AND push_bit bit_offset 1 \<noteq> 0)"

definition bf_set :: "Bitfield \<Rightarrow> nat \<Rightarrow> bool \<Rightarrow> Bitfield" where
  "bf_set b i val =
     (if num_bits b \<le> i then b
      else let byte_idx = i div 8; bit_offset = 7 - i mod 8;
               old = bf_bytes b ! byte_idx;
               new = (if val then old OR push_bit bit_offset 1 else old AND NOT (push_bit bit_offset 1))
           in b\<lparr>bf_bytes := (bf_bytes b)[byte_idx := new]\<rparr>)"

lemma unat_shift_less:
  assumes "b \<noteq> 0"
  shows "unat (drop_bit 1 (b :: 'a::len word)) < unat b"
proof -
  have "unat (drop_bit 1 b) = unat b div 2"
    by (subst unat_drop_bit_eq) (simp add: drop_bit_eq_div)
  moreover have "0 < unat b" using assms by (simp add: unat_gt_0)
  ultimately show ?thesis by simp
qed

text \<open>The inner loop of \<^verbatim>\<open>count\<close>.\<close>

function popcount :: "u32 \<Rightarrow> nat \<Rightarrow> nat" where
  "popcount b tot = (if b = 0 then tot else popcount (drop_bit 1 b) (tot + unat (b AND 1)))"
  by pat_completeness auto
termination
  by (relation "measure (\<lambda>(b, _). unat b)") (auto simp: unat_shift_less simp del: One_nat_def)

declare popcount.simps [simp del]

definition bf_count :: "Bitfield \<Rightarrow> nat" where
  "bf_count b = fold (\<lambda>byte tot. popcount (ucast byte) tot) (bf_bytes b) 0"

definition bf_and :: "Bitfield \<Rightarrow> Bitfield \<Rightarrow> Bitfield" where
  "bf_and a b =
     (let min_bits = min (num_bits a) (num_bits b); result = bitfield_empty min_bits
      in result\<lparr>bf_bytes := map (\<lambda>i. bf_bytes a ! i AND bf_bytes b ! i) [0..<length (bf_bytes result)]\<rparr>)"

section \<open>Abstraction\<close>

text \<open>The indices whose bit is set in a byte vector, most significant bit first.\<close>

definition bits_of :: "bytes \<Rightarrow> nat set" where
  "bits_of bs = {i. i < 8 * length bs \<and> bit (bs ! (i div 8)) (7 - i mod 8)}"

definition bf_inv :: "Bitfield \<Rightarrow> bool" where
  "bf_inv b \<longleftrightarrow> length (bf_bytes b) = (num_bits b + 7) div 8 \<and>
     (\<forall>i \<in> {num_bits b ..< 8 * length (bf_bytes b)}. \<not> bit (bf_bytes b ! (i div 8)) (7 - i mod 8))"

definition bf_elems :: "Bitfield \<Rightarrow> nat set" where
  "bf_elems b = bits_of (bf_bytes b)"

lemma bf_has_bit: "bf_has b i \<longleftrightarrow> i < num_bits b \<and> bit (bf_bytes b ! (i div 8)) (7 - i mod 8)"
  by (simp add: bf_has_def Let_def and_exp_eq_0_iff_not_bit)

lemma byte_index_less: "length bs = (n + 7) div 8 \<Longrightarrow> i < n \<Longrightarrow> i div 8 < length bs"
  by linarith

lemma bf_has_elems: "bf_inv b \<Longrightarrow> bf_has b i \<longleftrightarrow> i \<in> bf_elems b"
  by (fastforce simp: bf_has_bit bf_elems_def bits_of_def bf_inv_def not_less)

subsection \<open>Counting\<close>

lemma bits_popcount: "{k. bit (b::u32) k} = (if bit b 0 then {0} else {}) \<union> Suc ` {k. bit (drop_bit 1 b) k}"
proof (rule set_eqI)
  fix k show "k \<in> {k. bit b k} \<longleftrightarrow> k \<in> (if bit b 0 then {0} else {}) \<union> Suc ` {k. bit (drop_bit 1 b) k}"
    by (cases k) (auto simp: bit_drop_bit_eq)
qed

lemma finite_bits: "finite {k. bit (b :: 'a::len word) k}"
  by (rule finite_subset[of _ "{..<LENGTH('a)}"]) (auto dest: bit_imp_le_length)

lemma popcount_card: "popcount b tot = tot + card {k. bit b k}"
proof (induction b tot rule: popcount.induct)
  case (1 b tot)
  show ?case
  proof (cases "b = 0")
    case True
    then show ?thesis by (simp add: popcount.simps)
  next
    case False
    let ?S = "{k. bit (drop_bit 1 b) k}"
    have "card {k. bit b k} = of_bool (bit b 0) + card ?S"
      by (subst bits_popcount) (auto simp: card_image card_insert_if finite_bits)
    moreover have "unat (b AND 1) = of_bool (bit b 0)"
      by (simp add: and_one_eq bit_0 mod2_eq_if even_iff_mod_2_eq_zero[symmetric])
    ultimately show ?thesis using 1 False by (simp add: popcount.simps[of b])
  qed
qed

lemma bits_of_Cons: "bits_of (b # bs) = (\<lambda>k. 7 - k) ` {k. bit b k} \<union> (+) 8 ` bits_of bs"
proof (rule set_eqI)
  fix i
  have lt: "k < 8" if "bit b k" for k using bit_imp_le_length[OF that] by simp
  show "i \<in> bits_of (b # bs) \<longleftrightarrow> i \<in> (\<lambda>k. 7 - k) ` {k. bit b k} \<union> (+) 8 ` bits_of bs"
  proof (cases "i < 8")
    case True
    then have "i \<in> bits_of (b # bs) \<longleftrightarrow> bit b (7 - i)" by (simp add: bits_of_def)
    also have "\<dots> \<longleftrightarrow> i \<in> (\<lambda>k. 7 - k) ` {k. bit b k}"
      using True lt by (force simp: image_iff intro: bexI[of _ "7 - i"])
    finally show ?thesis using True by auto
  next
    case False
    then obtain j where j: "i = 8 + j" by (metis le_add_diff_inverse not_less)
    have "(8 + j) div 8 = Suc (j div 8)" by simp
    then show ?thesis using lt by (fastforce simp: j bits_of_def image_iff)
  qed
qed

lemma finite_bits_of: "finite (bits_of bs)"
  by (rule finite_subset[of _ "{..<8 * length bs}"]) (auto simp: bits_of_def)

lemma card_bits_of_Cons: "card (bits_of (b # bs)) = card {k. bit b k} + card (bits_of bs)"
proof -
  have lt: "k < 8" if "bit b k" for k using bit_imp_le_length[OF that] by simp
  have "inj_on (\<lambda>k. 7 - k) {k. bit b k}" by (auto simp: inj_on_def dest!: lt)
  moreover have "(\<lambda>k. 7 - k) ` {k. bit b k} \<inter> (+) 8 ` bits_of bs = {}" by auto
  ultimately show ?thesis
    by (simp add: bits_of_Cons card_Un_disjoint finite_bits finite_bits_of card_image)
qed

lemma fold_popcount: "fold (\<lambda>byte tot. popcount (ucast byte) tot) bs tot = tot + card (bits_of bs)"
proof (induction bs arbitrary: tot)
  case Nil
  then show ?case by (simp add: bits_of_def)
next
  case (Cons b bs)
  have "{k. bit (ucast b :: u32) k} = {k. bit b k}"
    by (auto simp: bit_simps dest: bit_imp_le_length)
  then show ?case
    using Cons[of "tot + card {k. bit b k}"]
    by (simp add: popcount_card[of "ucast b"] card_bits_of_Cons)
qed

subsection \<open>The operations\<close>

lemma bits_of_replicate: "bits_of (replicate n 0) = {}"
  by (auto simp: bits_of_def)

lemma bf_inv_empty: "bf_inv (bitfield_empty n)"
  by (auto simp: bf_inv_def bitfield_empty_def)

lemma bitfield_empty_simps [simp]:
  "num_bits (bitfield_empty n) = n" "bf_elems (bitfield_empty n) = {}"
  by (simp_all add: bitfield_empty_def bf_elems_def bits_of_replicate)

lemma same_bit_iff: "i div 8 = j div 8 \<and> 7 - i mod 8 = 7 - j mod 8 \<longleftrightarrow> i = (j :: nat)"
proof -
  have "i mod 8 < 8" "j mod 8 < 8" by simp_all
  moreover have "i = j" if "i div 8 = j div 8" "i mod 8 = j mod 8"
    using that by (metis div_mult_mod_eq)
  ultimately show ?thesis by auto
qed

lemma bit_set_byte:
  assumes "j div 8 < length bs"
  shows "bit (bs[i div 8 := bs ! (i div 8) OR push_bit (7 - i mod 8) 1] ! (j div 8)) (7 - j mod 8) \<longleftrightarrow>
    j = i \<or> bit (bs ! (j div 8)) (7 - j mod 8)"
    and "bit (bs[i div 8 := bs ! (i div 8) AND NOT (push_bit (7 - i mod 8) 1)] ! (j div 8)) (7 - j mod 8) \<longleftrightarrow>
    j \<noteq> i \<and> bit ((bs ! (j div 8)) :: byte) (7 - j mod 8)"
  using assms same_bit_iff[of i j] by (cases "i div 8 = j div 8"; force simp: bit_simps)+

lemma bf_set_bit:
  assumes "bf_inv b" "j < 8 * length (bf_bytes b)"
  shows "bit (bf_bytes (bf_set b i val) ! (j div 8)) (7 - j mod 8) \<longleftrightarrow>
    (if i < num_bits b \<and> j = i then val else bit (bf_bytes b ! (j div 8)) (7 - j mod 8))"
  using assms bit_set_byte[of j "bf_bytes b" i]
  by (auto simp: bf_set_def Let_def less_mult_imp_div_less mult.commute simp del: push_bit_of_1)

lemma bf_set_frame [simp]:
  "num_bits (bf_set b i val) = num_bits b" "length (bf_bytes (bf_set b i val)) = length (bf_bytes b)"
  by (simp_all add: bf_set_def Let_def)

lemma bf_inv_set: "bf_inv b \<Longrightarrow> bf_inv (bf_set b i val)"
  by (auto simp: bf_inv_def bf_set_bit[unfolded bf_inv_def])

lemma bf_elems_set:
  assumes "bf_inv b"
  shows "bf_elems (bf_set b i val) =
    (if num_bits b \<le> i then bf_elems b else if val then insert i (bf_elems b) else bf_elems b - {i})"
proof -
  have "i < 8 * length (bf_bytes b)" if "i < num_bits b" using assms that by (auto simp: bf_inv_def)
  then show ?thesis using assms by (auto simp: bf_elems_def bits_of_def bf_set_bit split: if_splits)
qed

interpretation bitset: index_set bf_inv num_bits bf_elems bitfield_empty bf_has
  "\<lambda>b i. bf_set b i True" bf_count
proof
  show "bf_elems b \<subseteq> {..<num_bits b}" if "bf_inv b" for b
    using bf_has_elems[OF that] by (auto simp: bf_has_bit)
  show "bf_count b = card (bf_elems b)" for b
    by (simp add: bf_count_def bf_elems_def fold_popcount)
qed (auto simp: bf_inv_empty bf_has_elems bf_inv_set bf_elems_set)

lemma nth_padded:
  "k < e \<Longrightarrow> bit ((take e bs @ replicate (e - length bs) (0::byte)) ! k) j \<longleftrightarrow> k < length bs \<and> bit (bs ! k) j"
  by (auto simp: nth_append min_def)

lemma length_padded [simp]: "length (take e bs @ replicate (e - length bs) x) = e"
  by (auto simp: min_def)

lemma div8_less_iff: "i div 8 < e \<longleftrightarrow> i < 8 * (e :: nat)"
  by (simp add: div_less_iff_less_mult mult.commute)

lemma bits_of_padded:
  "bits_of (take e bs @ replicate (e - length bs) 0) = bits_of bs \<inter> {..<8 * e}"
  unfolding bits_of_def length_padded by (auto simp: nth_padded div8_less_iff)

lemma less_padded: "i < n \<Longrightarrow> i < 8 * ((n + 7) div 8 :: nat)"
  by linarith

lemma padded_size: "(n + 7) div 8 = (if n mod 8 = 0 then n div 8 else Suc (n div 8))"
proof -
  have "n + 7 = 8 * (n div 8) + (n mod 8 + 7)" by simp
  then have "(n + 7) div 8 = n div 8 + (n mod 8 + 7) div 8"
    by (metis div_mult_self4 zero_neq_numeral)
  moreover have "(n mod 8 + 7) div 8 = (if n mod 8 = 0 then 0 else 1)"
  proof -
    have "r < 8 \<Longrightarrow> (r + 7) div 8 = (if r = 0 then 0 else 1)" for r :: nat by auto
    then show ?thesis by simp
  qed
  ultimately show ?thesis by simp
qed

lemma bit_padding_mask: "bit (push_bit m 0xFF :: byte) k \<longleftrightarrow> m \<le> k \<and> k < 8"
proof -
  have "(0xFF :: byte) = - 1" by simp
  then show ?thesis by (simp only: bit_push_bit_iff bit_minus_1_iff) auto
qed

text \<open>What the wire constructor leaves in the buffer: the received bytes, cut or padded to the
  expected size, with the padding bits cleared.\<close>

lemma bitfield_of_bytes_eq:
  defines "e n \<equiv> (n + 7) div 8"
  shows "bitfield_of_bytes bs n = \<lparr>num_bits = n, bf_bytes =
     (let buf = take (e n) bs @ replicate (e n - length bs) 0
      in if n mod 8 \<noteq> 0 then buf[n div 8 := buf ! (n div 8) AND push_bit (8 - n mod 8) 0xFF] else buf)\<rparr>"
proof -
  have buf: "write_at (replicate (e n) (0::byte)) 0 (take (min (length bs) (e n)) bs) =
      take (e n) bs @ replicate (e n - length bs) 0" (is "_ = ?buf")
    by (simp add: write_at_def min_def)
  have len: "length ?buf = e n" by (rule length_padded)
  show ?thesis
  proof (cases "n mod 8 = 0")
    case True
    then show ?thesis unfolding bitfield_of_bytes_def e_def[symmetric] Let_def buf by simp
  next
    case False
    then have e: "e n = Suc (n div 8)" by (simp add: e_def padded_size)
    then have "?buf \<noteq> []" using len by (metis list.size(3) nat.distinct(1))
    then have "last ?buf = ?buf ! (n div 8)" using len e by (simp add: last_conv_nth)
    then show ?thesis
      using False \<open>?buf \<noteq> []\<close> e len
      unfolding bitfield_of_bytes_def e_def[symmetric] Let_def buf by simp
  qed
qed

lemma bit_bitfield_of_bytes:
  assumes "i < 8 * ((n + 7) div 8)"
  shows "bit (bf_bytes (bitfield_of_bytes bs n) ! (i div 8)) (7 - i mod 8) \<longleftrightarrow>
    i \<in> bits_of bs \<and> i < n"
proof -
  define buf where "buf = take ((n + 7) div 8) bs @ replicate ((n + 7) div 8 - length bs) (0::byte)"
  have len: "length buf = (n + 7) div 8" unfolding buf_def by (rule length_padded)
  have idx: "i div 8 < length buf" using assms by (simp add: len div8_less_iff)
  have b: "bit (buf ! (i div 8)) (7 - i mod 8) \<longleftrightarrow> i \<in> bits_of bs"
    using bits_of_padded[of "(n + 7) div 8" bs] assms idx
    by (auto simp: buf_def[symmetric] bits_of_def[of buf] len)
  show ?thesis
  proof (cases "n mod 8 \<noteq> 0 \<and> i div 8 = n div 8")
    case True
    have "i < n \<longleftrightarrow> i mod 8 < n mod 8"
      using True by (metis add_less_cancel_left div_mult_mod_eq)
    then have "i < n \<longleftrightarrow> 8 - n mod 8 \<le> 7 - i mod 8 \<and> 7 - i mod 8 < 8" using True by auto
    then show ?thesis
      using True b idx
      by (auto simp: bitfield_of_bytes_eq buf_def[symmetric] Let_def bit_and_iff bit_padding_mask)
  next
    case False
    have "i div 8 < n div 8"
    proof (cases "n mod 8 = 0")
      case True
      then show ?thesis using assms by (simp add: padded_size div8_less_iff)
    next
      case nz: False
      have "i div 8 < Suc (n div 8)" using assms nz by (simp add: padded_size div8_less_iff)
      then show ?thesis using False nz by simp
    qed
    then have "i < n" by (metis div_le_mono not_less)
    then show ?thesis
      using False b idx
      by (auto simp: bitfield_of_bytes_eq buf_def[symmetric] Let_def nth_list_update)
  qed
qed

lemma bitfield_of_bytes_length:
  "length (bf_bytes (bitfield_of_bytes bs n)) = (n + 7) div 8" "num_bits (bitfield_of_bytes bs n) = n"
  unfolding bitfield_of_bytes_eq Let_def by (simp_all split: if_split add: min_def)

lemma bf_inv_of_bytes: "bf_inv (bitfield_of_bytes bs n)"
  by (simp add: bf_inv_def bitfield_of_bytes_length bit_bitfield_of_bytes)

lemma bf_elems_of_bytes: "bf_elems (bitfield_of_bytes bs n) = bits_of bs \<inter> {..<n}"
  by (auto simp: bf_elems_def bits_of_def[of "bf_bytes _"] bitfield_of_bytes_length bit_bitfield_of_bytes)

lemma bf_and_frame:
  "num_bits (bf_and a b) = min (num_bits a) (num_bits b)"
  "length (bf_bytes (bf_and a b)) = (min (num_bits a) (num_bits b) + 7) div 8"
  by (simp_all add: bf_and_def Let_def bitfield_empty_def)

lemma bit_bf_and:
  assumes "i < 8 * ((min (num_bits a) (num_bits b) + 7) div 8)"
  shows "bit (bf_bytes (bf_and a b) ! (i div 8)) k \<longleftrightarrow>
     bit (bf_bytes a ! (i div 8)) k \<and> bit (bf_bytes b ! (i div 8)) k"
  using assms by (auto simp: bf_and_def Let_def bitfield_empty_def bit_and_iff less_mult_imp_div_less mult.commute)

lemma bf_and_correct:
  assumes "bf_inv a" "bf_inv b"
  shows "bf_inv (bf_and a b)" "bf_elems (bf_and a b) = bf_elems a \<inter> bf_elems b"
proof -
  let ?m = "min (num_bits a) (num_bits b)"
  have le: "8 * ((?m + 7) div 8) \<le> 8 * length (bf_bytes a)" "8 * ((?m + 7) div 8) \<le> 8 * length (bf_bytes b)"
    using assms by (auto simp: bf_inv_def intro!: div_le_mono)
  show "bf_inv (bf_and a b)"
    unfolding bf_inv_def bf_and_frame
  proof (intro conjI refl ballI)
    fix i assume i: "i \<in> {?m ..< 8 * ((?m + 7) div 8)}"
    then have "i \<in> {num_bits a ..< 8 * length (bf_bytes a)} \<or> i \<in> {num_bits b ..< 8 * length (bf_bytes b)}"
      using le by (auto simp: min_le_iff_disj)
    then show "\<not> bit (bf_bytes (bf_and a b) ! (i div 8)) (7 - i mod 8)"
      using assms i unfolding bf_inv_def by (auto simp: bit_bf_and)
  qed
  have "i < 8 * ((?m + 7) div 8)" if "i \<in> bf_elems a" "i \<in> bf_elems b" for i
    using that bitset.elems_bound[OF assms(1)] bitset.elems_bound[OF assms(2)]
    by (intro less_padded) auto
  then show "bf_elems (bf_and a b) = bf_elems a \<inter> bf_elems b"
    using le by (auto simp: bf_elems_def bits_of_def bf_and_frame bit_bf_and)
qed

section \<open>Correctness\<close>

text \<open>\<^verbatim>\<open>set\<close> changes exactly the addressed bit, ignores an index out of range, and keeps the
  padding bits clean.\<close>

theorem bf_set_spec:
  assumes "bf_inv b"
  shows "bf_inv (bf_set b i val) \<and> num_bits (bf_set b i val) = num_bits b \<and>
    (\<forall>j. bf_has (bf_set b i val) j = (if j = i \<and> i < num_bits b then val else bf_has b j))"
  using assms bitset.elems_bound[OF assms]
  by (auto simp: bf_inv_set bf_has_elems bf_elems_set)

theorem bf_set_spec_witness:
  "bf_inv (bitfield_empty 10) \<and>
   (\<forall>j. bf_has (bf_set (bitfield_empty 10) 9 True) j = (if j = 9 \<and> 9 < (10::nat) then True else bf_has (bitfield_empty 10) j))"
proof -
  have h: "bf_inv (bitfield_empty 10)" by code_simp
  then show ?thesis using bf_set_spec[OF h, of 9 True] by (simp add: bitfield_empty_def)
qed

text \<open>\<^verbatim>\<open>count\<close> is the number of indices \<^verbatim>\<open>has\<close> answers true for; padding bits never count.\<close>

theorem bf_count_spec:
  assumes "bf_inv b"
  shows "bf_count b = card {i. bf_has b i}"
  using assms by (simp add: bitset.size_elems bf_has_elems)

text \<open>A bitfield built from wire bytes holds exactly the received bits below the piece count:
  missing bytes count as zero, surplus bytes and padding bits are dropped.\<close>

theorem bitfield_of_bytes_spec:
  "bf_inv (bitfield_of_bytes bs n) \<and> num_bits (bitfield_of_bytes bs n) = n \<and>
   (\<forall>i. bf_has (bitfield_of_bytes bs n) i =
      (i < n \<and> i < 8 * length bs \<and> bit (bs ! (i div 8)) (7 - i mod 8)))"
  by (auto simp: bf_inv_of_bytes bitfield_of_bytes_length bf_has_elems bf_elems_of_bytes bits_of_def)

text \<open>The bytes put on the wire are read back as the same bitfield.\<close>

theorem bitfield_wire_roundtrip:
  assumes "bf_inv b"
  shows "bitfield_of_bytes (bf_bytes b) (num_bits b) = b"
proof -
  let ?c = "bitfield_of_bytes (bf_bytes b) (num_bits b)"
  have len: "length (bf_bytes ?c) = length (bf_bytes b)"
    using assms by (simp add: bitfield_of_bytes_length bf_inv_def)
  have "bf_bytes ?c ! k = bf_bytes b ! k" if k: "k < length (bf_bytes b)" for k
  proof (rule bit_word_eqI)
    fix m assume "m < LENGTH(8)"
    define j where "j = 8 * k + (7 - m)"
    have j: "j div 8 = k" "7 - j mod 8 = m"
      using \<open>m < LENGTH(8)\<close> by (simp_all add: j_def del: diff_diff_left Nat.add_diff_assoc)
    have lt: "j < 8 * length (bf_bytes b)" using k by (simp add: j_def)
    then have "j < 8 * ((num_bits b + 7) div 8)" using assms by (simp add: bf_inv_def)
    from bit_bitfield_of_bytes[OF this, of "bf_bytes b"] lt assms
    show "bit (bf_bytes ?c ! k) m = bit (bf_bytes b ! k) m"
      unfolding bits_of_def bf_inv_def j[symmetric] by (auto simp: not_less)
  qed
  with len have "bf_bytes ?c = bf_bytes b" by (simp add: nth_equalityI)
  then show ?thesis by (simp add: bitfield_of_bytes_length)
qed

theorem bitfield_wire_roundtrip_witness:
  "bf_inv \<lparr>num_bits = 10, bf_bytes = [0xA0, 0x40]\<rparr> \<and>
   bitfield_of_bytes [0xA0, 0x40] 10 = \<lparr>num_bits = 10, bf_bytes = [0xA0, 0x40]\<rparr>"
proof -
  have h: "bf_inv \<lparr>num_bits = 10, bf_bytes = [0xA0, 0x40]\<rparr>" by code_simp
  then show ?thesis using bitfield_wire_roundtrip[OF h] by simp
qed

end
