(* ===== verification/Peer_Message.thy ===== *)
theory Peer_Message
  imports Prelude
begin

text \<open>
  The peer wire protocol (\<^verbatim>\<open>include/peer_message.hpp\<close>, \<^verbatim>\<open>src/peer_message.cpp\<close>): the 68-byte
  handshake and the length-prefixed messages.  Serialisation fills a zeroed vector by
  bounds-checked writes at the source's offsets; deserialisation makes the source's
  32-bit length arithmetic, wrap-around included, and every read of the input is bounds
  checked, so that undefined behaviour is an error of the model.
\<close>

section \<open>Messages\<close>

datatype MessageId =
    Choke | Unchoke | Interested | NotInterested | Have | BitfieldId | Request | Piece | Cancel | Port

fun message_id_byte :: "MessageId \<Rightarrow> byte" where
  "message_id_byte Choke = 0"
| "message_id_byte Unchoke = 1"
| "message_id_byte Interested = 2"
| "message_id_byte NotInterested = 3"
| "message_id_byte Have = 4"
| "message_id_byte BitfieldId = 5"
| "message_id_byte Request = 6"
| "message_id_byte Piece = 7"
| "message_id_byte Cancel = 8"
| "message_id_byte Port = 9"

datatype PeerMessage =
    KeepAliveMsg
  | ChokeMsg
  | UnchokeMsg
  | InterestedMsg
  | NotInterestedMsg
  | HaveMsg u32
  | BitfieldMsg bytes
  | RequestMsg u32 u32 u32
  | PieceMsg u32 u32 bytes
  | CancelMsg u32 u32 u32
  | PortMsg u16

record HandshakeMsg =
  reserved :: bytes
  hs_info_hash :: bytes
  hs_peer_id :: bytes

text \<open>The comparison operators of the alternatives; \<^verbatim>\<open>std::variant\<close> compares the alternatives in use first.\<close>

definition msg_eq :: "PeerMessage \<Rightarrow> PeerMessage \<Rightarrow> bool" where
  "msg_eq lhs rhs =
     (case lhs of
        KeepAliveMsg \<Rightarrow> (case rhs of KeepAliveMsg \<Rightarrow> True | _ \<Rightarrow> False)
      | ChokeMsg \<Rightarrow> (case rhs of ChokeMsg \<Rightarrow> True | _ \<Rightarrow> False)
      | UnchokeMsg \<Rightarrow> (case rhs of UnchokeMsg \<Rightarrow> True | _ \<Rightarrow> False)
      | InterestedMsg \<Rightarrow> (case rhs of InterestedMsg \<Rightarrow> True | _ \<Rightarrow> False)
      | NotInterestedMsg \<Rightarrow> (case rhs of NotInterestedMsg \<Rightarrow> True | _ \<Rightarrow> False)
      | HaveMsg i \<Rightarrow> (case rhs of HaveMsg j \<Rightarrow> i = j | _ \<Rightarrow> False)
      | BitfieldMsg f \<Rightarrow> (case rhs of BitfieldMsg g \<Rightarrow> f = g | _ \<Rightarrow> False)
      | RequestMsg i b l \<Rightarrow> (case rhs of RequestMsg j c k \<Rightarrow> i = j \<and> b = c \<and> l = k | _ \<Rightarrow> False)
      | PieceMsg i b d \<Rightarrow> (case rhs of PieceMsg j c e \<Rightarrow> i = j \<and> b = c \<and> d = e | _ \<Rightarrow> False)
      | CancelMsg i b l \<Rightarrow> (case rhs of CancelMsg j c k \<Rightarrow> i = j \<and> b = c \<and> l = k | _ \<Rightarrow> False)
      | PortMsg p \<Rightarrow> (case rhs of PortMsg q \<Rightarrow> p = q | _ \<Rightarrow> False))"

definition handshake_eq :: "HandshakeMsg \<Rightarrow> HandshakeMsg \<Rightarrow> bool" where
  "handshake_eq lhs rhs =
     (reserved lhs = reserved rhs \<and> hs_info_hash lhs = hs_info_hash rhs \<and> hs_peer_id lhs = hs_peer_id rhs)"

text \<open>They are the equality of the model, on which the theorems about round trips rest.\<close>

lemma msg_eq_iff: "msg_eq a b \<longleftrightarrow> a = b"
  by (simp add: msg_eq_def split: PeerMessage.split)

lemma handshake_eq_iff: "handshake_eq a b \<longleftrightarrow> a = b"
  by (cases a; cases b) (simp add: handshake_eq_def)

section \<open>Reading and writing integers\<close>

definition read_uint32_be :: "bytes \<Rightarrow> nat \<Rightarrow> mem_error + u32" where
  "read_uint32_be data off = bindE (read_span data off 4) (\<lambda>b. Inr (dec32 b))"

definition read_uint16_be :: "bytes \<Rightarrow> nat \<Rightarrow> mem_error + u16" where
  "read_uint16_be data off = bindE (read_span data off 2) (\<lambda>b. Inr (dec16 b))"

definition write_uint32_be :: "bytes \<Rightarrow> nat \<Rightarrow> u32 \<Rightarrow> mem_error + bytes" where
  "write_uint32_be out off v = write_span out off (enc32 v)"

definition write_uint16_be :: "bytes \<Rightarrow> nat \<Rightarrow> u16 \<Rightarrow> mem_error + bytes" where
  "write_uint16_be out off v = write_span out off (enc16 v)"

section \<open>Handshake\<close>

definition protocol_name :: bytes where
  "protocol_name = ascii ''BitTorrent protocol''"

definition handshake_serialize :: "HandshakeMsg \<Rightarrow> mem_error + bytes" where
  "handshake_serialize h =
     bindE (write_span (replicate 68 0) 0 [19]) (\<lambda>out.
     bindE (write_span out 1 protocol_name) (\<lambda>out.
     bindE (write_span out 20 (take 8 (reserved h))) (\<lambda>out.
     bindE (write_span out 28 (take 20 (hs_info_hash h))) (\<lambda>out.
     write_span out 48 (take 20 (hs_peer_id h))))))"

definition handshake_deserialize :: "bytes \<Rightarrow> HandshakeMsg option" where
  "handshake_deserialize data =
     (if length data < 68 then None
      else if data ! 0 \<noteq> 19 then None
      else if take 19 (drop 1 data) \<noteq> protocol_name then None
      else Some \<lparr>reserved = take 8 (drop 20 data), hs_info_hash = take 20 (drop 28 data),
                 hs_peer_id = take 20 (drop 48 data)\<rparr>)"

text \<open>The three fields are \<^verbatim>\<open>std::array\<close>s, so their sizes are fixed by their types.\<close>

definition handshake_wf :: "HandshakeMsg \<Rightarrow> bool" where
  "handshake_wf h \<longleftrightarrow> length (reserved h) = 8 \<and> length (hs_info_hash h) = 20 \<and> length (hs_peer_id h) = 20"

section \<open>Serialisation\<close>

text \<open>A message that is its identifier only.\<close>

definition serialize_bare :: "MessageId \<Rightarrow> mem_error + bytes" where
  "serialize_bare mid =
     bindE (write_uint32_be (replicate 5 0) 0 1) (\<lambda>out. write_span out 4 [message_id_byte mid])"

text \<open>\<^verbatim>\<open>Request\<close> and \<^verbatim>\<open>Cancel\<close> share their layout.\<close>

definition serialize_block_ref :: "MessageId \<Rightarrow> u32 \<Rightarrow> u32 \<Rightarrow> u32 \<Rightarrow> mem_error + bytes" where
  "serialize_block_ref mid index bgn len =
     bindE (write_uint32_be (replicate 17 0) 0 13) (\<lambda>out.
     bindE (write_span out 4 [message_id_byte mid]) (\<lambda>out.
     bindE (write_uint32_be out 5 index) (\<lambda>out.
     bindE (write_uint32_be out 9 bgn) (\<lambda>out.
     write_uint32_be out 13 len))))"

fun serialize :: "PeerMessage \<Rightarrow> mem_error + bytes" where
  "serialize KeepAliveMsg = Inr (replicate 4 0)"
| "serialize ChokeMsg = serialize_bare Choke"
| "serialize UnchokeMsg = serialize_bare Unchoke"
| "serialize InterestedMsg = serialize_bare Interested"
| "serialize NotInterestedMsg = serialize_bare NotInterested"
| "serialize (HaveMsg idx) =
     bindE (write_uint32_be (replicate 9 0) 0 5) (\<lambda>out.
     bindE (write_span out 4 [message_id_byte Have]) (\<lambda>out.
     write_uint32_be out 5 idx))"
| "serialize (BitfieldMsg field) =
     (let len = 1 + of_nat (length field) :: u32 in
      bindE (write_uint32_be (replicate (unat (4 + len)) 0) 0 len) (\<lambda>out.
      bindE (write_span out 4 [message_id_byte BitfieldId]) (\<lambda>out.
      write_span out 5 field)))"
| "serialize (RequestMsg index bgn len) = serialize_block_ref Request index bgn len"
| "serialize (PieceMsg index bgn block) =
     (let len = 9 + of_nat (length block) :: u32 in
      bindE (write_uint32_be (replicate (unat (4 + len)) 0) 0 len) (\<lambda>out.
      bindE (write_span out 4 [message_id_byte Piece]) (\<lambda>out.
      bindE (write_uint32_be out 5 index) (\<lambda>out.
      bindE (write_uint32_be out 9 bgn) (\<lambda>out.
      write_span out 13 block)))))"
| "serialize (CancelMsg index bgn len) = serialize_block_ref Cancel index bgn len"
| "serialize (PortMsg p) =
     bindE (write_uint32_be (replicate 7 0) 0 3) (\<lambda>out.
     bindE (write_span out 4 [message_id_byte Port]) (\<lambda>out.
     write_uint16_be out 5 p))"

section \<open>Deserialisation\<close>

text \<open>The message body after the length prefix and the completeness check.\<close>

definition deserialize_body :: "bytes \<Rightarrow> u32 \<Rightarrow> byte \<Rightarrow> mem_error + PeerMessage option" where
  "deserialize_body data len mid =
     (if mid = message_id_byte Choke then Inr (if len \<noteq> 1 then None else Some ChokeMsg)
      else if mid = message_id_byte Unchoke then Inr (if len \<noteq> 1 then None else Some UnchokeMsg)
      else if mid = message_id_byte Interested then Inr (if len \<noteq> 1 then None else Some InterestedMsg)
      else if mid = message_id_byte NotInterested then Inr (if len \<noteq> 1 then None else Some NotInterestedMsg)
      else if mid = message_id_byte Have then
        (if len \<noteq> 5 then Inr None
         else bindE (read_uint32_be data 5) (\<lambda>idx. Inr (Some (HaveMsg idx))))
      else if mid = message_id_byte BitfieldId then
        bindE (read_span data 5 (unat (len - 1))) (\<lambda>field. Inr (Some (BitfieldMsg field)))
      else if mid = message_id_byte Request then
        (if len \<noteq> 13 then Inr None
         else bindE (read_uint32_be data 5) (\<lambda>index.
              bindE (read_uint32_be data 9) (\<lambda>bgn.
              bindE (read_uint32_be data 13) (\<lambda>l. Inr (Some (RequestMsg index bgn l))))))
      else if mid = message_id_byte Piece then
        (if len < 9 then Inr None
         else bindE (read_uint32_be data 5) (\<lambda>index.
              bindE (read_uint32_be data 9) (\<lambda>bgn.
              bindE (read_span data 13 (unat (len - 9))) (\<lambda>block. Inr (Some (PieceMsg index bgn block))))))
      else if mid = message_id_byte Cancel then
        (if len \<noteq> 13 then Inr None
         else bindE (read_uint32_be data 5) (\<lambda>index.
              bindE (read_uint32_be data 9) (\<lambda>bgn.
              bindE (read_uint32_be data 13) (\<lambda>l. Inr (Some (CancelMsg index bgn l))))))
      else if mid = message_id_byte Port then
        (if len \<noteq> 3 then Inr None
         else bindE (read_uint16_be data 5) (\<lambda>p. Inr (Some (PortMsg p))))
      else Inr None)"

text \<open>The result and the number of bytes consumed (the \<^verbatim>\<open>consumed\<close> out-parameter).\<close>

definition deserialize :: "bytes \<Rightarrow> mem_error + PeerMessage option \<times> nat" where
  "deserialize data =
     (if length data < 4 then Inr (None, 0)
      else bindE (read_uint32_be data 0) (\<lambda>len.
        if len = 0 then Inr (Some KeepAliveMsg, 4)
        else if length data < unat (4 + len) then Inr (None, 0)
        else let consumed = unat (4 + len) in
          bindE (read_at data 4) (\<lambda>mid.
          bindE (deserialize_body data len mid) (\<lambda>msg. Inr (msg, consumed)))))"

section \<open>Layout of serialised messages\<close>

lemma length_encs [simp]: "length (enc32 v) = 4" "length (enc16 w) = 2" "length (enc64 x) = 8"
  by (simp_all add: be32.length_enc be16.length_enc be64.length_enc)

text \<open>Payloads for which the 32-bit length arithmetic does not wrap.\<close>

fun msg_fits :: "PeerMessage \<Rightarrow> bool" where
  "msg_fits (BitfieldMsg field) \<longleftrightarrow> length field + 5 < 2 ^ 32"
| "msg_fits (PieceMsg _ _ block) \<longleftrightarrow> length block + 13 < 2 ^ 32"
| "msg_fits _ \<longleftrightarrow> True"

fun wire :: "PeerMessage \<Rightarrow> bytes" where
  "wire KeepAliveMsg = enc32 0"
| "wire ChokeMsg = enc32 1 @ [0]"
| "wire UnchokeMsg = enc32 1 @ [1]"
| "wire InterestedMsg = enc32 1 @ [2]"
| "wire NotInterestedMsg = enc32 1 @ [3]"
| "wire (HaveMsg idx) = enc32 5 @ [4] @ enc32 idx"
| "wire (BitfieldMsg field) = enc32 (1 + of_nat (length field)) @ [5] @ field"
| "wire (RequestMsg i b l) = enc32 13 @ [6] @ enc32 i @ enc32 b @ enc32 l"
| "wire (PieceMsg i b block) = enc32 (9 + of_nat (length block)) @ [7] @ enc32 i @ enc32 b @ block"
| "wire (CancelMsg i b l) = enc32 13 @ [8] @ enc32 i @ enc32 b @ enc32 l"
| "wire (PortMsg p) = enc32 3 @ [9] @ enc16 p"

lemma write_span_append:
  "length xs \<le> off \<Longrightarrow>
   write_span (xs @ ys) off src = bindE (write_span ys (off - length xs) src) (\<lambda>r. Inr (xs @ r))"
  by (auto simp: write_span_def write_at_def)

lemma write_span_Cons:
  "0 < off \<Longrightarrow> write_span (x # ys) off src = bindE (write_span ys (off - 1) src) (\<lambda>r. Inr (x # r))"
  using write_span_append[of "[x]" off ys src] by simp

lemma write_span_replicate:
  "length src \<le> m \<Longrightarrow> write_span (replicate m (0::byte)) 0 src = Inr (src @ replicate (m - length src) 0)"
  by (simp add: write_span_def write_at_def)

lemma write_span_one: "write_span (x # ys) 0 [b] = Inr (b # ys)"
  by (simp add: write_span_def write_at_def)

lemmas write_layout = write_span_one write_span_append write_span_Cons write_span_replicate
  write_uint32_be_def write_uint16_be_def

lemma unat_len:
  "n + k < 2 ^ 32 \<Longrightarrow> unat (of_nat k + of_nat n :: u32) = k + n"
  by (simp add: unat_of_nat flip: of_nat_add)

lemma bitfield_len:
  assumes "n + 5 < 2 ^ 32"
  shows "unat (1 + of_nat n :: u32) = n + 1" "unat (4 + (1 + of_nat n) :: u32) = n + 5"
    "unat (of_nat n :: u32) = n" "1 + of_nat n \<noteq> (0 :: u32)"
proof -
  show u: "unat (1 + of_nat n :: u32) = n + 1" "unat (4 + (1 + of_nat n) :: u32) = n + 5"
    "unat (of_nat n :: u32) = n"
    using assms unat_len[of n 0] unat_len[of n 1] unat_len[of n 5] by (simp_all add: add.assoc[symmetric])
  show "1 + of_nat n \<noteq> (0 :: u32)" using u(1) by (metis Suc_eq_plus1 nat.distinct(1) unat_0)
qed

lemma piece_len:
  assumes "n + 13 < 2 ^ 32"
  shows "unat (9 + of_nat n :: u32) = n + 9" "unat (4 + (9 + of_nat n) :: u32) = n + 13"
    "unat (of_nat n :: u32) = n" "9 + of_nat n \<noteq> (0 :: u32)" "\<not> 9 + of_nat n < (9 :: u32)"
proof -
  show u: "unat (9 + of_nat n :: u32) = n + 9" "unat (4 + (9 + of_nat n) :: u32) = n + 13"
    "unat (of_nat n :: u32) = n"
    using assms unat_len[of n 0] unat_len[of n 9] unat_len[of n 13] by (simp_all add: add.assoc[symmetric])
  show "9 + of_nat n \<noteq> (0 :: u32)" using u(1) by (metis add_is_0 unat_0 zero_neq_numeral)
  show "\<not> 9 + of_nat n < (9 :: u32)" by (simp add: word_less_nat_alt u(1))
qed

lemma serialize_wire: "msg_fits m \<Longrightarrow> serialize m = Inr (wire m)"
proof (cases m)
  case KeepAliveMsg
  then show ?thesis by (simp add: enc32_def wire_simps) (simp add: numeral_eq_Suc)
next
  case (BitfieldMsg field)
  assume "msg_fits m"
  then show ?thesis using bitfield_len[of "length field"]
    by (simp add: BitfieldMsg Let_def write_layout)
next
  case (PieceMsg i b block)
  assume "msg_fits m"
  then show ?thesis using piece_len[of "length block"]
    by (simp add: PieceMsg Let_def write_layout)
qed (simp_all add: serialize_bare_def serialize_block_ref_def write_layout)

lemma handshake_wire:
  "handshake_wf h \<Longrightarrow>
   handshake_serialize h = Inr (19 # protocol_name @ reserved h @ hs_info_hash h @ hs_peer_id h)"
  by (simp add: handshake_serialize_def handshake_wf_def protocol_name_def write_layout)

section \<open>Deserialisation inverts serialisation\<close>

text \<open>The length prefix of the message at the front of the buffer.\<close>

definition frame_len :: "bytes \<Rightarrow> u32" where
  "frame_len data = dec32 (take 4 data)"

text \<open>The frames for which \<^verbatim>\<open>4 + length\<close> does not wrap.\<close>

definition frame_ok :: "bytes \<Rightarrow> bool" where
  "frame_ok data \<longleftrightarrow> length data < 4 \<or> unat (frame_len data) + 4 < 2 ^ 32"

lemma frame_len_enc [simp]: "frame_len (enc32 v @ xs) = v"
  by (simp add: frame_len_def be32.dec_enc)

lemma unat_frame: "unat len + 4 < 2 ^ 32 \<Longrightarrow> unat (4 + len :: u32) = unat len + 4"
  using unat_len[of "unat len" 4] by simp

lemma deserialize_unfold:
  "deserialize data =
     (if length data < 4 then Inr (None, 0)
      else if frame_len data = 0 then Inr (Some KeepAliveMsg, 4)
      else if length data < unat (4 + frame_len data) then Inr (None, 0)
      else bindE (read_at data 4) (\<lambda>mid.
           bindE (deserialize_body data (frame_len data) mid) (\<lambda>msg. Inr (msg, unat (4 + frame_len data)))))"
  by (simp add: deserialize_def read_uint32_be_def read_span_def frame_len_def)

lemma read_span_append_skip:
  "length xs \<le> off \<Longrightarrow> read_span (xs @ ys) off n = read_span ys (off - length xs) n"
  by (auto simp: read_span_def)

lemma read_span_Cons_skip: "0 < off \<Longrightarrow> read_span (x # ys) off n = read_span ys (off - 1) n"
  using read_span_append_skip[of "[x]" off ys n] by simp

lemma read_span_here: "n = length ys \<Longrightarrow> read_span (ys @ zs) 0 n = Inr ys"
  by (simp add: read_span_def)

lemmas read_layout = read_span_append_skip read_span_Cons_skip read_span_here
  read_uint32_be_def read_uint16_be_def be32.dec_enc be16.dec_enc

lemma deserialize_wire:
  "msg_fits m \<Longrightarrow> deserialize (wire m @ rest) = Inr (Some m, length (wire m))"
proof (cases m)
  case (BitfieldMsg field)
  assume "msg_fits m"
  then show ?thesis using bitfield_len[of "length field"]
    by (simp add: BitfieldMsg deserialize_unfold read_at_def nth_append deserialize_body_def read_layout)
next
  case (PieceMsg i b block)
  assume "msg_fits m"
  then show ?thesis using piece_len[of "length block"]
    by (simp add: PieceMsg deserialize_unfold read_at_def nth_append deserialize_body_def read_layout)
qed (simp_all add: deserialize_unfold read_at_def nth_append deserialize_body_def read_layout)

section \<open>Only serialised messages are accepted\<close>

lemma take_fields:
  "take 8 d = take 4 d @ take 4 (drop 4 d)"
  "take 12 d = take 4 d @ take 4 (drop 4 d) @ take 4 (drop 8 d)"
  "take (8 + n) d = take 4 d @ take 4 (drop 4 d) @ take n (drop 8 d)"
  using take_add[of 4 4 d] take_add[of 4 8 d] take_add[of 4 4 "drop 4 d"]
    take_add[of 4 "4 + n" d] take_add[of 4 n "drop 4 d"]
  by simp_all

lemma enc_read:
  assumes "read_span d off 4 = Inr b"
  shows "enc32 (dec32 b) = take 4 (drop off d)"
  using be32.read_field_sound(1)[of d off "dec32 b"] assms by simp

lemma enc_read16:
  assumes "read_span d off 2 = Inr b"
  shows "enc16 (dec16 b) = take 2 (drop off d)"
  using be16.read_field_sound(1)[of d off "dec16 b"] assms by simp

lemma unat_minus: "k \<le> unat len \<Longrightarrow> k < 2 ^ 32 \<Longrightarrow> unat (len - of_nat k :: u32) = unat len - k"
  by (simp add: unat_sub word_le_nat_alt unat_of_nat)

lemma body_sound:
  assumes body: "deserialize_body (h @ mid # d) len mid = Inr (Some m)"
    and h: "length h = 4" and len: "len \<noteq> 0" "unat len + 4 < 2 ^ 32" "unat len - 1 \<le> length d"
  shows "msg_fits m \<and> wire m = enc32 len @ mid # take (unat len - 1) d"
proof -
  have pos: "1 \<le> unat len"
    using len(1) by (simp add: Suc_le_eq unat_gt_0)
  have m1: "unat (len - 1) = unat len - 1" using unat_minus[of 1 len] pos by simp
  have m9: "unat (len - 9) = unat len - 9" if "\<not> len < 9"
    using unat_minus[of 9 len] that by (simp add: word_less_nat_alt)
  have restore: "of_nat (unat len - k) + of_nat k = len" if "k \<le> unat len" for k
    using that by (simp flip: of_nat_add)
  note reads = bindE_Inr_iff read_uint32_be_def read_uint16_be_def read_span_append_skip
    read_span_Cons_skip h
  consider "mid = 0" | "mid = 1" | "mid = 2" | "mid = 3" | "mid = 4" | "mid = 5" | "mid = 6" | "mid = 7"
    | "mid = 8" | "mid = 9"
    using body by (auto simp: deserialize_body_def split: if_splits)
  then show ?thesis
  proof cases
    case 5
    with body show ?thesis
      by (auto simp: deserialize_body_def reads dest!: enc_read split: if_splits)
  next
    case 6
    with body have "m = BitfieldMsg (take (unat len - 1) d)"
      by (auto simp: deserialize_body_def reads read_span_def m1 split: if_splits)
    then show ?thesis using 6 len restore[OF pos] by (simp add: add.commute)
  next
    case 7
    with body show ?thesis
      by (auto simp: deserialize_body_def reads take_fields dest!: enc_read split: if_splits)
  next
    case 8
    with body have l9: "\<not> len < 9" by (auto simp: deserialize_body_def split: if_splits)
    then have ge: "9 \<le> unat len" by (simp add: word_less_nat_alt)
    from 8 l9 body obtain b1 b2 where r: "read_span d 0 4 = Inr b1" "read_span d 4 4 = Inr b2"
      and m: "m = PieceMsg (dec32 b1) (dec32 b2) (take (unat len - 9) (drop 8 d))"
      by (auto simp: deserialize_body_def reads m9 read_span_def split: if_splits)
    have "unat len - 1 = 8 + (unat len - 9)" using ge by simp
    then have "take (unat len - 1) d = take 4 d @ take 4 (drop 4 d) @ take (unat len - 9) (drop 8 d)"
      by (simp only: take_fields(3))
    moreover have "length (take (unat len - 9) (drop 8 d)) = unat len - 9" using ge len by simp
    ultimately show ?thesis
      using 8 len ge restore[OF ge] enc_read[OF r(1)] enc_read[OF r(2)] by (simp add: m add.commute)
  next
    case 9
    with body show ?thesis
      by (auto simp: deserialize_body_def reads take_fields dest!: enc_read split: if_splits)
  next
    case 10
    with body show ?thesis
      by (auto simp: deserialize_body_def reads dest!: enc_read16 split: if_splits)
  qed (use body in \<open>auto simp: deserialize_body_def split: if_splits\<close>)
qed

lemma frame_split:
  assumes "5 \<le> length data"
  shows "data = enc32 (frame_len data) @ data ! 4 # drop 5 data"
proof -
  have "enc32 (frame_len data) = take 4 data"
    using assms by (simp add: frame_len_def be32.enc_dec)
  moreover have "drop 4 data = data ! 4 # drop 5 data"
    using assms by (metis Cons_nth_drop_Suc Suc_le_eq add_2_eq_Suc eval_nat_numeral(3) numeral_plus_numeral semiring_norm(2) semiring_norm(8))
  ultimately show ?thesis by (metis append_take_drop_id)
qed

lemma deserialize_sound:
  assumes "frame_ok data" "deserialize data = Inr (Some m, c)"
  shows "msg_fits m \<and> (\<exists>rest. data = wire m @ rest) \<and> c = length (wire m)"
proof (cases "frame_len data = 0")
  case True
  then have "m = KeepAliveMsg" "c = 4" "4 \<le> length data"
    using assms by (auto simp: deserialize_unfold split: if_splits)
  moreover from this have "enc32 0 = take 4 data"
    using True be32.enc_dec[of "take 4 data"] by (simp add: frame_len_def)
  ultimately show ?thesis by auto (metis append_take_drop_id)
next
  case False
  let ?len = "frame_len data" and ?d = "drop 5 data"
  have l4: "4 \<le> length data" using assms(2) by (auto simp: deserialize_unfold split: if_splits)
  then have ok: "unat ?len + 4 < 2 ^ 32" using assms(1) by (simp add: frame_ok_def)
  note sz = unat_frame[OF ok]
  have pos: "0 < unat ?len" using False by (simp add: unat_gt_0)
  have full: "unat ?len + 4 \<le> length data" "c = unat ?len + 4"
    and body: "deserialize_body data ?len (data ! 4) = Inr (Some m)"
    using assms(2) False l4 pos
    by (auto simp: deserialize_unfold sz read_at_def bindE_Inr_iff split: if_splits)
  then have eq: "data = enc32 ?len @ data ! 4 # ?d" using pos by (intro frame_split) simp
  have b: "msg_fits m \<and> wire m = enc32 ?len @ data ! 4 # take (unat ?len - 1) ?d"
    using body_sound[of "enc32 ?len" "data ! 4" ?d ?len m] body eq False ok full by simp
  then have "data = wire m @ drop (unat ?len - 1) ?d"
    using eq by (metis append.assoc append_Cons append_take_drop_id)
  then show ?thesis using b full pos by auto
qed

section \<open>Memory safety\<close>

lemma read_span_ok: "off + n \<le> length xs \<Longrightarrow> \<exists>b. read_span xs off n = Inr b"
  by (simp add: read_span_def)

lemma body_safe:
  assumes "unat len + 4 \<le> length data" "len \<noteq> 0" "unat len + 4 < 2 ^ 32"
  shows "\<exists>r. deserialize_body data len mid = Inr r"
proof -
  have pos: "1 \<le> unat len" using assms(2) by (simp add: Suc_le_eq unat_gt_0)
  have m1: "unat (len - 1) = unat len - 1" using unat_minus[of 1 len] pos by simp
  have m9: "9 \<le> unat len \<and> unat (len - 9) = unat len - 9" if "\<not> len < 9"
    using unat_minus[of 9 len] that by (simp add: word_less_nat_alt)
  show ?thesis
    using assms(1) pos m1 m9
    by (auto simp: deserialize_body_def read_uint32_be_def read_uint16_be_def read_span_def)
qed

lemma deserialize_cases:
  assumes "frame_ok data"
  obtains "length data < 4" "deserialize data = Inr (None, 0)"
  | "4 \<le> length data" "frame_len data = 0" "deserialize data = Inr (Some KeepAliveMsg, 4)"
  | "4 \<le> length data" "length data < unat (frame_len data) + 4" "deserialize data = Inr (None, 0)"
  | r where "frame_len data \<noteq> 0" "unat (frame_len data) + 4 \<le> length data"
      "deserialize data = Inr (r, unat (frame_len data) + 4)"
proof -
  let ?len = "frame_len data"
  consider "length data < 4" | "4 \<le> length data" "?len = 0"
    | "4 \<le> length data" "?len \<noteq> 0" "length data < unat ?len + 4"
    | "4 \<le> length data" "?len \<noteq> 0" "unat ?len + 4 \<le> length data" by linarith
  then show thesis
  proof cases
    case 4
    then have ok: "unat ?len + 4 < 2 ^ 32" using assms by (simp add: frame_ok_def)
    have "0 < unat ?len" using 4(2) by (simp add: unat_gt_0)
    moreover obtain r where "deserialize_body data ?len (data ! 4) = Inr r"
      using body_safe[OF 4(3,2) ok] by blast
    ultimately show ?thesis
      using 4 that(4)[of r] by (simp add: deserialize_unfold unat_frame[OF ok] read_at_def)
  qed (use assms that in \<open>auto simp: deserialize_unfold frame_ok_def unat_frame\<close>)
qed

section \<open>Correctness\<close>

text \<open>C11: a frame whose length prefix does not wrap is decoded to a message if and only if the
  input starts with the serialisation of that message, and exactly the serialised bytes
  are consumed: decoding inverts encoding, whatever follows in the stream.\<close>

theorem deserialize_iff_serialize:
  assumes "frame_ok data"
  shows "deserialize data = Inr (Some m, c) \<longleftrightarrow>
    (msg_fits m \<and> (\<exists>bs rest. serialize m = Inr bs \<and> data = bs @ rest \<and> c = length bs))"
  using deserialize_sound[OF assms, of m c] deserialize_wire serialize_wire by fastforce

theorem deserialize_iff_serialize_witness:
  "frame_ok [0, 0, 0, 5, 4, 0, 0, 1, 2, 99] \<and>
   (deserialize [0, 0, 0, 5, 4, 0, 0, 1, 2, 99] = Inr (Some (HaveMsg 258), 9) \<longleftrightarrow>
    (msg_fits (HaveMsg 258) \<and> (\<exists>bs rest. serialize (HaveMsg 258) = Inr bs \<and>
       [0, 0, 0, 5, 4, 0, 0, 1, 2, 99] = bs @ rest \<and> 9 = length bs)))"
proof -
  have h: "frame_ok [0, 0, 0, 5, 4, 0, 0, 1, 2, 99]"
    by (simp add: frame_ok_def frame_len_def dec32_def be_value_def)
  then show ?thesis using deserialize_iff_serialize[OF h, of "HaveMsg 258" 9] by blast
qed





text \<open>C29: the handshake decoder accepts exactly the inputs that start with a serialised handshake
  (the protocol name and three fields of 8, 20 and 20 bytes), and returns those fields.\<close>

theorem handshake_iff:
  "handshake_deserialize data = Some h \<longleftrightarrow>
     (handshake_wf h \<and> (\<exists>bs rest. handshake_serialize h = Inr bs \<and> data = bs @ rest))"
proof
  assume r: "handshake_deserialize data = Some h"
  then have len: "68 \<le> length data" and d0: "data ! 0 = 19" and pn: "take 19 (drop 1 data) = protocol_name"
    and h: "h = \<lparr>reserved = take 8 (drop 20 data), hs_info_hash = take 20 (drop 28 data),
                 hs_peer_id = take 20 (drop 48 data)\<rparr>"
    by (auto simp: handshake_deserialize_def split: if_splits)
  then have wf: "handshake_wf h" by (simp add: handshake_wf_def)
  have "take 1 data = [19]" using len d0 by (cases data) auto
  then have "take 68 data = 19 # protocol_name @ reserved h @ hs_info_hash h @ hs_peer_id h"
    using take_add[of 1 67 data] take_add[of 19 48 "drop 1 data"] take_add[of 8 40 "drop 20 data"]
      take_add[of 20 20 "drop 28 data"]
    by (simp add: pn[unfolded One_nat_def] h)
  then show "handshake_wf h \<and> (\<exists>bs rest. handshake_serialize h = Inr bs \<and> data = bs @ rest)"
    using wf handshake_wire[OF wf] by (metis append_take_drop_id)
next
  assume "handshake_wf h \<and> (\<exists>bs rest. handshake_serialize h = Inr bs \<and> data = bs @ rest)"
  then obtain rest where wf: "handshake_wf h"
    and "data = 19 # protocol_name @ reserved h @ hs_info_hash h @ hs_peer_id h @ rest"
    using handshake_wire by fastforce
  then show "handshake_deserialize data = Some h"
    by (simp add: handshake_deserialize_def handshake_wf_def protocol_name_def)
qed

end
