(* ===== verification/Torrent.thy ===== *)
theory Torrent
  imports Bencode
begin

text \<open>
  Torrent metadata (\<^verbatim>\<open>include/torrent.hpp\<close>, \<^verbatim>\<open>src/torrent.cpp\<close>).  \<^verbatim>\<open>from_bencode\<close> walks the root
  dictionary by hand, so that it can hash the raw bytes of the \<^verbatim>\<open>info\<close> value, and then
  extracts the piece hashes and the file layout.  SHA-1 comes from Crypto++ and is a
  parameter.  Signed 64-bit overflow and division by zero are undefined behaviour and
  appear as errors of the model.
\<close>

section \<open>Metadata\<close>

record FileInfo =
  fi_path :: bytes
  fi_length :: int
  fi_offset :: int

record TorrentMetadata =
  md_name :: bytes
  announce_url :: bytes
  announce_list :: "bytes list"
  piece_length :: int
  total_length :: int
  num_pieces :: int
  piece_hashes :: "bytes list"
  md_files :: "FileInfo list"
  info_hash :: bytes

datatype torrent_error =
    RootNotDictionary | TBencode bencode_error | DuplicateRootKey | RootKeysNotSorted
  | AnnounceNotString | ExpectedERoot | ExtraDataRoot | MissingAnnounce | InvalidInfo
  | InvalidPieceLength | InvalidName | InvalidPieces | PiecesNotMultiple
  | FilesNotList | FileNotDictionary | InvalidFileLength | InvalidFilePath | PathSegmentNotString
  | InvalidLength | PieceCountMismatch
  | DivisionByZero | SignedOverflow

section \<open>Arithmetic of \<^verbatim>\<open>int64_t\<close> and casts\<close>

definition int64 :: "int \<Rightarrow> torrent_error + int" where
  "int64 i = (if - INT64_MAX - 1 \<le> i \<and> i \<le> INT64_MAX then Inr i else Inl SignedOverflow)"

text \<open>C++ division truncates towards zero.\<close>

definition div64 :: "int \<Rightarrow> int \<Rightarrow> torrent_error + int" where
  "div64 a b = (if b = 0 then Inl DivisionByZero else int64 (sgn a * sgn b * (\<bar>a\<bar> div \<bar>b\<bar>)))"

definition cast_int32 :: "nat \<Rightarrow> int" where
  "cast_int32 n = (int n + 2 ^ 31) mod 2 ^ 32 - 2 ^ 31"

section \<open>The root dictionary\<close>

record root_state =
  rs_announce :: bytes
  rs_announce_list :: "bytes list"
  rs_info :: BencodeValue
  rs_info_span :: bytes

definition root_init :: root_state where
  "root_init = \<lparr>rs_announce = [], rs_announce_list = [], rs_info = BInt 0, rs_info_span = []\<rparr>"

definition collect_trackers :: "BencodeValue \<Rightarrow> bytes list" where
  "collect_trackers val =
     (case val of
        BList tiers \<Rightarrow>
          concat (map (\<lambda>tier.
            case tier of
              BList trackers \<Rightarrow>
                concat (map (\<lambda>tracker.
                  case tracker of BString s \<Rightarrow> if s \<noteq> [] then [s] else [] | _ \<Rightarrow> []) trackers)
            | _ \<Rightarrow> []) tiers)
      | _ \<Rightarrow> [])"

text \<open>One entry of the root dictionary; \<open>raw\<close> is the span of input the value was parsed from.\<close>

definition root_entry :: "bytes \<Rightarrow> BencodeValue \<Rightarrow> bytes \<Rightarrow> root_state \<Rightarrow> torrent_error + root_state" where
  "root_entry key val raw st =
     (if key = ascii ''announce'' then
        (case val of BString s \<Rightarrow> Inr (st\<lparr>rs_announce := s\<rparr>) | _ \<Rightarrow> Inl AnnounceNotString)
      else if key = ascii ''announce-list'' then
        Inr (st\<lparr>rs_announce_list := rs_announce_list st @ collect_trackers val\<rparr>)
      else if key = ascii ''info'' then Inr (st\<lparr>rs_info := val, rs_info_span := raw\<rparr>)
      else Inr st)"

definition check_root_key :: "bytes option \<Rightarrow> bytes \<Rightarrow> torrent_error + unit" where
  "check_root_key last_key key =
     (case last_key of
        None \<Rightarrow> Inr ()
      | Some k \<Rightarrow> if key \<le> k then (if key = k then Inl DuplicateRootKey else Inl RootKeysNotSorted) else Inr ())"

lemma parse_value_length: "parse_value rem = Inr (v, r) \<Longrightarrow> length r < length rem"
  using parse_value_sound[of rem v r] by (auto simp: length_greater_0_conv[symmetric] simp del: length_greater_0_conv)

function root_loop :: "bytes \<Rightarrow> bytes option \<Rightarrow> root_state \<Rightarrow> torrent_error + root_state \<times> bytes" where
  "root_loop rem last_key st =
     (if rem \<noteq> [] \<and> hd rem \<noteq> 101 then
        (case parse_string rem of
           Inl e \<Rightarrow> Inl (TBencode e)
         | Inr (key, rem1) \<Rightarrow>
             (case check_root_key last_key key of
                Inl e \<Rightarrow> Inl e
              | Inr _ \<Rightarrow>
                  (case parse_value rem1 of
                     Inl e \<Rightarrow> Inl (TBencode e)
                   | Inr (val, rem2) \<Rightarrow>
                       (case root_entry key val (take (length rem1 - length rem2) rem1) st of
                          Inl e \<Rightarrow> Inl e
                        | Inr st' \<Rightarrow> root_loop rem2 (Some key) st'))))
      else Inr (st, rem))"
  by pat_completeness auto
termination root_loop
  by (relation "measure (\<lambda>(r, _, _). length r)") (auto dest!: parse_string_length parse_value_length)

declare root_loop.simps [simp del]

definition parse_root :: "bytes \<Rightarrow> torrent_error + root_state" where
  "parse_root data =
     (if data = [] \<or> hd data \<noteq> 100 then Inl RootNotDictionary
      else bindE (root_loop (tl data) None root_init) (\<lambda>(st, rem).
        if rem = [] \<or> hd rem \<noteq> 101 then Inl ExpectedERoot
        else if tl rem \<noteq> [] then Inl ExtraDataRoot
        else Inr st))"

section \<open>The info dictionary\<close>

text \<open>A required key: \<^verbatim>\<open>find\<close>, then the test that the entry exists and has the right type.\<close>

definition require_int :: "(bytes \<times> BencodeValue) list \<Rightarrow> bytes \<Rightarrow> torrent_error \<Rightarrow> torrent_error + int" where
  "require_int d key err = (case dict_find d key of Some (BInt i) \<Rightarrow> Inr i | _ \<Rightarrow> Inl err)"

definition require_string :: "(bytes \<times> BencodeValue) list \<Rightarrow> bytes \<Rightarrow> torrent_error \<Rightarrow> torrent_error + bytes" where
  "require_string d key err = (case dict_find d key of Some (BString s) \<Rightarrow> Inr s | _ \<Rightarrow> Inl err)"

definition require_list ::
  "(bytes \<times> BencodeValue) list \<Rightarrow> bytes \<Rightarrow> torrent_error \<Rightarrow> torrent_error + BencodeValue list" where
  "require_list d key err = (case dict_find d key of Some (BList vs) \<Rightarrow> Inr vs | _ \<Rightarrow> Inl err)"

lemma require_Inr:
  "require_int d key err = Inr i \<longleftrightarrow> dict_find d key = Some (BInt i)"
  "require_string d key err = Inr s \<longleftrightarrow> dict_find d key = Some (BString s)"
  "require_list d key err = Inr vs \<longleftrightarrow> dict_find d key = Some (BList vs)"
  by (auto simp: require_int_def require_string_def require_list_def
      split: option.splits BencodeValue.splits)

fun split_hashes :: "nat \<Rightarrow> bytes \<Rightarrow> bytes list" where
  "split_hashes 0 s = []"
| "split_hashes (Suc n) s = take 20 s # split_hashes n (drop 20 s)"

text \<open>The loop over the segments of a path; \<open>i\<close> is the loop index.\<close>

fun join_path :: "nat \<Rightarrow> BencodeValue list \<Rightarrow> bytes \<Rightarrow> torrent_error + bytes" where
  "join_path i [] path = Inr path"
| "join_path i (seg # segs) path =
     (case seg of
        BString s \<Rightarrow> join_path (Suc i) segs ((if i > 0 then path @ [47] else path) @ s)
      | _ \<Rightarrow> Inl PathSegmentNotString)"

fun files_loop :: "BencodeValue list \<Rightarrow> int \<Rightarrow> FileInfo list \<Rightarrow> torrent_error + FileInfo list \<times> int" where
  "files_loop [] off files = Inr (files, off)"
| "files_loop (v # vs) off files =
     (case v of
        BDict d \<Rightarrow>
          bindE (require_int d (ascii ''length'') InvalidFileLength) (\<lambda>len.
          bindE (require_list d (ascii ''path'') InvalidFilePath) (\<lambda>segs.
          bindE (join_path 0 segs []) (\<lambda>path.
          bindE (int64 (off + len)) (\<lambda>off'.
          files_loop vs off' (files @ [\<lparr>fi_path = path, fi_length = len, fi_offset = off\<rparr>])))))
      | _ \<Rightarrow> Inl FileNotDictionary)"

definition parse_layout :: "(bytes \<times> BencodeValue) list \<Rightarrow> bytes \<Rightarrow> torrent_error + FileInfo list \<times> int" where
  "parse_layout info_dict name =
     (case dict_find info_dict (ascii ''files'') of
        Some (BList vs) \<Rightarrow> files_loop vs 0 []
      | Some _ \<Rightarrow> Inl FilesNotList
      | None \<Rightarrow>
          (case dict_find info_dict (ascii ''length'') of
             Some (BInt len) \<Rightarrow> Inr ([\<lparr>fi_path = name, fi_length = len, fi_offset = 0\<rparr>], len)
           | _ \<Rightarrow> Inl InvalidLength))"

definition calculated_pieces :: "int \<Rightarrow> int \<Rightarrow> torrent_error + int" where
  "calculated_pieces tot plen =
     bindE (int64 (tot + plen)) (\<lambda>s. bindE (int64 (s - 1)) (\<lambda>s. div64 s plen))"

text \<open>The end of \<^verbatim>\<open>from_bencode\<close>: the info hash, the list of trackers and the metadata.\<close>

definition torrent_metadata ::
  "(bytes \<Rightarrow> bytes) \<Rightarrow> root_state \<Rightarrow> bytes \<Rightarrow> int \<Rightarrow> int \<Rightarrow> nat \<Rightarrow> bytes list \<Rightarrow> FileInfo list \<Rightarrow> TorrentMetadata" where
  "torrent_metadata sha1 st name plen tot n hashes files =
     \<lparr>md_name = name, announce_url = rs_announce st,
      announce_list =
        (if rs_announce_list st = [] \<and> rs_announce st \<noteq> [] then [rs_announce st] else rs_announce_list st),
      piece_length = plen, total_length = tot, num_pieces = cast_int32 n,
      piece_hashes = hashes, md_files = files,
      info_hash = (if rs_info_span st \<noteq> [] then sha1 (rs_info_span st) else replicate 20 0)\<rparr>"

definition from_bencode :: "(bytes \<Rightarrow> bytes) \<Rightarrow> bytes \<Rightarrow> torrent_error + TorrentMetadata" where
  "from_bencode sha1 data =
     bindE (parse_root data) (\<lambda>st.
     if rs_announce st = [] then Inl MissingAnnounce
     else case rs_info st of
       BDict info_dict \<Rightarrow>
         bindE (require_int info_dict (ascii ''piece length'') InvalidPieceLength) (\<lambda>plen.
         bindE (require_string info_dict (ascii ''name'') InvalidName) (\<lambda>name.
         bindE (require_string info_dict (ascii ''pieces'') InvalidPieces) (\<lambda>pieces.
         if length pieces mod 20 \<noteq> 0 then Inl PiecesNotMultiple
         else let n = length pieces div 20; hashes = split_hashes n pieces in
           bindE (parse_layout info_dict name) (\<lambda>(files, tot).
           bindE (calculated_pieces tot plen) (\<lambda>calc.
           if calc \<noteq> int n then Inl PieceCountMismatch
           else Inr (torrent_metadata sha1 st name plen tot n hashes files))))))
     | _ \<Rightarrow> Inl InvalidInfo)"

section \<open>The root loop reads a dictionary\<close>

fun root_fold :: "(bytes \<times> BencodeValue) list \<Rightarrow> root_state \<Rightarrow> torrent_error + root_state" where
  "root_fold [] st = Inr st"
| "root_fold ((k, v) # ws) st = bindE (root_entry k v (encode v) st) (root_fold ws)"

lemma root_loop_sound:
  "root_loop rem last_key st = Inr (st', rest) \<Longrightarrow>
   \<exists>ws. rem = concat (map encode_entry ws) @ rest \<and> (rest = [] \<or> hd rest = 101) \<and>
     sorted_wrt (<) (map fst ws) \<and> (\<forall>e\<in>set ws. \<forall>k. last_key = Some k \<longrightarrow> k < fst e) \<and>
     (\<forall>e\<in>set ws. length (fst e) \<le> SIZE_MAX \<and> bencode_wf (snd e)) \<and> root_fold ws st = Inr st'"
proof (induction rem last_key st rule: root_loop.induct)
  case (1 rem last_key st)
  show ?case
  proof (cases "rem \<noteq> [] \<and> hd rem \<noteq> 101")
    case True
    from 1(2) True obtain k rem1 v rem2 st1 where ps: "parse_string rem = Inr (k, rem1)"
      and ck: "check_root_key last_key k = Inr ()" and pv: "parse_value rem1 = Inr (v, rem2)"
      and re: "root_entry k v (take (length rem1 - length rem2) rem1) st = Inr st1"
      and rl: "root_loop rem2 (Some k) st1 = Inr (st', rest)"
      by (subst (asm) root_loop.simps) (auto split: sum.splits)
    from 1(1)[OF True ps refl ck pv refl re rl] obtain ws where
      ws: "rem2 = concat (map encode_entry ws) @ rest" "rest = [] \<or> hd rest = 101"
        "sorted_wrt (<) (map fst ws)" "\<forall>e\<in>set ws. k < fst e"
        "\<forall>e\<in>set ws. length (fst e) \<le> SIZE_MAX \<and> bencode_wf (snd e)" "root_fold ws st1 = Inr st'"
      by auto
    have last: "k' < k" if "last_key = Some k'" for k'
      using ck that by (auto simp: check_root_key_def split: if_splits)
    note sound = parse_string_sound[OF ps] parse_value_sound[OF pv]
    show ?thesis
      using ws sound re last
      by (intro exI[of _ "(k, v) # ws"]) (force simp: encode_entry_def[of "(k, v)"])
  next
    case False
    then show ?thesis using 1(2) by (subst (asm) root_loop.simps) (auto intro: exI[of _ "[]"])
  qed
qed

lemma parse_root_sound:
  assumes "parse_root data = Inr st"
  shows "\<exists>ws. data = encode (BDict ws) \<and> bencode_wf (BDict ws) \<and> root_fold ws root_init = Inr st"
proof -
  obtain rem where d: "data \<noteq> []" "hd data = 100" and rl: "root_loop (tl data) None root_init = Inr (st, rem)"
    and rem: "rem \<noteq> []" "hd rem = 101" "tl rem = []"
    using assms by (auto simp: parse_root_def bindE_Inr_iff split: if_splits)
  have "rem = [101]" using rem by (cases rem) auto
  moreover have "data = 100 # tl data" using d by (cases data) auto
  ultimately show ?thesis using root_loop_sound[OF rl] by (auto simp: encode_BDict)
qed

lemma root_entry_frame:
  assumes "root_entry k v raw st = Inr st'"
  shows "k \<noteq> ascii ''announce'' \<Longrightarrow> rs_announce st' = rs_announce st"
    and "k = ascii ''announce'' \<Longrightarrow> v = BString (rs_announce st')"
    and "k \<noteq> ascii ''announce-list'' \<Longrightarrow> rs_announce_list st' = rs_announce_list st"
    and "k = ascii ''announce-list'' \<Longrightarrow> rs_announce_list st' = rs_announce_list st @ collect_trackers v"
    and "k \<noteq> ascii ''info'' \<Longrightarrow> rs_info st' = rs_info st \<and> rs_info_span st' = rs_info_span st"
    and "k = ascii ''info'' \<Longrightarrow> rs_info st' = v \<and> rs_info_span st' = raw"
  using assms by (auto simp: root_entry_def split: if_splits BencodeValue.splits)

text \<open>What the walk leaves in its state, in terms of lookups in the dictionary.\<close>

lemma root_fold_find:
  assumes "root_fold ws st = Inr st'" "distinct (map fst ws)"
  shows "(case dict_find ws (ascii ''announce'') of None \<Rightarrow> rs_announce st' = rs_announce st
            | Some v \<Rightarrow> v = BString (rs_announce st')) \<and>
    rs_announce_list st' = rs_announce_list st @
      (case dict_find ws (ascii ''announce-list'') of None \<Rightarrow> [] | Some v \<Rightarrow> collect_trackers v) \<and>
    (case dict_find ws (ascii ''info'') of
       None \<Rightarrow> rs_info st' = rs_info st \<and> rs_info_span st' = rs_info_span st
     | Some v \<Rightarrow> rs_info st' = v \<and> rs_info_span st' = encode v)"
  using assms
proof (induction ws arbitrary: st)
  case (Cons e ws)
  obtain k v where e: "e = (k, v)" by fastforce
  with Cons.prems obtain st1 where re: "root_entry k v (encode v) st = Inr st1"
    and rf: "root_fold ws st1 = Inr st'"
    by (auto simp: bindE_Inr_iff)
  have none: "dict_find ws k = None"
    using Cons.prems(2) by (simp add: e dict_find_def map_of_eq_None_iff)
  note IH = Cons.IH[OF rf] and fr = root_entry_frame[OF re]
  have find: "dict_find (e # ws) x = (if x = k then Some v else dict_find ws x)" for x
    by (simp add: dict_find_def e)
  show ?case
    using IH Cons.prems(2) none fr unfolding find
    by (auto split: option.splits if_splits)
qed (simp add: dict_find_def)

section \<open>The file layout\<close>

fun contiguous :: "int \<Rightarrow> FileInfo list \<Rightarrow> bool" where
  "contiguous off [] \<longleftrightarrow> True"
| "contiguous off (f # fs) \<longleftrightarrow> fi_offset f = off \<and> contiguous (off + fi_length f) fs"

definition files_size :: "FileInfo list \<Rightarrow> int" where
  "files_size fs = sum_list (map fi_length fs)"

lemma contiguous_append:
  "contiguous off (xs @ ys) \<longleftrightarrow> contiguous off xs \<and> contiguous (off + files_size xs) ys"
  by (induction xs arbitrary: off) (auto simp: files_size_def add.assoc)

lemma files_loop_layout:
  "files_loop vs off files = Inr (fs, tot) \<Longrightarrow> contiguous 0 files \<Longrightarrow> off = files_size files \<Longrightarrow>
   contiguous 0 fs \<and> tot = files_size fs \<and> length fs = length files + length vs"
proof (induction vs off files rule: files_loop.induct)
  case (2 v vs off files)
  from 2(2) obtain d len segs path where v: "v = BDict d"
      and r: "require_int d (ascii ''length'') InvalidFileLength = Inr len"
        "require_list d (ascii ''path'') InvalidFilePath = Inr segs"
      and p: "join_path 0 segs [] = Inr path"
    and fl: "files_loop vs (off + len) (files @ [\<lparr>fi_path = path, fi_length = len, fi_offset = off\<rparr>]) = Inr (fs, tot)"
    by (auto simp: int64_def bindE_Inr_iff split: BencodeValue.splits if_splits)
  from 2(1)[OF v fl] 2(3,4) show ?case by (simp add: contiguous_append files_size_def)
qed auto

lemma parse_layout_layout:
  "parse_layout d name = Inr (fs, tot) \<Longrightarrow> contiguous 0 fs \<and> tot = files_size fs"
  using files_loop_layout[of _ 0 "[]" fs tot]
  by (auto simp: parse_layout_def files_size_def split: option.splits BencodeValue.splits)

lemma split_hashes_props:
  assumes "length s = 20 * n"
  shows "length (split_hashes n s) = n" "\<forall>h\<in>set (split_hashes n s). length h = 20" "concat (split_hashes n s) = s"
  using assms by (induction n s rule: split_hashes.induct) auto

lemma from_bencode_cases:
  assumes "from_bencode sha1 data = Inr md"
  obtains st info_dict plen name pieces files tot n where
    "parse_root data = Inr st" "rs_announce st \<noteq> []" "rs_info st = BDict info_dict"
    "dict_find info_dict (ascii ''piece length'') = Some (BInt plen)"
    "dict_find info_dict (ascii ''name'') = Some (BString name)"
    "dict_find info_dict (ascii ''pieces'') = Some (BString pieces)"
    "length pieces = 20 * n" "parse_layout info_dict name = Inr (files, tot)"
    "calculated_pieces tot plen = Inr (int n)"
    "md = \<lparr>md_name = name, announce_url = rs_announce st,
           announce_list = (if rs_announce_list st = [] then [rs_announce st] else rs_announce_list st),
           piece_length = plen, total_length = tot, num_pieces = cast_int32 n,
           piece_hashes = split_hashes n pieces, md_files = files,
           info_hash = (if rs_info_span st \<noteq> [] then sha1 (rs_info_span st) else replicate 20 0)\<rparr>"
proof -
  from assms obtain st where st: "parse_root data = Inr st" "rs_announce st \<noteq> []"
    by (auto simp: from_bencode_def bindE_Inr_iff split: if_splits)
  moreover from assms st obtain info_dict where "rs_info st = BDict info_dict"
    by (cases "rs_info st") (auto simp: from_bencode_def)
  moreover from this assms st obtain plen name pieces files tot where
    "dict_find info_dict (ascii ''piece length'') = Some (BInt plen)"
    "dict_find info_dict (ascii ''name'') = Some (BString name)"
    "dict_find info_dict (ascii ''pieces'') = Some (BString pieces)"
    "length pieces mod 20 = 0" "parse_layout info_dict name = Inr (files, tot)"
    "calculated_pieces tot plen = Inr (int (length pieces div 20))"
    "md = \<lparr>md_name = name, announce_url = rs_announce st,
           announce_list = (if rs_announce_list st = [] then [rs_announce st] else rs_announce_list st),
           piece_length = plen, total_length = tot, num_pieces = cast_int32 (length pieces div 20),
           piece_hashes = split_hashes (length pieces div 20) pieces, md_files = files,
           info_hash = (if rs_info_span st \<noteq> [] then sha1 (rs_info_span st) else replicate 20 0)\<rparr>"
    by (simp add: from_bencode_def torrent_metadata_def bindE_Inr_iff Let_def require_Inr split: if_split_asm)
      (elim exE conjE, auto split: if_split_asm)
  ultimately show thesis using that[of st info_dict plen name pieces "length pieces div 20"] by auto
qed

section \<open>Encoded torrents\<close>

lemma root_loop_encode:
  assumes "root_fold ws st = Inr st'" "sorted_wrt (<) (map fst ws)"
    "\<forall>e\<in>set ws. length (fst e) \<le> SIZE_MAX \<and> bencode_wf (snd e)"
    "\<forall>e\<in>set ws. \<forall>k. last_key = Some k \<longrightarrow> k < fst e"
  shows "root_loop (concat (map encode_entry ws) @ 101 # rest) last_key st = Inr (st', 101 # rest)"
  using assms
proof (induction ws arbitrary: st last_key)
  case Nil
  then show ?case by (simp add: root_loop.simps)
next
  case (Cons e ws)
  obtain k v where e: "e = (k, v)" by fastforce
  let ?r = "concat (map encode_entry ws) @ 101 # rest"
  obtain st1 where re: "root_entry k v (encode v) st = Inr st1" and rf: "root_fold ws st1 = Inr st'"
    using Cons.prems(1) by (auto simp: e bindE_Inr_iff)
  have ps: "parse_string (encode (BString k) @ encode v @ ?r) = Inr (k, encode v @ ?r)"
    using Cons.prems(3) by (intro parse_string_encode) (simp add: e)
  have pv: "parse_value (encode v @ ?r) = Inr (v, ?r)"
    using Cons.prems(3) by (intro parse_value_encode) (simp add: e)
  have ck: "check_root_key last_key k = Inr ()"
    using Cons.prems(4) by (auto simp: e check_root_key_def not_le split: option.splits)
  have rec: "root_loop ?r (Some k) st1 = Inr (st', 101 # rest)"
    using rf Cons.prems by (intro Cons.IH) (auto simp: e)
  have hd: "hd (encode (BString k) @ encode v @ ?r) \<noteq> 101"
    by (simp add: hd_append hd_encode_neq_e)
  show ?case
    using ps pv ck rec hd re by (subst root_loop.simps) (simp add: e encode_entry_def)
qed

lemma parse_root_encode:
  "bencode_wf (BDict ws) \<Longrightarrow> root_fold ws root_init = Inr st \<Longrightarrow> parse_root (encode (BDict ws)) = Inr st"
  using root_loop_encode[of ws root_init st None "[]"] by (simp add: parse_root_def encode_BDict)

definition single_file_torrent :: "bytes \<Rightarrow> bytes \<Rightarrow> int \<Rightarrow> int \<Rightarrow> bytes \<Rightarrow> BencodeValue" where
  "single_file_torrent url name len plen pieces =
     BDict [(ascii ''announce'', BString url),
            (ascii ''info'', BDict [(ascii ''length'', BInt len), (ascii ''name'', BString name),
                                   (ascii ''piece length'', BInt plen), (ascii ''pieces'', BString pieces)])]"

lemma parse_root_single_file:
  assumes "bencode_wf (single_file_torrent url name len plen pieces)"
  defines "info \<equiv> BDict [(ascii ''length'', BInt len), (ascii ''name'', BString name),
                          (ascii ''piece length'', BInt plen), (ascii ''pieces'', BString pieces)]"
  shows "parse_root (encode (single_file_torrent url name len plen pieces)) =
    Inr \<lparr>rs_announce = url, rs_announce_list = [], rs_info = info, rs_info_span = encode info\<rparr>"
  using assms(1) unfolding single_file_torrent_def info_def
  by (intro parse_root_encode) (simp_all add: root_entry_def root_init_def)

section \<open>Correctness\<close>

text \<open>C18: when \<^verbatim>\<open>from_bencode\<close> accepts a file, the whole file is one canonical Bencode dictionary, the
  metadata are its entries, and the info hash is the SHA-1 of the raw bytes of its \<^verbatim>\<open>info\<close>
  value, a contiguous part of the file that equals the re-encoding of the parsed value.\<close>

theorem from_bencode_info_hash:
  assumes "from_bencode sha1 data = Inr md"
  shows "\<exists>root info. parse data = Inr (BDict root) \<and>
    dict_find root (ascii ''announce'') = Some (BString (announce_url md)) \<and>
    dict_find root (ascii ''info'') = Some (BDict info) \<and>
    info_hash md = sha1 (encode (BDict info)) \<and>
    (\<exists>pre post. data = pre @ encode (BDict info) @ post) \<and>
    dict_find info (ascii ''piece length'') = Some (BInt (piece_length md)) \<and>
    dict_find info (ascii ''name'') = Some (BString (md_name md)) \<and>
    dict_find info (ascii ''pieces'') = Some (BString (concat (piece_hashes md)))"
  using assms
proof (rule from_bencode_cases)
  fix st info plen name pieces files tot n
  assume a: "parse_root data = Inr st" "rs_announce st \<noteq> []" "rs_info st = BDict info"
    "dict_find info (ascii ''piece length'') = Some (BInt plen)"
    "dict_find info (ascii ''name'') = Some (BString name)"
    "dict_find info (ascii ''pieces'') = Some (BString pieces)" "length pieces = 20 * n"
  assume md: "md = \<lparr>md_name = name, announce_url = rs_announce st,
           announce_list = (if rs_announce_list st = [] then [rs_announce st] else rs_announce_list st),
           piece_length = plen, total_length = tot, num_pieces = cast_int32 n,
           piece_hashes = split_hashes n pieces, md_files = files,
           info_hash = (if rs_info_span st \<noteq> [] then sha1 (rs_info_span st) else replicate 20 0)\<rparr>"
  obtain ws where ws: "data = encode (BDict ws)" "bencode_wf (BDict ws)" "root_fold ws root_init = Inr st"
    using parse_root_sound[OF a(1)] by blast
  then have "distinct (map fst ws)" by (simp add: strict_sorted_iff)
  note found = root_fold_find[OF ws(3) this]
  have an: "dict_find ws (ascii ''announce'') = Some (BString (rs_announce st))"
    using found a(2) by (auto simp: root_init_def split: option.splits)
  have inf: "dict_find ws (ascii ''info'') = Some (BDict info)" "rs_info_span st = encode (BDict info)"
    using found a(3) by (auto simp: root_init_def split: option.splits)
  then have "(ascii ''info'', BDict info) \<in> set ws" by (simp add: dict_find_def map_of_SomeD)
  then obtain xs ys where "ws = xs @ (ascii ''info'', BDict info) # ys" by (meson split_list)
  then have "data = (100 # concat (map encode_entry xs) @ encode (BString (ascii ''info''))) @
      encode (BDict info) @ (concat (map encode_entry ys) @ [101])"
    unfolding ws(1) by (simp add: encode_BDict encode_entry_def[of "([105, 110, 102, 111], BDict info)"])
  then have "\<exists>pre post. data = pre @ encode (BDict info) @ post" by blast
  then show ?thesis
    using an inf a ws parse_encode[OF ws(2)] split_hashes_props(3)[OF a(7)] by (auto simp: md)
qed

text \<open>Reading back an encoded single-file torrent, up to the arithmetic on its lengths.\<close>

lemma from_bencode_single_file:
  assumes wf: "bencode_wf (single_file_torrent url name len plen (concat hashes))"
    and "url \<noteq> []" "\<forall>h\<in>set hashes. length h = 20"
  shows "from_bencode sha1 (encode (single_file_torrent url name len plen (concat hashes))) =
    bindE (calculated_pieces len plen) (\<lambda>calc.
      if calc \<noteq> int (length hashes) then Inl PieceCountMismatch
      else Inr \<lparr>md_name = name, announce_url = url, announce_list = [url], piece_length = plen,
             total_length = len, num_pieces = cast_int32 (length hashes), piece_hashes = hashes,
             md_files = [\<lparr>fi_path = name, fi_length = len, fi_offset = 0\<rparr>],
             info_hash = sha1 (encode (BDict [(ascii ''length'', BInt len), (ascii ''name'', BString name),
               (ascii ''piece length'', BInt plen), (ascii ''pieces'', BString (concat hashes))]))\<rparr>)"
proof -
  have len: "length (concat hashes) = 20 * length hashes"
    using assms(3) by (induction hashes) auto
  have split: "split_hashes (length hashes) (concat hashes) = hashes"
    using assms(3) by (induction hashes) auto
  show ?thesis
    unfolding from_bencode_def torrent_metadata_def parse_root_single_file[OF wf]
    using assms(2)
    by (cases "calculated_pieces len plen")
      (simp_all add: require_int_def require_string_def dict_find_def parse_layout_def len split Let_def
        encode_BDict split: if_split del: length_concat)
qed

theorem from_bencode_info_hash_witness:
  "\<exists>md. from_bencode (\<lambda>_. replicate 20 7)
      (encode (single_file_torrent [117] [102] 3 4 (concat [replicate 20 9]))) = Inr md \<and>
    info_hash md = replicate 20 7 \<and>
    (\<exists>root. parse (encode (single_file_torrent [117] [102] 3 4 (concat [replicate 20 9]))) = Inr (BDict root))"
proof -
  let ?d = "encode (single_file_torrent [117] [102] 3 4 (concat [replicate 20 9]))"
  have wf: "bencode_wf (single_file_torrent [117] [102] 3 4 (concat [replicate 20 9]))"
    by (simp add: single_file_torrent_def)
  have "\<exists>md. from_bencode (\<lambda>_. replicate 20 7) ?d = Inr md"
    by (subst from_bencode_single_file[OF wf])
      (simp_all add: calculated_pieces_def int64_def div64_def)
  then obtain md where md: "from_bencode (\<lambda>_. replicate 20 7) ?d = Inr md" by blast
  show ?thesis using from_bencode_info_hash[OF md] md by auto
qed

lemma calculated_pieces_cover:
  assumes "calculated_pieces tot plen = Inr n" "0 < plen" "0 \<le> tot"
  shows "(n - 1) * plen < tot \<and> tot \<le> n * plen"
proof -
  have n: "n = (tot + plen - 1) div plen"
    using assms by (auto simp: calculated_pieces_def int64_def div64_def bindE_Inr_iff sgn_if split: if_splits)
  let ?s = "tot + plen - 1"
  have "?s = plen * n + ?s mod plen" "0 \<le> ?s mod plen" "?s mod plen < plen"
    unfolding n using assms(2) by simp_all
  then show ?thesis by (simp add: algebra_simps)
qed

lemma from_bencode_cover:
  assumes "from_bencode sha1 data = Inr md" "0 < piece_length md" "0 \<le> total_length md"
  shows "(int (length (piece_hashes md)) - 1) * piece_length md < total_length md"
    "total_length md \<le> int (length (piece_hashes md)) * piece_length md"
    "num_pieces md = cast_int32 (length (piece_hashes md))"
proof -
  obtain n pieces tot plen where "length pieces = 20 * n" "calculated_pieces tot plen = Inr (int n)"
    "piece_length md = plen" "total_length md = tot" "piece_hashes md = split_hashes n pieces"
    "num_pieces md = cast_int32 n"
    using assms(1) by (rule from_bencode_cases) auto
  with assms calculated_pieces_cover[of tot plen "int n"] split_hashes_props(1)[of pieces n]
  show "(int (length (piece_hashes md)) - 1) * piece_length md < total_length md"
    "total_length md \<le> int (length (piece_hashes md)) * piece_length md"
    "num_pieces md = cast_int32 (length (piece_hashes md))"
    by simp_all
qed



text \<open>C39: \<^verbatim>\<open>from_bencode\<close> divides by the \<^verbatim>\<open>piece length\<close> of the file without testing it: every otherwise
  well-formed single-file torrent with piece length 0 makes it divide by zero, and one of 6 bytes with
  piece length -5 and no piece hashes is accepted.\<close>

theorem from_bencode_piece_length_unchecked:
  assumes "bencode_wf (single_file_torrent url name len 0 (concat hashes))"
    "url \<noteq> []" "\<forall>h\<in>set hashes. length h = 20" "0 \<le> len"
  shows "from_bencode sha1 (encode (single_file_torrent url name len 0 (concat hashes))) = Inl DivisionByZero \<and>
    (\<exists>md. from_bencode sha1 (encode (single_file_torrent [117] [102] 6 (- 5) (concat []))) = Inr md \<and>
          piece_length md = - 5 \<and> total_length md = 6 \<and> piece_hashes md = [])"
proof
  have "len \<le> INT64_MAX" using assms(1) by (simp add: single_file_torrent_def)
  then show "from_bencode sha1 (encode (single_file_torrent url name len 0 (concat hashes))) = Inl DivisionByZero"
    using assms(4) by (subst from_bencode_single_file[OF assms(1-3)])
      (simp add: calculated_pieces_def int64_def div64_def)
  have wf: "bencode_wf (single_file_torrent [117] [102] 6 (- 5) (concat []))"
    by (simp add: single_file_torrent_def)
  show "\<exists>md. from_bencode sha1 (encode (single_file_torrent [117] [102] 6 (- 5) (concat []))) = Inr md \<and>
          piece_length md = - 5 \<and> total_length md = 6 \<and> piece_hashes md = []"
    by (subst from_bencode_single_file[OF wf]) (simp_all add: calculated_pieces_def int64_def div64_def)
qed

theorem from_bencode_piece_length_unchecked_witness:
  "from_bencode (\<lambda>_. replicate 20 7) (encode (single_file_torrent [117] [102] 5 0 (concat [replicate 20 9])))
     = Inl DivisionByZero"
proof -
  have "bencode_wf (single_file_torrent [117] [102] 5 0 (concat [replicate 20 9]))"
    by (simp add: single_file_torrent_def)
  from from_bencode_piece_length_unchecked[OF this, of "\<lambda>_. replicate 20 7"] show ?thesis by simp
qed

end
