(* ===== verification/Piece_Manager.thy ===== *)
theory Piece_Manager
  imports Torrent Bitfields
begin

text \<open>
  The piece manager (\<^verbatim>\<open>include/piece_manager.hpp\<close>, \<^verbatim>\<open>src/piece_manager.cpp\<close>): which pieces are
  complete, and for the pieces in progress the state of their 16 KiB blocks and the
  buffer they are assembled in.  \<^verbatim>\<open>size_t\<close> and \<^verbatim>\<open>uint32_t\<close> values are natural numbers with the
  source's casts written out; the offsets of the block loop stay below the 32-bit piece
  length, so they cannot wrap.  \<^verbatim>\<open>begin + block_data.size()\<close> is 64-bit arithmetic on a
  32-bit offset and the size of a buffer in memory, and is taken not to wrap.
\<close>

section \<open>State\<close>

datatype BlockState = Pending | Requested | Received

record Block =
  blk_piece :: nat
  blk_begin :: nat
  blk_length :: nat
  blk_state :: BlockState

record PieceState =
  ps_index :: nat
  ps_length :: nat
  ps_blocks :: "Block list"
  ps_data :: bytes
  blocks_received :: nat

record PieceManager =
  pm_metadata :: TorrentMetadata
  pm_bitfield :: Bitfield
  in_progress :: "nat \<rightharpoonup> PieceState"

section \<open>Casts\<close>

definition cast_size :: "int \<Rightarrow> nat" where
  "cast_size i = nat (i mod 2 ^ 64)"

definition cast_uint32 :: "int \<Rightarrow> nat" where
  "cast_uint32 i = nat (i mod 2 ^ 32)"

section \<open>Operations\<close>

definition piece_manager :: "TorrentMetadata \<Rightarrow> PieceManager" where
  "piece_manager md = \<lparr>pm_metadata = md, pm_bitfield = bitfield_empty (cast_size (num_pieces md)), in_progress = Map.empty\<rparr>"

definition has_piece :: "PieceManager \<Rightarrow> nat \<Rightarrow> bool" where
  "has_piece pm i = bf_has (pm_bitfield pm) i"

definition mark_completed :: "PieceManager \<Rightarrow> nat \<Rightarrow> PieceManager" where
  "mark_completed pm i = pm\<lparr>pm_bitfield := bf_set (pm_bitfield pm) i True\<rparr>"

definition get_piece_length :: "TorrentMetadata \<Rightarrow> nat \<Rightarrow> nat" where
  "get_piece_length md i =
     (if i \<ge> cast_size (num_pieces md) then 0
      else if i < cast_size (num_pieces md - 1) then cast_uint32 (piece_length md)
      else let last_piece_len = total_length md - (num_pieces md - 1) * piece_length md in
        cast_uint32 last_piece_len)"

text \<open>\<^verbatim>\<open>std::vector::resize\<close> with a fill value.\<close>

definition resize :: "'a list \<Rightarrow> nat \<Rightarrow> 'a \<Rightarrow> 'a list" where
  "resize xs n x = take n xs @ replicate (n - length xs) x"

function make_blocks :: "nat \<Rightarrow> nat \<Rightarrow> nat \<Rightarrow> Block list" where
  "make_blocks piece len offset =
     (if offset < len then
        let l = min 16384 (len - offset) in
        \<lparr>blk_piece = piece, blk_begin = offset, blk_length = l, blk_state = Pending\<rparr>
          # make_blocks piece len (offset + l)
      else [])"
  by pat_completeness auto
termination make_blocks
  by (relation "measure (\<lambda>(_, len, offset). len - offset)") auto

declare make_blocks.simps [simp del]

definition empty_piece :: PieceState where
  "empty_piece = \<lparr>ps_index = 0, ps_length = 0, ps_blocks = [], ps_data = [], blocks_received = 0\<rparr>"

text \<open>\<^verbatim>\<open>in_progress_[piece_idx]\<close>, which creates a default entry when there is none.\<close>

definition piece_at :: "PieceManager \<Rightarrow> nat \<Rightarrow> PieceState" where
  "piece_at pm i = (case in_progress pm i of None \<Rightarrow> empty_piece | Some st \<Rightarrow> st)"

definition set_piece :: "PieceManager \<Rightarrow> nat \<Rightarrow> PieceState \<Rightarrow> PieceManager" where
  "set_piece pm i st = pm\<lparr>in_progress := (in_progress pm)(i \<mapsto> st)\<rparr>"

definition init_piece_state :: "PieceManager \<Rightarrow> nat \<Rightarrow> PieceManager" where
  "init_piece_state pm i =
     (let state = piece_at pm i in
      if ps_blocks state \<noteq> [] then set_piece pm i state
      else let len = get_piece_length (pm_metadata pm) i in
        set_piece pm i
          (state\<lparr>ps_index := i mod 2 ^ 32, ps_length := len, ps_data := resize (ps_data state) len 0,
                 ps_blocks := make_blocks (i mod 2 ^ 32) len 0\<rparr>))"

fun next_pending :: "Block list \<Rightarrow> (Block \<times> Block list) option" where
  "next_pending [] = None"
| "next_pending (b # bs) =
     (if blk_state b = Pending then let b' = b\<lparr>blk_state := Requested\<rparr> in Some (b', b' # bs)
      else map_option (\<lambda>(r, bs'). (r, b # bs')) (next_pending bs))"

definition get_next_block :: "PieceManager \<Rightarrow> nat \<Rightarrow> Block option \<times> PieceManager" where
  "get_next_block pm i =
     (if has_piece pm i then (None, pm)
      else let pm = init_piece_state pm i; state = piece_at pm i in
        (case next_pending (ps_blocks state) of
           Some (b, bs) \<Rightarrow> (Some b, set_piece pm i (state\<lparr>ps_blocks := bs\<rparr>))
         | None \<Rightarrow> (None, pm)))"

text \<open>\<^verbatim>\<open>std::find_if\<close> over the blocks: the position of the first block with this offset.\<close>

fun find_block :: "nat \<Rightarrow> Block list \<Rightarrow> nat option" where
  "find_block bgn [] = None"
| "find_block bgn (b # bs) = (if blk_begin b = bgn then Some 0 else map_option Suc (find_block bgn bs))"

definition set_block_state :: "Block list \<Rightarrow> nat \<Rightarrow> BlockState \<Rightarrow> Block list" where
  "set_block_state bs k s = bs[k := (bs ! k)\<lparr>blk_state := s\<rparr>]"

definition store_block :: "PieceState \<Rightarrow> nat \<Rightarrow> bytes \<Rightarrow> PieceState" where
  "store_block state bgn block_data =
     (case find_block bgn (ps_blocks state) of
        None \<Rightarrow> state
      | Some k \<Rightarrow>
          if blk_state (ps_blocks state ! k) \<noteq> Received then
            let state1 = state\<lparr>ps_blocks := set_block_state (ps_blocks state) k Received\<rparr> in
            if bgn + length block_data \<le> length (ps_data state) then
              state1\<lparr>ps_data := write_at (ps_data state) bgn block_data,
                     blocks_received := blocks_received state + 1\<rparr>
            else state1
          else state)"

definition block_received :: "PieceManager \<Rightarrow> nat \<Rightarrow> nat \<Rightarrow> bytes \<Rightarrow> bool \<times> PieceManager" where
  "block_received pm i bgn block_data =
     (if has_piece pm i then (False, pm)
      else let pm = init_piece_state pm i; state = store_block (piece_at pm i) bgn block_data in
        (blocks_received state = length (ps_blocks state), set_piece pm i state))"

text \<open>\<^verbatim>\<open>piece_hashes[piece_idx]\<close> is not bounds checked by the source.\<close>

definition validate_piece :: "(bytes \<Rightarrow> bytes) \<Rightarrow> PieceManager \<Rightarrow> nat \<Rightarrow> mem_error + bool" where
  "validate_piece sha1 pm i =
     (case in_progress pm i of
        None \<Rightarrow> Inr False
      | Some state \<Rightarrow>
          bindE (read_at (piece_hashes (pm_metadata pm)) i) (\<lambda>h. Inr (sha1 (ps_data state) = h)))"

definition erase_piece :: "PieceManager \<Rightarrow> nat \<Rightarrow> PieceManager" where
  "erase_piece pm i = pm\<lparr>in_progress := (in_progress pm)(i := None)\<rparr>"

definition piece_completed :: "PieceManager \<Rightarrow> nat \<Rightarrow> PieceManager" where
  "piece_completed pm i = erase_piece (pm\<lparr>pm_bitfield := bf_set (pm_bitfield pm) i True\<rparr>) i"

definition piece_failed :: "PieceManager \<Rightarrow> nat \<Rightarrow> PieceManager" where
  "piece_failed pm i = erase_piece pm i"

definition get_piece_data :: "PieceManager \<Rightarrow> nat \<Rightarrow> bytes" where
  "get_piece_data pm i = (case in_progress pm i of Some state \<Rightarrow> ps_data state | None \<Rightarrow> [])"

definition is_in_progress :: "PieceManager \<Rightarrow> nat \<Rightarrow> bool" where
  "is_in_progress pm i = (in_progress pm i \<noteq> None)"

definition has_pending_blocks :: "PieceManager \<Rightarrow> nat \<Rightarrow> bool" where
  "has_pending_blocks pm i =
     (if has_piece pm i then False
      else case in_progress pm i of
        None \<Rightarrow> True
      | Some state \<Rightarrow> list_ex (\<lambda>b. blk_state b = Pending) (ps_blocks state))"

definition block_request_failed :: "PieceManager \<Rightarrow> nat \<Rightarrow> nat \<Rightarrow> PieceManager" where
  "block_request_failed pm i bgn =
     (case in_progress pm i of
        None \<Rightarrow> pm
      | Some state \<Rightarrow>
          (case find_block bgn (ps_blocks state) of
             None \<Rightarrow> pm
           | Some k \<Rightarrow>
               if blk_state (ps_blocks state ! k) = Requested
               then set_piece pm i (state\<lparr>ps_blocks := set_block_state (ps_blocks state) k Pending\<rparr>)
               else pm))"

section \<open>The blocks of a piece\<close>

definition n_blocks :: "nat \<Rightarrow> nat" where
  "n_blocks len = (len + 16383) div 16384"

text \<open>The geometry of a block list: block \<open>k\<close> covers the bytes from \<open>k * 16384\<close> on.\<close>

definition tiled :: "nat \<Rightarrow> nat \<Rightarrow> Block list \<Rightarrow> bool" where
  "tiled piece len bs \<longleftrightarrow> length bs = n_blocks len \<and>
     (\<forall>k < length bs. blk_piece (bs ! k) = piece \<and> blk_begin (bs ! k) = k * 16384 \<and>
        blk_length (bs ! k) = min 16384 (len - k * 16384))"

lemma n_blocks_0 [simp]: "n_blocks 0 = 0" "n_blocks len = 0 \<longleftrightarrow> len = 0"
  by (auto simp: n_blocks_def)

lemma n_blocks_less: "k < n_blocks len \<longleftrightarrow> k * 16384 < len"
  by (auto simp: n_blocks_def less_eq_div_iff_mult_less_eq Suc_le_eq[symmetric])

lemma make_blocks_map:
  "make_blocks piece len offset =
     map (\<lambda>k. \<lparr>blk_piece = piece, blk_begin = offset + k * 16384,
               blk_length = min 16384 (len - (offset + k * 16384)), blk_state = Pending\<rparr>)
       [0..<n_blocks (len - offset)]"
proof (induction piece len offset rule: make_blocks.induct)
  case (1 piece len offset)
  show ?case
  proof (cases "offset < len")
    case True
    let ?l = "min 16384 (len - offset)"
    have step: "make_blocks piece len offset =
        \<lparr>blk_piece = piece, blk_begin = offset, blk_length = ?l, blk_state = Pending\<rparr>
          # make_blocks piece len (offset + ?l)"
      using True by (subst make_blocks.simps) (simp add: Let_def)
    show ?thesis
    proof (cases "16384 \<le> len - offset")
      case full: True
      have n: "n_blocks (len - offset) = Suc (n_blocks (len - (offset + 16384)))"
        using True full by (simp add: n_blocks_def)
      show ?thesis
        using 1[OF True refl] full
        by (simp add: step n map_upt_Suc add.assoc del: upt_Suc)
    next
      case False
      then have "n_blocks (len - offset) = 1" using True by (simp add: n_blocks_def)
      then show ?thesis using False True step by (simp add: make_blocks.simps[of _ _ "len"])
    qed
  qed (simp add: make_blocks.simps)
qed

lemma make_blocks_tiled: "tiled piece len (make_blocks piece len 0)"
  by (simp add: tiled_def make_blocks_map)

lemma tiled_set_block_state [simp]:
  "tiled piece len (set_block_state bs k s) \<longleftrightarrow> tiled piece len bs"
  by (cases "k < length bs") (auto simp: tiled_def set_block_state_def nth_list_update)

lemma find_block_less: "find_block bgn bs = Some k \<Longrightarrow> k < length bs \<and> blk_begin (bs ! k) = bgn"
  by (induction bs arbitrary: k) (auto split: if_splits)

lemma find_block_None: "find_block bgn bs = None \<longleftrightarrow> (\<forall>b\<in>set bs. blk_begin b \<noteq> bgn)"
  by (induction bs) auto

lemma find_block_tiled:
  assumes "tiled piece len bs"
  shows "find_block bgn bs = Some k \<longleftrightarrow> bgn = k * 16384 \<and> k < length bs"
proof
  assume "find_block bgn bs = Some k"
  with assms show "bgn = k * 16384 \<and> k < length bs"
    by (auto dest!: find_block_less simp: tiled_def)
next
  assume k: "bgn = k * 16384 \<and> k < length bs"
  with assms have "blk_begin (bs ! k) = bgn" by (simp add: tiled_def)
  with k have "find_block bgn bs \<noteq> None" by (auto simp: find_block_None)
  then obtain j where j: "find_block bgn bs = Some j" by blast
  from find_block_less[OF j] assms k have "j = k" by (auto simp: tiled_def)
  with j show "find_block bgn bs = Some k" by simp
qed

section \<open>Counting received blocks\<close>

definition received :: "Block list \<Rightarrow> nat" where
  "received bs = length (filter (\<lambda>b. blk_state b = Received) bs)"

lemma received_simps [simp]:
  "received [] = 0"
  "received (b # bs) = (if blk_state b = Received then Suc (received bs) else received bs)"
  "received (as @ bs) = received as + received bs"
  by (simp_all add: received_def)

lemma received_le: "received bs \<le> length bs"
  by (simp add: received_def)

lemma received_full: "received bs = length bs \<longleftrightarrow> (\<forall>b\<in>set bs. blk_state b = Received)"
proof (induction bs)
  case (Cons b bs)
  then show ?case using received_le[of bs] by auto
qed simp

lemma received_set_block_state:
  assumes "k < length bs" "blk_state (bs ! k) \<noteq> Received"
  shows "received (set_block_state bs k s) = received bs + (if s = Received then 1 else 0)"
proof -
  have "received (take k bs @ bs ! k # drop (Suc k) bs) = received bs"
    using assms by (simp only: id_take_nth_drop[symmetric])
  with assms show ?thesis
    by (simp add: set_block_state_def upd_conv_take_nth_drop)
qed

lemma set_block_state_nth:
  "k < length bs \<Longrightarrow> set_block_state bs k s ! j = (if j = k then (bs ! k)\<lparr>blk_state := s\<rparr> else bs ! j)"
  by (simp add: set_block_state_def)

lemma length_set_block_state [simp]: "length (set_block_state bs k s) = length bs"
  by (simp add: set_block_state_def)

text \<open>\<open>next_pending\<close> takes the first pending block.\<close>

lemma next_pending_Some:
  "next_pending bs = Some (b, bs') \<longleftrightarrow>
     (\<exists>k < length bs. blk_state (bs ! k) = Pending \<and> (\<forall>j < k. blk_state (bs ! j) \<noteq> Pending) \<and>
        b = (bs ! k)\<lparr>blk_state := Requested\<rparr> \<and> bs' = set_block_state bs k Requested)"
proof (induction bs arbitrary: b bs')
  case (Cons c bs)
  show ?case
  proof (cases "blk_state c = Pending")
    case True
    then show ?thesis
      by (auto simp: Let_def set_block_state_def Ex_less_Suc2 All_less_Suc2)
  next
    case False
    have "next_pending (c # bs) = Some (b, bs') \<longleftrightarrow> (\<exists>cs. next_pending bs = Some (b, cs) \<and> bs' = c # cs)"
      using False by auto
    also have "\<dots> \<longleftrightarrow> (\<exists>k < length bs. blk_state (bs ! k) = Pending \<and> (\<forall>j < k. blk_state (bs ! j) \<noteq> Pending) \<and>
        b = (bs ! k)\<lparr>blk_state := Requested\<rparr> \<and> bs' = c # set_block_state bs k Requested)"
      by (auto simp: Cons.IH)
    also have "\<dots> \<longleftrightarrow> (\<exists>k < length (c # bs). blk_state ((c # bs) ! k) = Pending \<and>
        (\<forall>j < k. blk_state ((c # bs) ! j) \<noteq> Pending) \<and>
        b = ((c # bs) ! k)\<lparr>blk_state := Requested\<rparr> \<and> bs' = set_block_state (c # bs) k Requested)"
      using False by (simp add: Ex_less_Suc2 All_less_Suc2 set_block_state_def)
    finally show ?thesis .
  qed
qed simp

lemma next_pending_None: "next_pending bs = None \<longleftrightarrow> (\<forall>b\<in>set bs. blk_state b \<noteq> Pending)"
  by (induction bs) (auto simp: Let_def)

section \<open>Invariant\<close>

definition piece_ok :: "TorrentMetadata \<Rightarrow> nat \<Rightarrow> PieceState \<Rightarrow> bool" where
  "piece_ok md i st \<longleftrightarrow> ps_index st = i mod 2 ^ 32 \<and> ps_length st = get_piece_length md i \<and>
     tiled (i mod 2 ^ 32) (ps_length st) (ps_blocks st) \<and> length (ps_data st) = ps_length st \<and>
     blocks_received st \<le> received (ps_blocks st)"

definition pm_inv :: "PieceManager \<Rightarrow> bool" where
  "pm_inv pm \<longleftrightarrow> bf_inv (pm_bitfield pm) \<and> num_bits (pm_bitfield pm) = cast_size (num_pieces (pm_metadata pm)) \<and>
     (\<forall>i st. in_progress pm i = Some st \<longrightarrow> piece_ok (pm_metadata pm) i st)"

lemma set_piece_sel [simp]:
  "pm_metadata (set_piece pm i st) = pm_metadata pm"
  "pm_bitfield (set_piece pm i st) = pm_bitfield pm"
  "in_progress (set_piece pm i st) = (in_progress pm)(i \<mapsto> st)"
  "piece_at (set_piece pm i st) j = (if j = i then st else piece_at pm j)"
  by (simp_all add: set_piece_def piece_at_def)

lemma set_piece_twice [simp]: "set_piece (set_piece pm i st) i st' = set_piece pm i st'"
  by (simp add: set_piece_def)

text \<open>The state that \<open>init_piece_state\<close> leaves for its piece.\<close>

definition initial_piece :: "TorrentMetadata \<Rightarrow> nat \<Rightarrow> PieceState" where
  "initial_piece md i =
     (let len = get_piece_length md i in
      \<lparr>ps_index = i mod 2 ^ 32, ps_length = len, ps_blocks = make_blocks (i mod 2 ^ 32) len 0,
       ps_data = replicate len 0, blocks_received = 0\<rparr>)"

lemma initial_piece_ok: "piece_ok md i (initial_piece md i)"
  by (simp add: piece_ok_def initial_piece_def Let_def make_blocks_tiled)

definition entered :: "PieceManager \<Rightarrow> nat \<Rightarrow> PieceState" where
  "entered pm i = (case in_progress pm i of None \<Rightarrow> initial_piece (pm_metadata pm) i | Some st \<Rightarrow> st)"

lemma entered_set_piece [simp]: "entered (set_piece pm i st) i = st"
  by (simp add: entered_def)

lemma entered_ok: "pm_inv pm \<Longrightarrow> piece_ok (pm_metadata pm) i (entered pm i)"
  by (auto simp: entered_def pm_inv_def initial_piece_ok split: option.split)

lemma init_piece_state_entered:
  assumes "pm_inv pm"
  shows "init_piece_state pm i = set_piece pm i (entered pm i)"
proof (cases "in_progress pm i")
  case None
  then show ?thesis
    by (simp add: init_piece_state_def entered_def piece_at_def empty_piece_def initial_piece_def Let_def resize_def)
next
  case (Some st)
  show ?thesis
  proof (cases "ps_blocks st = []")
    case True
    have ok: "piece_ok (pm_metadata pm) i st" using assms Some by (auto simp: pm_inv_def)
    with True have "get_piece_length (pm_metadata pm) i = 0" by (auto simp: piece_ok_def tiled_def)
    with ok True Some show ?thesis
      by (cases st) (simp add: init_piece_state_def entered_def piece_at_def Let_def resize_def piece_ok_def
          make_blocks.simps)
  next
    case False
    with Some show ?thesis by (simp add: init_piece_state_def entered_def piece_at_def Let_def)
  qed
qed

lemma get_next_block_entered:
  assumes "pm_inv pm"
  shows "get_next_block pm i =
    (if has_piece pm i then (None, pm)
     else case next_pending (ps_blocks (entered pm i)) of
       Some (b, bs) \<Rightarrow> (Some b, set_piece pm i ((entered pm i)\<lparr>ps_blocks := bs\<rparr>))
     | None \<Rightarrow> (None, set_piece pm i (entered pm i)))"
  by (simp add: get_next_block_def init_piece_state_entered[OF assms] Let_def split: option.split)

lemma block_received_entered:
  assumes "pm_inv pm"
  shows "block_received pm i bgn d =
    (if has_piece pm i then (False, pm)
     else let st = store_block (entered pm i) bgn d in
       (blocks_received st = length (ps_blocks st), set_piece pm i st))"
  by (simp add: block_received_def init_piece_state_entered[OF assms] Let_def)

section \<open>Events\<close>

datatype pm_event =
    NextBlock nat
  | BlockReceived nat nat bytes
  | PieceCompleted nat
  | PieceFailed nat
  | BlockRequestFailed nat nat
  | MarkCompleted nat

fun pm_step :: "PieceManager \<Rightarrow> pm_event \<Rightarrow> PieceManager" where
  "pm_step pm (NextBlock i) = snd (get_next_block pm i)"
| "pm_step pm (BlockReceived i bgn d) = snd (block_received pm i bgn d)"
| "pm_step pm (PieceCompleted i) = piece_completed pm i"
| "pm_step pm (PieceFailed i) = piece_failed pm i"
| "pm_step pm (BlockRequestFailed i bgn) = block_request_failed pm i bgn"
| "pm_step pm (MarkCompleted i) = mark_completed pm i"

definition pm_run :: "TorrentMetadata \<Rightarrow> pm_event list \<Rightarrow> PieceManager" where
  "pm_run md es = foldl pm_step (piece_manager md) es"

text \<open>What one event does to the table of pieces in progress: it changes at most its own entry,
  which is erased, requested from, stored into or given a block back.\<close>

datatype piece_change = Keep | Erase | Update PieceState

definition apply_change :: "PieceManager \<Rightarrow> nat \<Rightarrow> piece_change \<Rightarrow> (nat \<rightharpoonup> PieceState)" where
  "apply_change pm i c =
     (case c of Keep \<Rightarrow> in_progress pm | Erase \<Rightarrow> (in_progress pm)(i := None)
      | Update st \<Rightarrow> (in_progress pm)(i \<mapsto> st))"

fun event_piece :: "pm_event \<Rightarrow> nat" where
  "event_piece (NextBlock i) = i"
| "event_piece (BlockReceived i _ _) = i"
| "event_piece (PieceCompleted i) = i"
| "event_piece (PieceFailed i) = i"
| "event_piece (BlockRequestFailed i _) = i"
| "event_piece (MarkCompleted i) = i"

definition request_next :: "PieceState \<Rightarrow> PieceState" where
  "request_next st = (case next_pending (ps_blocks st) of None \<Rightarrow> st | Some (_, bs) \<Rightarrow> st\<lparr>ps_blocks := bs\<rparr>)"

definition release_block :: "PieceState \<Rightarrow> nat \<Rightarrow> PieceState" where
  "release_block st bgn =
     (case find_block bgn (ps_blocks st) of
        None \<Rightarrow> st
      | Some k \<Rightarrow> if blk_state (ps_blocks st ! k) = Requested
                  then st\<lparr>ps_blocks := set_block_state (ps_blocks st) k Pending\<rparr> else st)"

fun event_change :: "PieceManager \<Rightarrow> pm_event \<Rightarrow> piece_change" where
  "event_change pm (NextBlock i) = (if has_piece pm i then Keep else Update (request_next (entered pm i)))"
| "event_change pm (BlockReceived i bgn d) =
     (if has_piece pm i then Keep else Update (store_block (entered pm i) bgn d))"
| "event_change pm (PieceCompleted i) = Erase"
| "event_change pm (PieceFailed i) = Erase"
| "event_change pm (BlockRequestFailed i bgn) =
     (case in_progress pm i of None \<Rightarrow> Keep | Some st \<Rightarrow> Update (release_block st bgn))"
| "event_change pm (MarkCompleted i) = Keep"

lemma pm_step_in_progress:
  "pm_inv pm \<Longrightarrow> in_progress (pm_step pm e) = apply_change pm (event_piece e) (event_change pm e)"
  by (cases e)
    (auto simp: get_next_block_entered block_received_entered Let_def apply_change_def request_next_def
      release_block_def piece_completed_def piece_failed_def erase_piece_def block_request_failed_def
      mark_completed_def map_upd_triv split: option.splits)

lemma pm_step_metadata [simp]: "pm_metadata (pm_step pm e) = pm_metadata pm"
  by (cases e)
    (auto simp: get_next_block_def block_received_def init_piece_state_def Let_def piece_completed_def
      piece_failed_def erase_piece_def block_request_failed_def mark_completed_def split: option.splits)

lemma pm_step_bitfield:
  "pm_bitfield (pm_step pm e) =
     (case e of PieceCompleted i \<Rightarrow> bf_set (pm_bitfield pm) i True
      | MarkCompleted i \<Rightarrow> bf_set (pm_bitfield pm) i True | _ \<Rightarrow> pm_bitfield pm)"
  by (cases e)
    (auto simp: get_next_block_def block_received_def init_piece_state_def Let_def piece_completed_def
      piece_failed_def erase_piece_def block_request_failed_def mark_completed_def split: option.splits)

text \<open>A change of one piece that neither adds nor removes a received block.\<close>

inductive block_restate :: "PieceState \<Rightarrow> PieceState \<Rightarrow> bool" where
  same: "block_restate st st"
| restate: "k < length (ps_blocks st) \<Longrightarrow> blk_state (ps_blocks st ! k) \<noteq> Received \<Longrightarrow> s \<noteq> Received \<Longrightarrow>
    block_restate st (st\<lparr>ps_blocks := set_block_state (ps_blocks st) k s\<rparr>)"

inductive_cases block_restateE: "block_restate st st'"

lemma request_next_restate: "block_restate st (request_next st)"
  by (auto simp: request_next_def next_pending_Some intro: block_restate.intros split: option.split)

lemma release_block_restate: "block_restate st (release_block st bgn)"
  by (auto simp: release_block_def intro: block_restate.intros dest: find_block_less split: option.split)

lemma event_change_Update:
  "event_change pm e = Update st' \<Longrightarrow>
   block_restate (entered pm (event_piece e)) st' \<or>
   (\<exists>i bgn d. e = BlockReceived i bgn d \<and> \<not> has_piece pm i \<and> st' = store_block (entered pm i) bgn d)"
  by (cases e) (auto simp: request_next_restate release_block_restate entered_def split: if_splits option.splits)

lemma store_block_sel [simp]:
  "ps_index (store_block st bgn d) = ps_index st"
  "ps_length (store_block st bgn d) = ps_length st"
  "length (ps_blocks (store_block st bgn d)) = length (ps_blocks st)"
  "length (ps_data (store_block st bgn d)) = length (ps_data st)"
  "tiled p l (ps_blocks (store_block st bgn d)) \<longleftrightarrow> tiled p l (ps_blocks st)"
  by (auto simp: store_block_def Let_def split: option.split)

lemma store_block_received:
  "blocks_received st \<le> received (ps_blocks st) \<Longrightarrow>
   blocks_received (store_block st bgn d) \<le> received (ps_blocks (store_block st bgn d))"
  by (auto simp: store_block_def Let_def received_set_block_state dest: find_block_less split: option.split)

lemma block_restate_ok: "block_restate st st' \<Longrightarrow> piece_ok md i st \<Longrightarrow> piece_ok md i st'"
  by (erule block_restateE) (auto simp: piece_ok_def received_set_block_state)

lemma store_block_ok: "piece_ok md i st \<Longrightarrow> piece_ok md i (store_block st bgn d)"
  by (auto simp: piece_ok_def store_block_received)

lemma event_change_ok:
  assumes "pm_inv pm" "event_change pm e = Update st'"
  shows "piece_ok (pm_metadata pm) (event_piece e) st'"
  using event_change_Update[OF assms(2)] entered_ok[OF assms(1), of "event_piece e"]
  by (auto intro: block_restate_ok store_block_ok)

lemma pm_step_inv: "pm_inv pm \<Longrightarrow> pm_inv (pm_step pm e)"
proof -
  assume inv: "pm_inv pm"
  have "piece_ok (pm_metadata pm) j st" if "in_progress (pm_step pm e) j = Some st" for j st
    using that inv event_change_ok[OF inv]
    unfolding pm_step_in_progress[OF inv] apply_change_def
    by (auto simp: pm_inv_def split: piece_change.splits if_splits)
  moreover have "bf_inv (pm_bitfield (pm_step pm e))"
    "num_bits (pm_bitfield (pm_step pm e)) = num_bits (pm_bitfield pm)"
    using inv by (auto simp: pm_step_bitfield pm_inv_def bf_inv_set split: pm_event.split)
  ultimately show ?thesis using inv by (auto simp: pm_inv_def)
qed

lemma piece_manager_sel [simp]:
  "pm_metadata (piece_manager md) = md" "in_progress (piece_manager md) = Map.empty"
  "pm_bitfield (piece_manager md) = bitfield_empty (cast_size (num_pieces md))"
  by (simp_all add: piece_manager_def)

lemma pm_inv_init: "pm_inv (piece_manager md)"
  by (simp add: pm_inv_def bf_inv_empty)

interpretation pm: event_invariant pm_step "\<lambda>_. True" "\<lambda>pm. pm_inv pm \<and> pm_metadata pm = md"
  by unfold_locales (simp add: pm_step_inv)

lemma pm_run_inv: "pm_inv (pm_run md es)" "pm_metadata (pm_run md es) = md"
  using pm.inv_run[of "piece_manager md" md es] by (simp_all add: pm_run_def pm_inv_init)

section \<open>Honest histories\<close>

text \<open>\<open>P i\<close> is the content of piece \<open>i\<close>.  A history is honest when every block that is delivered
  at the offset of a block carries that part of the piece; deliveries at other offsets are arbitrary.\<close>

definition block_content :: "bytes \<Rightarrow> nat \<Rightarrow> bytes" where
  "block_content content bgn = take 16384 (drop bgn content)"

fun honest_event :: "(nat \<Rightarrow> bytes) \<Rightarrow> pm_event \<Rightarrow> bool" where
  "honest_event P (BlockReceived i bgn d) \<longleftrightarrow>
     (bgn mod 16384 = 0 \<and> bgn < length (P i) \<longrightarrow> d = block_content (P i) bgn)"
| "honest_event P _ \<longleftrightarrow> True"

definition honest_piece :: "bytes \<Rightarrow> PieceState \<Rightarrow> bool" where
  "honest_piece content st \<longleftrightarrow> blocks_received st = received (ps_blocks st) \<and>
     (\<forall>j < length content. blk_state (ps_blocks st ! (j div 16384)) = Received \<longrightarrow> ps_data st ! j = content ! j)"

definition honest :: "(nat \<Rightarrow> bytes) \<Rightarrow> TorrentMetadata \<Rightarrow> PieceManager \<Rightarrow> bool" where
  "honest P md pm \<longleftrightarrow> pm_inv pm \<and> pm_metadata pm = md \<and>
     (\<forall>i st. in_progress pm i = Some st \<longrightarrow> honest_piece (P i) st)"

lemma div_block_less: "piece_ok md i st \<Longrightarrow> j < ps_length st \<Longrightarrow> j div 16384 < length (ps_blocks st)"
  by (simp add: piece_ok_def tiled_def n_blocks_less div_times_less_eq_dividend[THEN le_less_trans])

lemma honest_initial:
  "get_piece_length md i = length content \<Longrightarrow> honest_piece content (initial_piece md i)"
  by (auto simp: honest_piece_def initial_piece_def Let_def make_blocks_map received_def n_blocks_less
      div_times_less_eq_dividend[THEN le_less_trans])

lemma store_block_at:
  assumes "piece_ok md i st" "k < length (ps_blocks st)"
  shows "store_block st (k * 16384) d =
    (if blk_state (ps_blocks st ! k) \<noteq> Received then
       (if k * 16384 + length d \<le> ps_length st
        then st\<lparr>ps_blocks := set_block_state (ps_blocks st) k Received,
                ps_data := write_at (ps_data st) (k * 16384) d, blocks_received := blocks_received st + 1\<rparr>
        else st\<lparr>ps_blocks := set_block_state (ps_blocks st) k Received\<rparr>)
     else st)"
  using assms find_block_tiled[of _ _ "ps_blocks st" "k * 16384" k]
  by (auto simp: store_block_def Let_def piece_ok_def)

lemma store_block_elsewhere:
  assumes "piece_ok md i st" "\<not> (bgn mod 16384 = 0 \<and> bgn < ps_length st)"
  shows "store_block st bgn d = st"
proof -
  have "find_block bgn (ps_blocks st) = None"
  proof (rule ccontr)
    assume "find_block bgn (ps_blocks st) \<noteq> None"
    then obtain k where "find_block bgn (ps_blocks st) = Some k" by blast
    then have "bgn = k * 16384 \<and> k < length (ps_blocks st)"
      using assms(1) find_block_tiled by (metis piece_ok_def)
    with assms show False by (auto simp: piece_ok_def tiled_def n_blocks_less)
  qed
  then show ?thesis by (simp add: store_block_def)
qed

lemma block_offset:
  assumes "piece_ok md i st" "bgn mod 16384 = 0" "bgn < ps_length st"
  obtains k where "bgn = k * 16384" "k < length (ps_blocks st)"
  using assms by (metis div_block_less mult.commute mult_div_mod_eq add_0_right)

lemma div_block: "(j::nat) div 16384 = k \<longleftrightarrow> k * 16384 \<le> j \<and> j < k * 16384 + 16384"
  by auto

lemma store_block_honest:
  assumes ok: "piece_ok md i st" and h: "honest_piece (P i) st" and len: "ps_length st = length (P i)"
    and ev: "honest_event P (BlockReceived i bgn d)"
  shows "honest_piece (P i) (store_block st bgn d)"
proof (cases "bgn mod 16384 = 0 \<and> bgn < ps_length st")
  case False
  then show ?thesis using store_block_elsewhere[OF ok] h by simp
next
  case True
  then obtain k where k: "bgn = k * 16384" "k < length (ps_blocks st)" using block_offset[OF ok] by metis
  have d: "d = block_content (P i) bgn" using ev True len by simp
  then have fits: "bgn + length d \<le> ps_length st" "length d = min 16384 (length (P i) - bgn)"
    using True len by (auto simp: block_content_def)
  have data: "length (ps_data st) = length (P i)" using ok len by (simp add: piece_ok_def)
  show ?thesis
  proof (cases "blk_state (ps_blocks st ! k) = Received")
    case True
    then show ?thesis using h k by (simp add: store_block_at[OF ok k(2)])
  next
    case False
    have "write_at (ps_data st) bgn d ! j = P i ! j"
      if "j < length (P i)" "j div 16384 \<noteq> k \<longrightarrow> blk_state (ps_blocks st ! (j div 16384)) = Received" for j
    proof (cases "j div 16384 = k")
      case True
      then have "bgn \<le> j" "j < bgn + length d" using that(1) fits k by (auto simp: div_block)
      then show ?thesis using that(1) fits data len d by (simp add: nth_write_at block_content_def)
    next
      case False
      then have "\<not> (bgn \<le> j \<and> j < bgn + length d)" using fits k by (auto simp: div_block)
      with False that h fits data len show ?thesis by (auto simp: nth_write_at honest_piece_def)
    qed
    with False h fits k show ?thesis
      by (auto simp: store_block_at[OF ok k(2)] honest_piece_def received_set_block_state
          set_block_state_nth split: if_splits)
  qed
qed

lemma block_restate_honest: "block_restate st st' \<Longrightarrow> honest_piece content st \<Longrightarrow> honest_piece content st'"
  by (erule block_restateE)
    (auto simp: honest_piece_def received_set_block_state set_block_state_nth split: if_splits)

lemma entered_honest:
  "honest P md pm \<Longrightarrow> get_piece_length md i = length (P i) \<Longrightarrow> honest_piece (P i) (entered pm i)"
  by (auto simp: honest_def entered_def honest_initial split: option.split)

lemma pm_step_honest:
  assumes h: "honest P md pm" and len: "\<forall>i. get_piece_length md i = length (P i)" and ev: "honest_event P e"
  shows "honest P md (pm_step pm e)"
proof -
  have inv: "pm_inv pm" and md: "pm_metadata pm = md" using h by (auto simp: honest_def)
  let ?i = "event_piece e"
  have ok: "piece_ok md ?i (entered pm ?i)" using entered_ok[OF inv] md by auto
  then have l: "ps_length (entered pm ?i) = length (P ?i)" using len by (simp add: piece_ok_def)
  have "honest_piece (P ?i) st'" if "event_change pm e = Update st'" for st'
    using event_change_Update[OF that] entered_honest[OF h] len
      store_block_honest[of md ?i "entered pm ?i" P] ok l ev
    by (auto intro: block_restate_honest)
  then have "honest_piece (P j) st" if "in_progress (pm_step pm e) j = Some st" for j st
    using that h unfolding pm_step_in_progress[OF inv] apply_change_def
    by (auto simp: honest_def split: piece_change.splits if_splits)
  then show ?thesis using pm_step_inv[OF inv] md by (simp add: honest_def)
qed

lemma honest_init: "honest P md (piece_manager md)"
  by (simp add: honest_def pm_inv_init)

interpretation honest: event_invariant pm_step "honest_event P"
  "\<lambda>pm. (\<forall>i. get_piece_length md i = length (P i)) \<and> honest P md pm"
  by unfold_locales (simp add: pm_step_honest)

lemma pm_run_honest:
  "\<forall>i. get_piece_length md i = length (P i) \<Longrightarrow> \<forall>e\<in>set es. honest_event P e \<Longrightarrow> honest P md (pm_run md es)"
  using honest.inv_run[of md P "piece_manager md" es] by (simp add: pm_run_def honest_init)

text \<open>The block numbers received so far.\<close>

definition recv_set :: "PieceState \<Rightarrow> nat set" where
  "recv_set st = {k. k < length (ps_blocks st) \<and> blk_state (ps_blocks st ! k) = Received}"

lemma recv_set_full: "received (ps_blocks st) = length (ps_blocks st) \<longleftrightarrow> recv_set st = {..<length (ps_blocks st)}"
  unfolding received_full all_set_conv_all_nth recv_set_def by auto

lemma recv_set_initial [simp]: "recv_set (initial_piece md i) = {}"
  by (auto simp: recv_set_def initial_piece_def Let_def make_blocks_map)

lemma recv_set_store:
  "piece_ok md i st \<Longrightarrow> k < length (ps_blocks st) \<Longrightarrow> recv_set (store_block st (k * 16384) d) = insert k (recv_set st)"
  by (auto simp: store_block_at recv_set_def set_block_state_nth split: if_splits)

lemma recv_set_store_beyond:
  assumes "piece_ok md i st" "\<not> k < length (ps_blocks st)"
  shows "store_block st (k * 16384) d = st"
  using assms by (intro store_block_elsewhere[OF assms(1)]) (auto simp: piece_ok_def tiled_def n_blocks_less)

lemma piece_ok_blocks: "piece_ok md i st \<Longrightarrow> length (ps_blocks st) = n_blocks (get_piece_length md i)"
  by (simp add: piece_ok_def tiled_def)

lemma honest_complete:
  assumes "piece_ok md i st" "honest_piece content st" "ps_length st = length content"
  shows "blocks_received st = length (ps_blocks st) \<longleftrightarrow> recv_set st = {..<length (ps_blocks st)}"
    and "recv_set st = {..<length (ps_blocks st)} \<Longrightarrow> ps_data st = content"
proof -
  show "blocks_received st = length (ps_blocks st) \<longleftrightarrow> recv_set st = {..<length (ps_blocks st)}"
    using assms(2) recv_set_full by (simp add: honest_piece_def)
next
  assume full: "recv_set st = {..<length (ps_blocks st)}"
  have "ps_data st ! j = content ! j" if "j < length content" for j
  proof -
    have "j div 16384 \<in> recv_set st" using div_block_less[OF assms(1), of j] that assms(3) full by simp
    then show ?thesis using assms(2) that by (simp add: recv_set_def honest_piece_def)
  qed
  then show "ps_data st = content" using assms by (intro nth_equalityI) (auto simp: piece_ok_def)
qed

text \<open>The outcome of one honest delivery.\<close>

lemma block_received_honest:
  assumes h: "honest P md pm" and len: "\<forall>i. get_piece_length md i = length (P i)"
    and ev: "honest_event P (BlockReceived i bgn d)" and r: "block_received pm i bgn d = (True, pm')"
  shows "get_piece_data pm' i = P i"
proof -
  have inv: "pm_inv pm" and md: "pm_metadata pm = md" using h by (auto simp: honest_def)
  let ?st = "store_block (entered pm i) bgn d"
  have nh: "\<not> has_piece pm i" and full: "blocks_received ?st = length (ps_blocks ?st)"
    and pm': "pm' = set_piece pm i ?st"
    using r by (auto simp: block_received_entered[OF inv] Let_def split: if_splits)
  have ok: "piece_ok md i (entered pm i)" using entered_ok[OF inv] md by auto
  have l: "ps_length (entered pm i) = length (P i)" using ok len by (simp add: piece_ok_def)
  have "honest_piece (P i) ?st"
    using entered_honest[OF h] len l ev by (intro store_block_honest[OF ok]) auto
  from honest_complete[OF store_block_ok[OF ok] this] l full show ?thesis
    by (simp add: pm' get_piece_data_def)
qed

definition deliver :: "(nat \<Rightarrow> bytes) \<Rightarrow> nat \<Rightarrow> nat \<Rightarrow> pm_event" where
  "deliver P i k = BlockReceived i (k * 16384) (block_content (P i) (k * 16384))"

lemma honest_deliver [simp]: "honest_event P (deliver P i k)"
  by (simp add: deliver_def)

lemma pm_run_snoc: "pm_run md (es @ [e]) = pm_step (pm_run md es) e"
  by (simp add: pm_run_def)

lemma deliver_run:
  fixes i :: nat and P :: "nat \<Rightarrow> bytes" and md :: TorrentMetadata
  assumes len: "\<forall>i. get_piece_length md i = length (P i)"
  defines "pm ks \<equiv> pm_run md (map (deliver P i) ks)"
  shows "\<not> has_piece (pm ks) i \<and> recv_set (entered (pm ks) i) = set ks \<inter> {..<n_blocks (length (P i))}"
proof (induction ks rule: rev_induct)
  case Nil
  then show ?case
    by (simp add: pm_def pm_run_def has_piece_def bitset.mem_empty entered_def)
next
  case (snoc k ks)
  note inv = pm_run_inv[of md "map (deliver P i) ks", folded pm_def]
  have ok: "piece_ok md i (entered (pm ks) i)" using entered_ok[OF inv(1)] inv(2) by auto
  have blocks: "length (ps_blocks (entered (pm ks) i)) = n_blocks (length (P i))"
    using piece_ok_blocks[OF ok] len by simp
  have step: "pm (ks @ [k]) = snd (block_received (pm ks) i (k * 16384) (block_content (P i) (k * 16384)))"
    by (simp add: pm_def pm_run_snoc) (simp add: deliver_def)
  show ?case
    using snoc recv_set_store[OF ok, of k] recv_set_store_beyond[OF ok, of k] blocks
    by (cases "k < n_blocks (length (P i))")
      (simp_all add: step block_received_entered[OF inv(1)] Let_def has_piece_def)
qed

lemma block_range_append:
  "(\<And>k. k < n \<Longrightarrow> f k \<le> f (Suc k)) \<Longrightarrow> f 0 = (0::nat) \<Longrightarrow> concat (map (\<lambda>k. [f k..<f (Suc k)]) [0..<n]) = [0..<f n]"
proof (induction n)
  case (Suc n)
  then show ?case using upt_add_eq_append[of 0 "f n" "f (Suc n) - f n"] by simp
qed simp

lemma tiled_ranges:
  assumes "tiled p len bs"
  shows "concat (map (\<lambda>b. [blk_begin b..<blk_begin b + blk_length b]) bs) = [0..<len]"
proof -
  let ?f = "\<lambda>k. min (k * 16384) len"
  have "map (\<lambda>b. [blk_begin b..<blk_begin b + blk_length b]) bs = map (\<lambda>k. [?f k..<?f (Suc k)]) [0..<n_blocks len]"
  proof (rule nth_equalityI)
    fix k assume "k < length (map (\<lambda>b. [blk_begin b..<blk_begin b + blk_length b]) bs)"
    with assms show "map (\<lambda>b. [blk_begin b..<blk_begin b + blk_length b]) bs ! k =
        map (\<lambda>k. [?f k..<?f (Suc k)]) [0..<n_blocks len] ! k"
      by (simp add: tiled_def n_blocks_less) (simp add: min_def add.commute)
  qed (use assms in \<open>simp add: tiled_def\<close>)
  moreover have "?f (n_blocks len) = len"
    using n_blocks_less[of "n_blocks len" len] by simp
  ultimately show ?thesis
    using block_range_append[of "n_blocks len" ?f] by (simp add: min_def)
qed

section \<open>Pieces that can no longer complete\<close>

definition miscounted :: "nat \<Rightarrow> PieceManager \<Rightarrow> bool" where
  "miscounted i pm \<longleftrightarrow> pm_inv pm \<and>
     (\<exists>st. in_progress pm i = Some st \<and> blocks_received st < received (ps_blocks st))"

lemma store_block_miscounted:
  "blocks_received st < received (ps_blocks st) \<Longrightarrow>
   blocks_received (store_block st bgn d) < received (ps_blocks (store_block st bgn d))"
  by (auto simp: store_block_def Let_def received_set_block_state dest: find_block_less split: option.split)

lemma block_restate_miscounted:
  "block_restate st st' \<Longrightarrow> blocks_received st < received (ps_blocks st) \<Longrightarrow>
   blocks_received st' < received (ps_blocks st')"
  by (erule block_restateE) (auto simp: received_set_block_state)

lemma pm_step_miscounted:
  assumes "miscounted i pm" "e \<noteq> PieceCompleted i" "e \<noteq> PieceFailed i"
  shows "miscounted i (pm_step pm e)"
proof -
  from assms(1) obtain st where inv: "pm_inv pm" and st: "in_progress pm i = Some st"
    and m: "blocks_received st < received (ps_blocks st)"
    by (auto simp: miscounted_def)
  have up: "blocks_received st' < received (ps_blocks st')" if "event_change pm e = Update st'" "event_piece e = i" for st'
    using event_change_Update[OF that(1)] that(2) st m
    by (auto simp: entered_def intro: block_restate_miscounted store_block_miscounted)
  have "event_change pm e \<noteq> Erase" if "event_piece e = i"
    using that assms by (cases e) (auto split: option.splits)
  then show ?thesis
    using pm_step_inv[OF inv] up m st
    unfolding miscounted_def pm_step_in_progress[OF inv] apply_change_def
    by (auto split: piece_change.split)
qed

interpretation miscounted: event_invariant pm_step
  "\<lambda>e. e \<noteq> PieceCompleted i \<and> e \<noteq> PieceFailed i" "miscounted i"
  by unfold_locales (simp add: pm_step_miscounted)

lemma miscounted_incomplete: "miscounted i pm \<Longrightarrow> \<not> fst (block_received pm i bgn d)"
proof -
  assume "miscounted i pm"
  then obtain st where inv: "pm_inv pm" and st: "in_progress pm i = Some st"
    and m: "blocks_received st < received (ps_blocks st)"
    by (auto simp: miscounted_def)
  show ?thesis
    using store_block_miscounted[OF m, of bgn d] received_le[of "ps_blocks (store_block st bgn d)"] st
    by (auto simp: block_received_entered[OF inv] Let_def entered_def)
qed

section \<open>Piece lengths\<close>

lemma piece_lengths_sum:
  assumes "0 < piece_length md" "piece_length md < 2 ^ 32" "0 < n" "n < 2 ^ 31" "num_pieces md = int n"
    "(int n - 1) * piece_length md < total_length md" "total_length md \<le> int n * piece_length md"
  shows "(\<Sum>i<n. get_piece_length md i) = nat (total_length md)"
proof -
  obtain m where n: "n = Suc m" using assms(3) by (cases n) auto
  have full: "get_piece_length md i = nat (piece_length md)" if "i < m" for i
    using that assms n by (simp add: get_piece_length_def cast_size_def cast_uint32_def)
  have rest: "0 < total_length md - int m * piece_length md"
    "total_length md - int m * piece_length md \<le> piece_length md"
    using assms(6,7) by (simp_all add: n algebra_simps)
  have last: "get_piece_length md m = nat (total_length md - int m * piece_length md)"
    using rest assms n by (simp add: get_piece_length_def cast_size_def cast_uint32_def)
  have "(\<Sum>i<m. get_piece_length md i) = m * nat (piece_length md)" using full by simp
  moreover have "int (m * nat (piece_length md)) = int m * piece_length md" using assms(1) by simp
  ultimately have "int (\<Sum>i<n. get_piece_length md i) = total_length md" using rest last by (simp add: n)
  then show ?thesis by linarith
qed

section \<open>Correctness\<close>

text \<open>C23: after any history of operations, the blocks of a piece in progress cover its buffer exactly once
  and in order, each has at most 16384 bytes and the buffer has the length of the piece; no more blocks
  are counted than are marked received.\<close>

theorem pm_run_geometry:
  assumes "in_progress (pm_run md es) i = Some st"
  shows "concat (map (\<lambda>b. [blk_begin b..<blk_begin b + blk_length b]) (ps_blocks st)) = [0..<get_piece_length md i] \<and>
    (\<forall>b\<in>set (ps_blocks st). 0 < blk_length b \<and> blk_length b \<le> 16384) \<and>
    length (ps_data st) = get_piece_length md i \<and> blocks_received st \<le> received (ps_blocks st)"
proof -
  have ok: "piece_ok md i st" using assms pm_run_inv[of md es] by (auto simp: pm_inv_def)
  then have t: "tiled (i mod 2 ^ 32) (get_piece_length md i) (ps_blocks st)" by (metis piece_ok_def)
  have "\<forall>b\<in>set (ps_blocks st). 0 < blk_length b \<and> blk_length b \<le> 16384"
    using t by (auto simp: tiled_def in_set_conv_nth n_blocks_less)
  with ok tiled_ranges[OF t] show ?thesis by (auto simp: piece_ok_def)
qed

definition demo_md :: "nat \<Rightarrow> TorrentMetadata" where
  "demo_md len = \<lparr>md_name = [102], announce_url = [117], announce_list = [[117]], piece_length = int len,
     total_length = int len, num_pieces = 1, piece_hashes = [replicate 20 9],
     md_files = [\<lparr>fi_path = [102], fi_length = int len, fi_offset = 0\<rparr>], info_hash = replicate 20 7\<rparr>"

lemma demo_length: "len < 2 ^ 32 \<Longrightarrow> get_piece_length (demo_md len) i = (if i = 0 then len else 0)"
  by (auto simp: get_piece_length_def demo_md_def cast_size_def cast_uint32_def)

theorem pm_run_geometry_witness:
  "\<exists>st. in_progress (pm_run (demo_md 5) [NextBlock 0]) 0 = Some st \<and> length (ps_data st) = 5"
proof -
  have "\<exists>st. in_progress (pm_run (demo_md 5) [NextBlock 0]) 0 = Some st"
    by (simp add: pm_run_def pm_step_in_progress[OF pm_inv_init] apply_change_def has_piece_def bitset.mem_empty
        del: pm_step.simps)
  then obtain st where st: "in_progress (pm_run (demo_md 5) [NextBlock 0]) 0 = Some st" by blast
  show ?thesis using pm_run_geometry[OF st] st by (simp add: demo_length)
qed

text \<open>C7: in any history in which deliveries at block offsets are honest, however they are interleaved with
  requests, request failures, duplicate deliveries, deliveries at meaningless offsets and restarts, a
  delivery that \<^verbatim>\<open>block_received\<close> reports as completing the piece leaves exactly the content of
  the piece in the buffer, and \<^verbatim>\<open>validate_piece\<close> compares the SHA-1 of that content.\<close>

theorem block_received_assembles:
  assumes "\<forall>i. length (P i) = get_piece_length md i" "\<forall>e\<in>set es. honest_event P e"
    "honest_event P (BlockReceived i bgn d)" "block_received (pm_run md es) i bgn d = (True, pm')"
    "i < length (piece_hashes md)"
  shows "get_piece_data pm' i = P i \<and> validate_piece sha1 pm' i = Inr (sha1 (P i) = piece_hashes md ! i)"
proof -
  have h: "honest P md (pm_run md es)" using assms(1,2) by (intro pm_run_honest) auto
  have data: "get_piece_data pm' i = P i" using assms by (intro block_received_honest[OF h]) auto
  have "in_progress pm' i \<noteq> None \<and> pm_metadata pm' = md"
    using assms(4) pm_run_inv[of md es] by (auto simp: block_received_entered Let_def split: if_splits)
  with data assms(5) show ?thesis
    by (auto simp: validate_piece_def get_piece_data_def read_at_def split: option.splits)
qed

theorem block_received_assembles_witness:
  "\<exists>pm'. block_received (pm_run (demo_md 5) []) 0 0 [1, 2, 3, 4, 5] = (True, pm') \<and>
     get_piece_data pm' 0 = [1, 2, 3, 4, 5]"
proof -
  let ?P = "\<lambda>i::nat. if i = 0 then [1, 2, 3, 4, 5] else [] :: bytes"
  have "\<exists>pm'. block_received (pm_run (demo_md 5) []) 0 0 [1, 2, 3, 4, 5] = (True, pm')"
    by (simp add: pm_run_def block_received_entered[OF pm_inv_init] has_piece_def bitset.mem_empty entered_def
        initial_piece_def demo_length Let_def make_blocks.simps store_block_def)
  then obtain pm' where r: "block_received (pm_run (demo_md 5) []) 0 0 [1, 2, 3, 4, 5] = (True, pm')" by blast
  have "get_piece_data pm' 0 = ?P 0"
    using block_received_assembles[of ?P "demo_md 5" "[]" 0 0 "[1, 2, 3, 4, 5]" pm', OF _ _ _ r]
    by (simp add: demo_length block_content_def) (simp add: demo_md_def)
  with r show ?thesis by simp
qed

text \<open>C16: when the blocks of a piece are delivered honestly in any order, with any repetitions, to a fresh
  manager, \<^verbatim>\<open>block_received\<close> answers true exactly when the last missing block arrives.\<close>

theorem block_received_any_order:
  assumes "\<forall>i. length (P i) = get_piece_length md i"
  shows "fst (block_received (pm_run md (map (deliver P i) ks)) i (k * 16384) (block_content (P i) (k * 16384)))
    \<longleftrightarrow> {..<n_blocks (length (P i))} \<subseteq> set (k # ks)"
proof -
  let ?pm = "pm_run md (map (deliver P i) ks)" and ?d = "block_content (P i) (k * 16384)"
  have len: "\<forall>i. get_piece_length md i = length (P i)" using assms by simp
  have h: "honest P md ?pm" using len by (intro pm_run_honest) auto
  then have inv: "pm_inv ?pm" and md: "pm_metadata ?pm = md" by (auto simp: honest_def)
  have ok: "piece_ok md i (entered ?pm i)" using entered_ok[OF inv] md by auto
  have l: "ps_length (entered ?pm i) = length (P i)" using ok len by (simp add: piece_ok_def)
  have "honest_piece (P i) (store_block (entered ?pm i) (k * 16384) ?d)"
    using entered_honest[OF h] len l by (intro store_block_honest[OF ok]) auto
  note complete = honest_complete(1)[OF store_block_ok[OF ok] this]
  show ?thesis
    using deliver_run[OF len, of i ks] complete l recv_set_store[OF ok, of k] recv_set_store_beyond[OF ok, of k]
      piece_ok_blocks[OF ok] len
    by (cases "k < n_blocks (length (P i))") (auto simp: block_received_entered[OF inv] Let_def)
qed

theorem block_received_any_order_witness:
  "fst (block_received (pm_run (demo_md 5) (map (deliver (\<lambda>i. if i = 0 then [1, 2, 3, 4, 5] else []) 0) [])) 0 (0 * 16384)
     (block_content [1, 2, 3, 4, 5] (0 * 16384)))"
  using block_received_any_order[of "\<lambda>i. if i = 0 then [1, 2, 3, 4, 5] else []" "demo_md 5" 0 "[]" 0]
  by (simp add: demo_length n_blocks_def lessThan_Suc)

text \<open>C37: a delivery that is too long for the buffer marks its block as received without storing it or
  counting it; from then on, whatever else is delivered or requested, the piece is never reported
  complete until it is erased, and the block is never requested again.\<close>

theorem oversize_block_blocks_piece:
  assumes "k < n_blocks (get_piece_length md i)" "get_piece_length md i < k * 16384 + length d"
    "\<not> has_piece (pm_run md es) i" "k \<notin> recv_set (entered (pm_run md es) i)"
    "PieceCompleted i \<notin> set fs" "PieceFailed i \<notin> set fs"
  shows "\<not> fst (block_received (pm_run md (es @ BlockReceived i (k * 16384) d # fs)) i bgn' d')"
proof -
  let ?pm = "pm_run md es"
  have inv: "pm_inv ?pm" and md: "pm_metadata ?pm = md" by (rule pm_run_inv)+
  have ok: "piece_ok md i (entered ?pm i)" using entered_ok[OF inv] md by auto
  have k: "k < length (ps_blocks (entered ?pm i))" using piece_ok_blocks[OF ok] assms(1) by simp
  have st: "in_progress (pm_step ?pm (BlockReceived i (k * 16384) d)) i =
      Some ((entered ?pm i)\<lparr>ps_blocks := set_block_state (ps_blocks (entered ?pm i)) k Received\<rparr>)"
    using assms ok k
    by (auto simp: block_received_entered[OF inv] Let_def store_block_at[OF ok k] recv_set_def piece_ok_def)
  have "miscounted i (pm_step ?pm (BlockReceived i (k * 16384) d))"
    using pm_step_inv[OF inv] st ok k assms(4)
    by (auto simp: miscounted_def received_set_block_state recv_set_def piece_ok_def less_Suc_eq_le
        simp del: pm_step.simps)
  then have "miscounted i (foldl pm_step (pm_step ?pm (BlockReceived i (k * 16384) d)) fs)"
    using assms(5,6) by (intro miscounted.inv_run) auto
  then show ?thesis
    using miscounted_incomplete by (simp add: pm_run_def del: pm_step.simps)
qed

theorem oversize_block_blocks_piece_witness:
  "\<not> fst (block_received (pm_run (demo_md 5) ([] @ BlockReceived 0 (0 * 16384) (replicate 6 1) # [])) 0 0 [1, 2, 3, 4, 5])"
  using oversize_block_blocks_piece[of 0 "demo_md 5" 0 "replicate 6 1" "[]" "[]" 0 "[1, 2, 3, 4, 5]"]
  by (simp add: demo_length n_blocks_def pm_run_def has_piece_def bitset.mem_empty entered_def)

text \<open>C38: a block for a piece number beyond the torrent is reported as completing its piece, and validating
  that piece reads past the end of the array of hashes.\<close>

theorem block_received_beyond:
  assumes "cast_size (num_pieces md) \<le> i" "length (piece_hashes md) \<le> i"
  shows "\<exists>pm'. block_received (pm_run md es) i bgn d = (True, pm') \<and> validate_piece sha1 pm' i = Inl OutOfBounds"
proof -
  let ?pm = "pm_run md es"
  have inv: "pm_inv ?pm" and md: "pm_metadata ?pm = md" by (rule pm_run_inv)+
  have "num_bits (pm_bitfield ?pm) = cast_size (num_pieces md)" using inv md by (simp add: pm_inv_def)
  then have nh: "\<not> has_piece ?pm i" using assms(1) by (simp add: has_piece_def bf_has_bit)
  have ok: "piece_ok md i (entered ?pm i)" using entered_ok[OF inv] md by auto
  moreover have "get_piece_length md i = 0" using assms(1) by (simp add: get_piece_length_def)
  ultimately have "length (ps_blocks (store_block (entered ?pm i) bgn d)) = 0"
    "blocks_received (store_block (entered ?pm i) bgn d) = 0"
    using piece_ok_blocks[OF ok] store_block_elsewhere[OF ok, of bgn d] by (auto simp: piece_ok_def)
  then show ?thesis
    using nh assms(2) by (auto simp: block_received_entered[OF inv] Let_def validate_piece_def read_at_def md)
qed

theorem block_received_beyond_witness:
  "\<exists>pm'. block_received (pm_run (demo_md 5) []) 1 0 [] = (True, pm') \<and>
     validate_piece (\<lambda>_. []) pm' 1 = Inl OutOfBounds"
  using block_received_beyond[of "demo_md 5" 1 "[]" 0 "[]" "\<lambda>_. []"] by (simp add: demo_md_def cast_size_def)

text \<open>\<^verbatim>\<open>has_pending_blocks\<close> predicts for every non-empty piece whether \<^verbatim>\<open>get_next_block\<close>
  hands out a block.\<close>

theorem has_pending_blocks_iff:
  assumes "0 < get_piece_length md i"
  shows "has_pending_blocks (pm_run md es) i \<longleftrightarrow> fst (get_next_block (pm_run md es) i) \<noteq> None"
proof -
  note inv = pm_run_inv[of md es]
  have "\<exists>b\<in>set (ps_blocks (initial_piece md i)). blk_state b = Pending"
    using assms by (auto simp: initial_piece_def Let_def make_blocks_map n_blocks_less intro!: exI[of _ 0])
  then show ?thesis
    using next_pending_None[of "ps_blocks (entered (pm_run md es) i)"] inv(2)
    by (auto simp: has_pending_blocks_def get_next_block_entered[OF inv(1)] entered_def list_ex_iff
        split: option.splits)
qed

theorem has_pending_blocks_iff_witness:
  "fst (get_next_block (pm_run (demo_md 5) []) 0) \<noteq> None"
  using has_pending_blocks_iff[of "demo_md 5" 0 "[]"]
  by (simp add: demo_length has_pending_blocks_def pm_run_def has_piece_def bitset.mem_empty)

text \<open>The block that \<^verbatim>\<open>get_next_block\<close> hands out is the first pending one of its piece: it becomes
  requested, and no other block, piece or completed bit changes.\<close>

theorem get_next_block_first:
  assumes "get_next_block (pm_run md es) i = (Some b, pm')"
  shows "\<exists>k < n_blocks (get_piece_length md i).
    blk_begin b = k * 16384 \<and> blk_length b = min 16384 (get_piece_length md i - k * 16384) \<and>
    blk_state (ps_blocks (entered (pm_run md es) i) ! k) = Pending \<and>
    (\<forall>j < k. blk_state (ps_blocks (entered (pm_run md es) i) ! j) \<noteq> Pending) \<and>
    in_progress pm' = (in_progress (pm_run md es))
      (i \<mapsto> (entered (pm_run md es) i)\<lparr>ps_blocks := (ps_blocks (entered (pm_run md es) i))[k := b]\<rparr>) \<and>
    blk_state b = Requested \<and> pm_bitfield pm' = pm_bitfield (pm_run md es)"
proof -
  let ?pm = "pm_run md es"
  note inv = pm_run_inv[of md es]
  have ok: "piece_ok md i (entered ?pm i)" using entered_ok[OF inv(1)] inv(2) by auto
  from assms obtain bs where np: "next_pending (ps_blocks (entered ?pm i)) = Some (b, bs)"
    and pm': "pm' = set_piece ?pm i ((entered ?pm i)\<lparr>ps_blocks := bs\<rparr>)"
    by (auto simp: get_next_block_entered[OF inv(1)] split: if_splits option.splits)
  from np obtain k where k: "k < length (ps_blocks (entered ?pm i))"
    "blk_state (ps_blocks (entered ?pm i) ! k) = Pending"
    "\<forall>j < k. blk_state (ps_blocks (entered ?pm i) ! j) \<noteq> Pending"
    "b = (ps_blocks (entered ?pm i) ! k)\<lparr>blk_state := Requested\<rparr>"
    "bs = set_block_state (ps_blocks (entered ?pm i)) k Requested"
    by (auto simp: next_pending_Some)
  with ok show ?thesis
    by (intro exI[of _ k]) (auto simp: pm' set_block_state_def piece_ok_def tiled_def)
qed

theorem get_next_block_first_witness:
  "\<exists>b pm'. get_next_block (pm_run (demo_md 5) []) 0 = (Some b, pm') \<and> blk_begin b = 0 \<and> blk_length b = 5"
proof -
  have "\<exists>b pm'. get_next_block (pm_run (demo_md 5) []) 0 = (Some b, pm')"
    by (simp add: pm_run_def get_next_block_entered[OF pm_inv_init] has_piece_def bitset.mem_empty entered_def
        initial_piece_def demo_length Let_def make_blocks.simps)
  then obtain b pm' where r: "get_next_block (pm_run (demo_md 5) []) 0 = (Some b, pm')" by blast
  show ?thesis using get_next_block_first[OF r] r by (auto simp: demo_length n_blocks_def)
qed

text \<open>For metadata accepted by \<^verbatim>\<open>from_bencode\<close> with a positive piece length below 4 GiB, fewer than
  \<open>2\<^sup>31\<close> pieces and a positive total, the piece lengths computed by \<^verbatim>\<open>get_piece_length\<close> add up
  to the total length.\<close>

theorem get_piece_length_sum:
  assumes "from_bencode sha1 data = Inr md" "0 < piece_length md" "piece_length md < 2 ^ 32" "0 < total_length md"
    "length (piece_hashes md) < 2 ^ 31"
  shows "(\<Sum>i<length (piece_hashes md). get_piece_length md i) = nat (total_length md)"
proof -
  note cover = from_bencode_cover[OF assms(1,2)]
  have "0 < length (piece_hashes md)" using cover(2) assms(4) by (cases "piece_hashes md") auto
  moreover have "num_pieces md = int (length (piece_hashes md))"
    using cover(3) assms(4,5) by (simp add: cast_int32_def)
  ultimately show ?thesis using assms cover by (intro piece_lengths_sum) auto
qed

theorem get_piece_length_sum_witness:
  "\<exists>md. from_bencode (\<lambda>_. replicate 20 7)
      (encode (single_file_torrent [117] [102] 7 4 (concat [replicate 20 9, replicate 20 5]))) = Inr md \<and>
    (\<Sum>i<2. get_piece_length md i) = 7"
proof -
  let ?d = "encode (single_file_torrent [117] [102] 7 4 (concat [replicate 20 9, replicate 20 5]))"
  have wf: "bencode_wf (single_file_torrent [117] [102] 7 4 (concat [replicate 20 9, replicate 20 5]))"
    by (simp add: single_file_torrent_def)
  have "\<exists>md. from_bencode (\<lambda>_. replicate 20 7) ?d = Inr md \<and> piece_length md = 4 \<and>
      total_length md = 7 \<and> length (piece_hashes md) = 2"
    by (subst from_bencode_single_file[OF wf])
      (simp_all add: calculated_pieces_def int64_def div64_def)
  then obtain md where md: "from_bencode (\<lambda>_. replicate 20 7) ?d = Inr md" "piece_length md = 4"
    "total_length md = 7" "length (piece_hashes md) = 2" by blast
  show ?thesis using get_piece_length_sum[OF md(1)] md by auto
qed

end
