(* ===== verification/Piece_Picker.thy ===== *)
theory Piece_Picker
  imports Bitfields
begin

text \<open>
  The piece picker (\<^verbatim>\<open>include/piece_picker.hpp\<close>, \<^verbatim>\<open>src/piece_picker.cpp\<close>): a histogram of how many
  peers have each piece, and the choice of the next piece: random while few pieces are
  owned, rarest first afterwards.  The counters are 32-bit words and wrap as
  \<^verbatim>\<open>fetch_add\<close> does; the engine is single threaded, so the compare-exchange loops succeed at
  once.  The generator and \<^verbatim>\<open>std::uniform_int_distribution\<close> are the parameter \<open>draw\<close>: it takes
  a generator state and the number of choices.
\<close>

section \<open>State\<close>

record 'g PiecePicker =
  pp_num_pieces :: nat
  availability_histogram :: "u32 list"
  pp_rng :: 'g

type_synonym 'g draw = "'g \<Rightarrow> nat \<Rightarrow> nat \<times> 'g"

text \<open>What the distribution promises: a number within its bounds.\<close>

definition draw_in_range :: "'g draw \<Rightarrow> bool" where
  "draw_in_range draw \<longleftrightarrow> (\<forall>g n. 0 < n \<longrightarrow> fst (draw g n) < n)"

section \<open>Operations\<close>

definition piece_picker :: "nat \<Rightarrow> 'g \<Rightarrow> 'g PiecePicker" where
  "piece_picker n seed = \<lparr>pp_num_pieces = n, availability_histogram = replicate n 0, pp_rng = seed\<rparr>"

definition fetch_add_one :: "u32 list \<Rightarrow> nat \<Rightarrow> u32 list" where
  "fetch_add_one h i = h[i := h ! i + 1]"

definition decrement :: "u32 list \<Rightarrow> nat \<Rightarrow> u32 list" where
  "decrement h i = (if h ! i > 0 then h[i := h ! i - 1] else h)"

definition add_availability :: "'g PiecePicker \<Rightarrow> nat \<Rightarrow> 'g PiecePicker" where
  "add_availability pp i =
     (if i \<ge> pp_num_pieces pp then pp
      else pp\<lparr>availability_histogram := fetch_add_one (availability_histogram pp) i\<rparr>)"

definition remove_availability :: "'g PiecePicker \<Rightarrow> nat \<Rightarrow> 'g PiecePicker" where
  "remove_availability pp i =
     (if i \<ge> pp_num_pieces pp then pp
      else pp\<lparr>availability_histogram := decrement (availability_histogram pp) i\<rparr>)"

definition bitfield_loop :: "(u32 list \<Rightarrow> nat \<Rightarrow> u32 list) \<Rightarrow> Bitfield \<Rightarrow> nat \<Rightarrow> u32 list \<Rightarrow> u32 list" where
  "bitfield_loop f b n h =
     fold (\<lambda>i h. if bf_has b i then f h i else h) [0..<min n (num_bits b)] h"

definition add_peer_bitfield :: "'g PiecePicker \<Rightarrow> Bitfield \<Rightarrow> 'g PiecePicker" where
  "add_peer_bitfield pp b =
     pp\<lparr>availability_histogram := bitfield_loop fetch_add_one b (pp_num_pieces pp) (availability_histogram pp)\<rparr>"

definition remove_peer_bitfield :: "'g PiecePicker \<Rightarrow> Bitfield \<Rightarrow> 'g PiecePicker" where
  "remove_peer_bitfield pp b =
     pp\<lparr>availability_histogram := bitfield_loop decrement b (pp_num_pieces pp) (availability_histogram pp)\<rparr>"

definition candidates :: "nat \<Rightarrow> Bitfield \<Rightarrow> Bitfield \<Rightarrow> nat list" where
  "candidates n peer_bitfield our_bitfield =
     filter (\<lambda>i. bf_has peer_bitfield i \<and> \<not> bf_has our_bitfield i) [0..<n]"

fun rarest_loop :: "u32 list \<Rightarrow> nat list \<Rightarrow> u32 \<Rightarrow> nat list \<Rightarrow> nat list" where
  "rarest_loop h [] min_avail rarest = rarest"
| "rarest_loop h (idx # cs) min_avail rarest =
     (let avail = h ! idx in
      if avail < min_avail then rarest_loop h cs avail [idx]
      else if avail = min_avail then rarest_loop h cs min_avail (rarest @ [idx])
      else rarest_loop h cs min_avail rarest)"

definition random_choice :: "'g draw \<Rightarrow> nat list \<Rightarrow> 'g PiecePicker \<Rightarrow> nat option \<times> 'g PiecePicker" where
  "random_choice draw cs pp = (let (k, g) = draw (pp_rng pp) (length cs) in (Some (cs ! k), pp\<lparr>pp_rng := g\<rparr>))"

definition pick_piece ::
  "'g draw \<Rightarrow> 'g PiecePicker \<Rightarrow> Bitfield \<Rightarrow> Bitfield \<Rightarrow> nat option \<times> 'g PiecePicker" where
  "pick_piece draw pp peer_bitfield our_bitfield =
     (let cs = candidates (pp_num_pieces pp) peer_bitfield our_bitfield in
      if cs = [] then (None, pp)
      else if bf_count our_bitfield < 4 then random_choice draw cs pp
      else let rarest = rarest_loop (availability_histogram pp) cs 0xFFFFFFFF [] in
        if rarest = [] then (None, pp) else random_choice draw rarest pp)"

definition get_availability :: "'g PiecePicker \<Rightarrow> nat \<Rightarrow> u32" where
  "get_availability pp i = (if i \<ge> pp_num_pieces pp then 0 else availability_histogram pp ! i)"

section \<open>The rarest candidates\<close>

lemma rarest_loop_set:
  assumes "\<forall>r\<in>set rarest. h ! r = m"
  shows "\<exists>m'. m' \<le> m \<and> (\<forall>c\<in>set cs. m' \<le> h ! c) \<and>
    set (rarest_loop h cs m rarest) = {c \<in> set cs. h ! c = m'} \<union> (if m' = m then set rarest else {}) \<and>
    (m' = m \<or> (\<exists>c\<in>set cs. h ! c = m'))"
  using assms
proof (induction cs arbitrary: m rarest)
  case (Cons c cs)
  consider "h ! c < m" | "h ! c = m" | "m < h ! c" by (meson linorder_neqE)
  then show ?case
  proof cases
    case 1
    have "\<forall>r\<in>set [c]. h ! r = h ! c" by simp
    from Cons.IH[OF this] 1 show ?thesis by (simp add: Let_def) (erule ex_forward, auto)
  next
    case 2
    with Cons.prems have "\<forall>r\<in>set (rarest @ [c]). h ! r = m" by auto
    from Cons.IH[OF this] 2 show ?thesis by (simp add: Let_def) (erule ex_forward, auto)
  next
    case 3
    then have "rarest_loop h (c # cs) m rarest = rarest_loop h cs m rarest" by (auto simp: Let_def)
    with Cons.IH[OF Cons.prems] 3 show ?thesis by (simp only:) (erule ex_forward, auto)
  qed
qed auto

lemma max_word32: "(x :: u32) \<le> 0xFFFFFFFF"
  using unat_less_pow[of x] by (simp add: word_le_nat_alt)

lemma rarest_loop_spec:
  "set (rarest_loop h cs 0xFFFFFFFF []) = {c \<in> set cs. \<forall>d\<in>set cs. h ! c \<le> h ! d}"
proof -
  have "\<exists>m'. (\<forall>c\<in>set cs. m' \<le> h ! c) \<and> set (rarest_loop h cs 0xFFFFFFFF []) = {c \<in> set cs. h ! c = m'} \<and>
      (m' = 0xFFFFFFFF \<or> (\<exists>c\<in>set cs. h ! c = m'))"
    using rarest_loop_set[of "[]" h "0xFFFFFFFF" cs] by simp (erule ex_forward, simp split: if_splits)
  then obtain m' where
    m: "\<forall>c\<in>set cs. m' \<le> h ! c" "set (rarest_loop h cs 0xFFFFFFFF []) = {c \<in> set cs. h ! c = m'}"
      "m' = 0xFFFFFFFF \<or> (\<exists>c\<in>set cs. h ! c = m')"
    by blast
  have "h ! c = m' \<longleftrightarrow> (\<forall>d\<in>set cs. h ! c \<le> h ! d)" if c: "c \<in> set cs" for c
  proof
    assume "\<forall>d\<in>set cs. h ! c \<le> h ! d"
    with m(3) have "h ! c \<le> m'" using max_word32 by auto
    with m(1) c show "h ! c = m'" by (simp add: order.antisym)
  qed (use m(1) in simp)
  then show ?thesis unfolding m(2) by auto
qed

lemma finite_min_exists:
  "cs \<noteq> [] \<Longrightarrow> \<exists>c\<in>set cs. \<forall>d\<in>set cs. (h :: nat \<Rightarrow> 'a::linorder) c \<le> h d"
  using ex_min_if_finite[of "h ` set cs"] by (auto simp: not_less)

lemma rarest_loop_neq_Nil: "cs \<noteq> [] \<Longrightarrow> rarest_loop h cs 0xFFFFFFFF [] \<noteq> []"
  using finite_min_exists[of cs "(!) h"] rarest_loop_spec[of h cs] by fastforce

lemma set_candidates:
  "set (candidates n p q) = {i. i < n \<and> bf_has p i \<and> \<not> bf_has q i}"
  by (auto simp: candidates_def)

lemma random_choice_in: "draw_in_range draw \<Longrightarrow> cs \<noteq> [] \<Longrightarrow> \<exists>c\<in>set cs. fst (random_choice draw cs pp) = Some c"
  by (auto simp: random_choice_def draw_in_range_def split: prod.split) (metis fst_conv length_greater_0_conv nth_mem)

lemma pick_piece_frame:
  "pp_num_pieces (snd (pick_piece draw pp p q)) = pp_num_pieces pp"
  "availability_histogram (snd (pick_piece draw pp p q)) = availability_histogram pp"
  by (simp_all add: pick_piece_def random_choice_def Let_def split: prod.split)

section \<open>The histogram\<close>

lemma bitfield_loop_nth:
  assumes "\<And>h i. f h i = h[i := g (h ! i)]"
  shows "length (bitfield_loop f b n h) = length h"
    and "j < length h \<Longrightarrow> bitfield_loop f b n h ! j = (if j < n \<and> bf_has b j then g (h ! j) else h ! j)"
proof -
  let ?loop = "\<lambda>m. fold (\<lambda>i h. if bf_has b i then f h i else h) [0..<m] h"
  have len: "length (?loop m) = length h" for m
    by (induction m) (simp_all add: assms)
  have nth: "j < length h \<Longrightarrow> ?loop m ! j = (if j < m \<and> bf_has b j then g (h ! j) else h ! j)" for m j
    by (induction m arbitrary: j) (auto simp: assms nth_list_update len less_Suc_eq)
  show "length (bitfield_loop f b n h) = length h" by (simp add: bitfield_loop_def len)
  show "j < length h \<Longrightarrow> bitfield_loop f b n h ! j = (if j < n \<and> bf_has b j then g (h ! j) else h ! j)"
    using nth[of j "min n (num_bits b)"] by (auto simp: bitfield_loop_def bf_has_bit)
qed

lemma decrement_update: "decrement h i = h[i := (if h ! i > 0 then h ! i - 1 else h ! i)]"
  by (simp add: decrement_def)

lemmas loop_add = bitfield_loop_nth[of fetch_add_one "\<lambda>x. x + 1", OF fetch_add_one_def]
lemmas loop_remove = bitfield_loop_nth[of decrement "\<lambda>x. if x > 0 then x - 1 else x", OF decrement_update]

definition holders :: "Bitfield list \<Rightarrow> nat \<Rightarrow> nat" where
  "holders bs i = length (filter (\<lambda>b. bf_has b i) bs)"

lemma holders_simps [simp]:
  "holders [] i = 0"
  "holders (b # bs) i = (if bf_has b i then 1 else 0) + holders bs i"
  "holders (as @ bs) i = holders as i + holders bs i"
  by (simp_all add: holders_def)

lemma holders_le: "holders bs i \<le> length bs"
  by (simp add: holders_def)

lemma holders_remove1: "b \<in> set bs \<Longrightarrow> holders bs i = (if bf_has b i then 1 else 0) + holders (remove1 b bs) i"
  by (induction bs) auto

lemma holders_update:
  "k < length bs \<Longrightarrow> holders (bs[k := b]) i + (if bf_has (bs ! k) i then 1 else 0) = holders bs i + (if bf_has b i then 1 else 0)"
proof -
  assume k: "k < length bs"
  then have "holders bs i = holders (take k bs @ bs ! k # drop (Suc k) bs) i"
    by (simp only: id_take_nth_drop[symmetric])
  with k show ?thesis by (simp add: upd_conv_take_nth_drop)
qed

text \<open>Histories of a picker, with the bitfields of the connected peers: peers join and leave
  with their bitfields, announce pieces they did not have, and pieces are picked.\<close>

inductive picker_run :: "'g draw \<Rightarrow> nat \<Rightarrow> 'g PiecePicker \<Rightarrow> Bitfield list \<Rightarrow> bool"
  for draw :: "'g draw" and n :: nat where
  start: "picker_run draw n (piece_picker n seed) []"
| join: "picker_run draw n pp bs \<Longrightarrow> length bs + 1 < 2 ^ 32 \<Longrightarrow>
    picker_run draw n (add_peer_bitfield pp b) (b # bs)"
| leave: "picker_run draw n pp bs \<Longrightarrow> b \<in> set bs \<Longrightarrow>
    picker_run draw n (remove_peer_bitfield pp b) (remove1 b bs)"
| have_new: "picker_run draw n pp bs \<Longrightarrow> k < length bs \<Longrightarrow> bf_inv (bs ! k) \<Longrightarrow> i < num_bits (bs ! k) \<Longrightarrow>
    \<not> bf_has (bs ! k) i \<Longrightarrow>
    picker_run draw n (add_availability pp i) (bs[k := bf_set (bs ! k) i True])"
| pick: "picker_run draw n pp bs \<Longrightarrow> picker_run draw n (snd (pick_piece draw pp p q)) bs"

definition counts :: "nat \<Rightarrow> 'g PiecePicker \<Rightarrow> Bitfield list \<Rightarrow> bool" where
  "counts n pp bs \<longleftrightarrow> pp_num_pieces pp = n \<and> length (availability_histogram pp) = n \<and> length bs < 2 ^ 32 \<and>
     (\<forall>i < n. unat (availability_histogram pp ! i) = holders bs i)"

lemma counts_join:
  assumes "counts n pp bs" "length bs + 1 < 2 ^ 32"
  shows "counts n (add_peer_bitfield pp b) (b # bs)"
proof -
  have "unat (availability_histogram pp ! i + 1) = holders bs i + 1" if "i < n" for i
    using assms that holders_le[of bs i] by (simp add: counts_def unat_word_ariths)
  with assms show ?thesis
    by (auto simp: counts_def add_peer_bitfield_def loop_add)
qed

lemma counts_leave:
  assumes "counts n pp bs" "b \<in> set bs"
  shows "counts n (remove_peer_bitfield pp b) (remove1 b bs)"
proof -
  have "unat (if availability_histogram pp ! i > 0 then availability_histogram pp ! i - 1
      else availability_histogram pp ! i) = holders bs i - 1" if "i < n" for i
    using assms that by (auto simp: counts_def unat_sub word_less_nat_alt word_le_nat_alt)
  with assms holders_remove1[OF assms(2)] show ?thesis
    by (auto simp: counts_def remove_peer_bitfield_def loop_remove length_remove1)
qed

lemma counts_have:
  assumes "counts n pp bs" "k < length bs" "bf_inv (bs ! k)" "i < num_bits (bs ! k)" "\<not> bf_has (bs ! k) i"
  shows "counts n (add_availability pp i) (bs[k := bf_set (bs ! k) i True])"
proof -
  let ?b = "bf_set (bs ! k) i True"
  have has: "bf_has ?b j \<longleftrightarrow> j = i \<or> bf_has (bs ! k) j" for j
    using bitset.mem_add[OF assms(3), of i j] assms(4) by auto
  have h: "holders (bs[k := ?b]) j = holders bs j + (if j = i then 1 else 0)" for j
    using holders_update[OF assms(2), of ?b j] has[of j] assms(5) by auto
  have "holders (bs[k := ?b]) i \<le> length bs" using holders_le[of "bs[k := ?b]" i] by simp
  then have "unat (availability_histogram pp ! i + 1) = holders bs i + 1" if "i < n"
    using that assms h[of i] by (simp add: counts_def unat_word_ariths)
  with assms h show ?thesis
    by (auto simp: counts_def add_availability_def fetch_add_one_def nth_list_update)
qed

lemma picker_run_counts: "picker_run draw n pp bs \<Longrightarrow> counts n pp bs"
proof (induction rule: picker_run.induct)
  case (start seed)
  then show ?case by (simp add: counts_def piece_picker_def)
next
  case (pick pp bs p q)
  then show ?case by (simp add: counts_def pick_piece_frame)
qed (auto intro: counts_join counts_leave counts_have)

section \<open>Correctness\<close>


definition demo_draw :: "nat draw" where
  "demo_draw g n = (g mod n, Suc g)"


text \<open>As long as fewer than \<open>2\<^sup>32\<close> peers are connected and every peer that leaves is removed with its
  current bitfield, the availability of a piece is the number of connected peers that have it.\<close>

theorem availability_counts_peers:
  assumes "picker_run draw n pp bs"
  shows "unat (get_availability pp i) = (if i < n then card {k. k < length bs \<and> bf_has (bs ! k) i} else 0)"
  using picker_run_counts[OF assms]
  by (auto simp: counts_def get_availability_def holders_def length_filter_conv_card)

theorem availability_counts_peers_witness:
  "unat (get_availability (add_peer_bitfield (piece_picker 8 (0::nat)) (bf_set (bitfield_empty 8) 2 True)) 2) = 1"
proof -
  let ?b = "bf_set (bitfield_empty 8) 2 True"
  have run: "picker_run demo_draw 8 (add_peer_bitfield (piece_picker 8 (0::nat)) ?b) [?b]"
    by (intro picker_run.join picker_run.start) simp
  have "bf_has ?b 2" using bitset.mem_add[OF bf_inv_empty[of 8], of 2 2] by simp
  then have "{k. k < length [?b] \<and> bf_has ([?b] ! k) 2} = {0}" by auto
  with availability_counts_peers[OF run, of 2] show ?thesis by simp
qed

end
