(* ===== verification/Disk_IO.thy ===== *)
theory Disk_IO
  imports Torrent Piece_Manager
begin

text \<open>
  Disk access (\<^verbatim>\<open>include/disk_io.hpp\<close>, \<^verbatim>\<open>src/disk_io.cpp\<close>): pieces are written to and read from the
  files of the torrent, across file boundaries.  The file system is a map from file
  identities to contents; which path names which file is decided by the operating system
  and is the parameter \<open>resolve\<close>.  Opening a file that does not exist is an error; device
  errors during a write are not modelled.  Offsets are mathematical integers: for accepted
  metadata with positive lengths they are bounded by the 64-bit total length.
\<close>

section \<open>Files\<close>

datatype disk_error =
    OutOfRange | OpenFailed bytes | CreateFailed bytes | ResizeFailed bytes | LengthError | UndefinedCount

type_synonym 'i fs = "'i \<rightharpoonup> bytes"

record DiskIOManager =
  base_path :: bytes
  dio_metadata :: TorrentMetadata

text \<open>\<^verbatim>\<open>std::filesystem\<close>'s \<^verbatim>\<open>base / rel\<close> on POSIX: an absolute right operand replaces the left
  one, otherwise a separator is added unless the left operand is empty or ends with one.\<close>

definition get_full_path :: "DiskIOManager \<Rightarrow> bytes \<Rightarrow> bytes" where
  "get_full_path d rel =
     (if rel \<noteq> [] \<and> hd rel = 47 then rel
      else if base_path d \<noteq> [] \<and> last (base_path d) \<noteq> 47 then base_path d @ [47] @ rel
      else base_path d @ rel)"

text \<open>Writing at a position of a file: past the end the gap is filled with zeros, and
  writing nothing changes nothing.\<close>

definition file_write :: "bytes \<Rightarrow> nat \<Rightarrow> bytes \<Rightarrow> bytes" where
  "file_write content pos d =
     (if d = [] then content else write_at (content @ replicate (pos - length content) 0) pos d)"

section \<open>Operations\<close>

text \<open>Pre-allocation.  \<open>creatable\<close> says which paths the operating system lets the process
  open for appending and \<open>max_size\<close> which file sizes it grants.\<close>

primrec preallocate_loop ::
  "(bytes \<Rightarrow> 'i) \<Rightarrow> (bytes \<Rightarrow> bool) \<Rightarrow> nat \<Rightarrow> DiskIOManager \<Rightarrow> FileInfo list \<Rightarrow> 'i fs \<Rightarrow> disk_error + 'i fs" where
  "preallocate_loop resolve creatable max_size d [] fs = Inr fs"
| "preallocate_loop resolve creatable max_size d (file # files) fs =
     (let full_path = get_full_path d (fi_path file); node = resolve full_path in
      if \<not> creatable full_path then Inl (CreateFailed full_path)
      else let content = (case fs node of None \<Rightarrow> [] | Some c \<Rightarrow> c); len = cast_size (fi_length file) in
        if len > max_size then Inl (ResizeFailed full_path)
        else preallocate_loop resolve creatable max_size d files (fs(node \<mapsto> resize content len 0)))"

definition preallocate_files ::
  "(bytes \<Rightarrow> 'i) \<Rightarrow> (bytes \<Rightarrow> bool) \<Rightarrow> nat \<Rightarrow> DiskIOManager \<Rightarrow> 'i fs \<Rightarrow> disk_error + 'i fs" where
  "preallocate_files resolve creatable max_size d fs =
     preallocate_loop resolve creatable max_size d (md_files (dio_metadata d)) fs"

definition write_file ::
  "(bytes \<Rightarrow> 'i) \<Rightarrow> DiskIOManager \<Rightarrow> int \<Rightarrow> bytes \<Rightarrow> FileInfo \<Rightarrow> 'i fs \<Rightarrow> disk_error + 'i fs" where
  "write_file resolve d global_offset data file fs =
     (let bytes_to_write = int (length data); file_start = fi_offset file; file_end = fi_offset file + fi_length file in
      if global_offset + bytes_to_write \<le> file_start \<or> global_offset \<ge> file_end then Inr fs
      else let
        overlap_start = max global_offset file_start;
        overlap_end = min (global_offset + bytes_to_write) file_end;
        overlap_len = overlap_end - overlap_start;
        offset_in_file = overlap_start - file_start;
        offset_in_data = overlap_start - global_offset;
        full_path = get_full_path d (fi_path file) in
        (case fs (resolve full_path) of
           None \<Rightarrow> Inl (OpenFailed full_path)
         | Some content \<Rightarrow>
             if overlap_len < 0 then Inl UndefinedCount
             else Inr (fs(resolve full_path \<mapsto>
                  file_write content (nat offset_in_file) (take (nat overlap_len) (drop (nat offset_in_data) data))))))"

primrec write_loop ::
  "(bytes \<Rightarrow> 'i) \<Rightarrow> DiskIOManager \<Rightarrow> int \<Rightarrow> bytes \<Rightarrow> FileInfo list \<Rightarrow> 'i fs \<Rightarrow> disk_error + 'i fs" where
  "write_loop resolve d global_offset data [] fs = Inr fs"
| "write_loop resolve d global_offset data (file # files) fs =
     bindE (write_file resolve d global_offset data file fs) (write_loop resolve d global_offset data files)"

definition write_piece ::
  "(bytes \<Rightarrow> 'i) \<Rightarrow> DiskIOManager \<Rightarrow> 'i fs \<Rightarrow> nat \<Rightarrow> bytes \<Rightarrow> disk_error + 'i fs" where
  "write_piece resolve d fs i data =
     (let md = dio_metadata d in
      if i \<ge> cast_size (num_pieces md) then Inl OutOfRange
      else write_loop resolve d (int i * piece_length md) data (md_files md) fs)"

definition read_file ::
  "(bytes \<Rightarrow> 'i) \<Rightarrow> DiskIOManager \<Rightarrow> 'i fs \<Rightarrow> int \<Rightarrow> int \<Rightarrow> FileInfo \<Rightarrow> bytes \<Rightarrow> disk_error + bytes" where
  "read_file resolve d fs global_offset bytes_to_read file data =
     (let file_start = fi_offset file; file_end = fi_offset file + fi_length file in
      if global_offset + bytes_to_read \<le> file_start \<or> global_offset \<ge> file_end then Inr data
      else let
        overlap_start = max global_offset file_start;
        overlap_end = min (global_offset + bytes_to_read) file_end;
        overlap_len = overlap_end - overlap_start;
        offset_in_file = overlap_start - file_start;
        offset_in_data = overlap_start - global_offset;
        full_path = get_full_path d (fi_path file) in
        (case fs (resolve full_path) of
           None \<Rightarrow> Inl (OpenFailed full_path)
         | Some content \<Rightarrow>
             if overlap_len < 0 then Inl UndefinedCount
             else Inr (write_at data (nat offset_in_data) (take (nat overlap_len) (drop (nat offset_in_file) content)))))"

primrec read_loop ::
  "(bytes \<Rightarrow> 'i) \<Rightarrow> DiskIOManager \<Rightarrow> 'i fs \<Rightarrow> int \<Rightarrow> int \<Rightarrow> FileInfo list \<Rightarrow> bytes \<Rightarrow> disk_error + bytes" where
  "read_loop resolve d fs global_offset bytes_to_read [] data = Inr data"
| "read_loop resolve d fs global_offset bytes_to_read (file # files) data =
     bindE (read_file resolve d fs global_offset bytes_to_read file data)
       (read_loop resolve d fs global_offset bytes_to_read files)"

definition disk_piece_size :: "TorrentMetadata \<Rightarrow> nat \<Rightarrow> int" where
  "disk_piece_size md i =
     (if i = cast_size (num_pieces md - 1)
      then total_length md - (num_pieces md - 1) * piece_length md else piece_length md)"

definition read_piece :: "(bytes \<Rightarrow> 'i) \<Rightarrow> DiskIOManager \<Rightarrow> 'i fs \<Rightarrow> nat \<Rightarrow> disk_error + bytes" where
  "read_piece resolve d fs i =
     (let md = dio_metadata d in
      if i \<ge> cast_size (num_pieces md) then Inl OutOfRange
      else let piece_size = disk_piece_size md i in
        if piece_size < 0 then Inl LengthError
        else read_loop resolve d fs (int i * piece_length md) piece_size (md_files md) (replicate (nat piece_size) 0))"

definition verify_piece ::
  "(bytes \<Rightarrow> bytes) \<Rightarrow> (bytes \<Rightarrow> 'i) \<Rightarrow> DiskIOManager \<Rightarrow> 'i fs \<Rightarrow> nat \<Rightarrow> mem_error + bool" where
  "verify_piece sha1 resolve d fs i =
     (if i \<ge> cast_size (num_pieces (dio_metadata d)) then Inr False
      else case read_piece resolve d fs i of
        Inl _ \<Rightarrow> Inr False
      | Inr data \<Rightarrow> bindE (read_at (piece_hashes (dio_metadata d)) i) (\<lambda>h. Inr (sha1 data = h)))"

section \<open>Overlaying one segment on another\<close>

text \<open>The bytes \<open>xs\<close> at positions from \<open>off\<close> on, after the bytes \<open>d\<close> at positions from \<open>g\<close> on have
  been written over them.\<close>

definition overlay :: "int \<Rightarrow> int \<Rightarrow> 'a list \<Rightarrow> 'a list \<Rightarrow> 'a list" where
  "overlay off g d xs =
     map (\<lambda>k. let p = off + int k in if g \<le> p \<and> p < g + int (length d) then d ! nat (p - g) else xs ! k)
       [0..<length xs]"

lemma length_overlay [simp]: "length (overlay off g d xs) = length xs"
  by (simp add: overlay_def)

lemma nth_overlay:
  "k < length xs \<Longrightarrow> overlay off g d xs ! k =
     (if g \<le> off + int k \<and> off + int k < g + int (length d) then d ! nat (off + int k - g) else xs ! k)"
  by (simp add: overlay_def Let_def)

lemma overlay_append:
  "overlay off g d (xs @ ys) = overlay off g d xs @ overlay (off + int (length xs)) g d ys"
  by (rule nth_equalityI) (auto simp: nth_overlay nth_append algebra_simps of_nat_diff)

lemma overlay_twice:
  "overlay off g (d @ e) xs = overlay off (g + int (length d)) e (overlay off g d xs)"
  by (rule nth_equalityI) (auto simp: nth_overlay nth_append intro!: arg_cong[where f = "(!) e"])

lemma overlay_disjoint:
  "g + int (length d) \<le> off \<or> off + int (length xs) \<le> g \<Longrightarrow> overlay off g d xs = xs"
  by (rule nth_equalityI) (auto simp: nth_overlay)

lemma overlay_inside:
  "0 \<le> g \<Longrightarrow> nat g + length d \<le> length xs \<Longrightarrow> overlay 0 g d xs = write_at xs (nat g) d"
  by (rule nth_equalityI) (auto simp: nth_overlay nth_write_at nat_diff_distrib')

lemma overlay_cover:
  "0 \<le> g \<Longrightarrow> nat g + length xs \<le> length d \<Longrightarrow> overlay g 0 d xs = take (length xs) (drop (nat g) d)"
  by (rule nth_equalityI) (auto simp: nth_overlay nat_add_distrib)

text \<open>The part that the two segments share, as the code computes it.\<close>

lemma overlay_shared:
  fixes off g :: int and d xs :: "'a list"
  defines "s \<equiv> max g off" and "e \<equiv> min (g + int (length d)) (off + int (length xs))"
  assumes "s \<le> e"
  shows "overlay off g d xs = write_at xs (nat (s - off)) (take (nat (e - s)) (drop (nat (s - g)) d))"
proof (rule nth_equalityI)
  let ?c = "take (nat (e - s)) (drop (nat (s - g)) d)"
  have e: "e \<le> g + int (length d)" "e \<le> off + int (length xs)" and s: "g \<le> s" "off \<le> s"
    by (simp_all add: s_def e_def)
  have len: "length ?c = nat (e - s)" using assms(3) e s by simp
  have fits: "nat (s - off) + length ?c \<le> length xs" unfolding len using assms(3) e s by linarith
  then show "length (overlay off g d xs) = length (write_at xs (nat (s - off)) ?c)" by simp
  fix k assume "k < length (overlay off g d xs)"
  then have k: "k < length xs" by simp
  have range: "g \<le> off + int k \<and> off + int k < g + int (length d) \<longleftrightarrow>
      nat (s - off) \<le> k \<and> k < nat (s - off) + length ?c"
    unfolding len using k assms(3) s by (auto simp: s_def e_def)
  have "?c ! (k - nat (s - off)) = d ! nat (off + int k - g)"
    if "nat (s - off) \<le> k" "k < nat (s - off) + length ?c"
  proof -
    have "nat (s - g) + (k - nat (s - off)) = nat (off + int k - g)" using that s by linarith
    moreover have "k - nat (s - off) < nat (e - s)" using that len by linarith
    moreover have "nat (s - g) \<le> length d" using s e assms(3) by linarith
    ultimately show ?thesis by (simp only: nth_take nth_drop)
  qed
  with range show "overlay off g d xs ! k = write_at xs (nat (s - off)) ?c ! k"
    unfolding nth_overlay[OF k] nth_write_at[OF fits k] by auto
qed

section \<open>The concatenated files\<close>

definition file_id :: "(bytes \<Rightarrow> 'i) \<Rightarrow> DiskIOManager \<Rightarrow> FileInfo \<Rightarrow> 'i" where
  "file_id resolve d f = resolve (get_full_path d (fi_path f))"

text \<open>All files of a list exist with their nominal sizes, at different places.\<close>

definition allocated :: "(bytes \<Rightarrow> 'i) \<Rightarrow> DiskIOManager \<Rightarrow> FileInfo list \<Rightarrow> 'i fs \<Rightarrow> bool" where
  "allocated resolve d files fs \<longleftrightarrow> distinct (map (file_id resolve d) files) \<and>
     (\<forall>f\<in>set files. \<exists>c. fs (file_id resolve d f) = Some c \<and> int (length c) = fi_length f)"

definition concatenated :: "(bytes \<Rightarrow> 'i) \<Rightarrow> DiskIOManager \<Rightarrow> FileInfo list \<Rightarrow> 'i fs \<Rightarrow> bytes" where
  "concatenated resolve d files fs = concat (map (\<lambda>f. case fs (file_id resolve d f) of None \<Rightarrow> [] | Some c \<Rightarrow> c) files)"

lemma concatenated_Cons:
  "fs (file_id resolve d f) = Some c \<Longrightarrow>
   concatenated resolve d (f # files) fs = c @ concatenated resolve d files fs"
  by (simp add: concatenated_def)

lemma concatenated_upd_other:
  "i \<notin> file_id resolve d ` set files \<Longrightarrow> concatenated resolve d files (fs(i \<mapsto> c)) = concatenated resolve d files fs"
  by (induction files) (auto simp: concatenated_def)

lemma allocated_upd_other:
  "i \<notin> file_id resolve d ` set files \<Longrightarrow> allocated resolve d files fs \<Longrightarrow> allocated resolve d files (fs(i \<mapsto> c))"
  unfolding allocated_def by (metis fun_upd_other image_eqI)

lemma length_concatenated:
  "allocated resolve d files fs \<Longrightarrow> int (length (concatenated resolve d files fs)) = files_size files"
  by (induction files) (auto simp: allocated_def concatenated_def files_size_def)

lemma write_file_overlay:
  assumes "fs (file_id resolve d f) = Some c" "int (length c) = fi_length f"
  shows "write_file resolve d g data f fs = Inr (fs(file_id resolve d f \<mapsto> overlay (fi_offset f) g data c))"
proof (cases "g + int (length data) \<le> fi_offset f \<or> g \<ge> fi_offset f + fi_length f")
  case True
  with assms have "overlay (fi_offset f) g data c = c" by (intro overlay_disjoint) auto
  with True assms show ?thesis by (auto simp: write_file_def Let_def fun_upd_idem)
next
  case False
  let ?s = "max g (fi_offset f)" and ?e = "min (g + int (length data)) (fi_offset f + fi_length f)"
  let ?chunk = "take (nat (?e - ?s)) (drop (nat (?s - g)) data)"
  have le: "?s \<le> ?e" using False assms(2) by auto
  have ov: "overlay (fi_offset f) g data c = write_at c (nat (?s - fi_offset f)) ?chunk"
    using overlay_shared[of g "fi_offset f" data c] le assms(2) by simp
  have "nat (?s - fi_offset f) \<le> length c" using False assms(2) by linarith
  then have "file_write c (nat (?s - fi_offset f)) ?chunk = overlay (fi_offset f) g data c"
    unfolding ov file_write_def by simp
  with False le assms(1) show ?thesis
    unfolding write_file_def Let_def file_id_def by (simp add: not_less)
qed

lemma read_file_overlay:
  assumes "fs (file_id resolve d f) = Some c" "int (length c) = fi_length f"
  shows "read_file resolve d fs g (int (length buf)) f buf = Inr (overlay g (fi_offset f) c buf)"
proof (cases "g + int (length buf) \<le> fi_offset f \<or> g \<ge> fi_offset f + fi_length f")
  case True
  with assms have "overlay g (fi_offset f) c buf = buf" by (intro overlay_disjoint) auto
  with True show ?thesis by (auto simp: read_file_def Let_def)
next
  case False
  let ?s = "max g (fi_offset f)" and ?e = "min (g + int (length buf)) (fi_offset f + fi_length f)"
  have le: "?s \<le> ?e" using False assms(2) by auto
  have "overlay g (fi_offset f) c buf =
      write_at buf (nat (?s - g)) (take (nat (?e - ?s)) (drop (nat (?s - fi_offset f)) c))"
    using overlay_shared[of "fi_offset f" g c buf] le assms(2)
    by (simp only: max.commute[of "fi_offset f" g] min.commute[of "fi_offset f + fi_length f"])
  with False le assms(1) show ?thesis
    unfolding read_file_def Let_def file_id_def by (simp add: not_less)
qed

lemma write_loop_overlay:
  assumes "allocated resolve d files fs" "contiguous off files"
  shows "\<exists>fs'. write_loop resolve d g data files fs = Inr fs' \<and> allocated resolve d files fs' \<and>
    concatenated resolve d files fs' = overlay off g data (concatenated resolve d files fs) \<and>
    (\<forall>i. i \<notin> file_id resolve d ` set files \<longrightarrow> fs' i = fs i)"
  using assms
proof (induction files arbitrary: fs off)
  case Nil
  then show ?case by (simp add: allocated_def concatenated_def overlay_def)
next
  case (Cons f files)
  let ?i = "file_id resolve d f"
  obtain c where c: "fs ?i = Some c" "int (length c) = fi_length f"
    using Cons.prems(1) by (auto simp: allocated_def)
  let ?fs = "fs(?i \<mapsto> overlay (fi_offset f) g data c)"
  have fresh: "?i \<notin> file_id resolve d ` set files" and al: "allocated resolve d files fs"
    using Cons.prems(1) by (auto simp: allocated_def)
  have "contiguous (off + fi_length f) files" and off: "fi_offset f = off" using Cons.prems(2) by auto
  from Cons.IH[OF allocated_upd_other[OF fresh al] this(1), of "overlay (fi_offset f) g data c"] obtain fs' where
    wl: "write_loop resolve d g data files ?fs = Inr fs'" and al': "allocated resolve d files fs'"
    and cc: "concatenated resolve d files fs' =
      overlay (off + fi_length f) g data (concatenated resolve d files fs)"
    and frame: "\<forall>i. i \<notin> file_id resolve d ` set files \<longrightarrow> fs' i = ?fs i"
    unfolding concatenated_upd_other[OF fresh] by blast
  have i: "fs' ?i = Some (overlay off g data c)" using frame fresh off by simp
  have "allocated resolve d (f # files) fs'" using al' i c fresh by (auto simp: allocated_def)
  moreover have "concatenated resolve d (f # files) fs' = overlay off g data (concatenated resolve d (f # files) fs)"
    using cc c by (simp add: concatenated_Cons[of fs resolve d f] concatenated_Cons[of fs' resolve d f, OF i] overlay_append)
  ultimately show ?case
    using wl frame by (auto simp: write_file_overlay[of fs, OF c])
qed

lemma read_loop_overlay:
  assumes "allocated resolve d files fs" "contiguous off files"
  shows "read_loop resolve d fs g (int (length buf)) files buf =
    Inr (overlay g off (concatenated resolve d files fs) buf)"
  using assms
proof (induction files arbitrary: off buf)
  case Nil
  then show ?case by (auto simp: concatenated_def intro!: nth_equalityI[symmetric] simp: nth_overlay)
next
  case (Cons f files)
  obtain c where c: "fs (file_id resolve d f) = Some c" "int (length c) = fi_length f"
    using Cons.prems(1) by (auto simp: allocated_def)
  have "allocated resolve d files fs" "contiguous (off + fi_length f) files" "fi_offset f = off"
    using Cons.prems by (auto simp: allocated_def)
  with Cons.IH[of "off + fi_length f" "overlay g off c buf"] show ?case
    using c by (simp add: read_file_overlay[of fs, OF c] concatenated_Cons overlay_twice)
qed

section \<open>Pieces of the concatenated files\<close>

text \<open>Metadata for which the pieces cut up the data: what \<^verbatim>\<open>from_bencode\<close> ensures for positive
  piece and total lengths and a number of pieces that fits in an \<^verbatim>\<open>int32_t\<close>.\<close>

definition layout_ok :: "TorrentMetadata \<Rightarrow> bool" where
  "layout_ok md \<longleftrightarrow> contiguous 0 (md_files md) \<and> total_length md = files_size (md_files md) \<and> 0 < piece_length md \<and>
     0 < length (piece_hashes md) \<and> length (piece_hashes md) < 2 ^ 31 \<and> num_pieces md = int (length (piece_hashes md)) \<and>
     (num_pieces md - 1) * piece_length md < total_length md \<and> total_length md \<le> num_pieces md * piece_length md"

definition disk_ok :: "(bytes \<Rightarrow> 'i) \<Rightarrow> DiskIOManager \<Rightarrow> 'i fs \<Rightarrow> bool" where
  "disk_ok resolve d fs \<longleftrightarrow> layout_ok (dio_metadata d) \<and> allocated resolve d (md_files (dio_metadata d)) fs"

definition disk_data :: "(bytes \<Rightarrow> 'i) \<Rightarrow> DiskIOManager \<Rightarrow> 'i fs \<Rightarrow> bytes" where
  "disk_data resolve d fs = concatenated resolve d (md_files (dio_metadata d)) fs"

abbreviation (input) n_pieces :: "DiskIOManager \<Rightarrow> nat" where
  "n_pieces d \<equiv> length (piece_hashes (dio_metadata d))"

definition piece_off :: "TorrentMetadata \<Rightarrow> nat \<Rightarrow> nat" where
  "piece_off md i = i * nat (piece_length md)"

lemma layout_casts:
  assumes "layout_ok md"
  shows "cast_size (num_pieces md) = length (piece_hashes md)"
    "cast_size (num_pieces md - 1) = length (piece_hashes md) - 1"
  using assms by (auto simp: layout_ok_def cast_size_def nat_diff_distrib')

lemma disk_piece_size_bounds:
  assumes "layout_ok md" "i < length (piece_hashes md)"
  shows "0 < disk_piece_size md i" "disk_piece_size md i \<le> piece_length md"
    "int i * piece_length md + disk_piece_size md i \<le> total_length md"
proof -
  let ?n = "length (piece_hashes md)" and ?p = "piece_length md"
  have n: "num_pieces md = int ?n" and p: "0 < ?p" and lo: "(int ?n - 1) * ?p < total_length md"
    and hi: "total_length md \<le> int ?n * ?p"
    using assms(1) by (auto simp: layout_ok_def)
  have last: "i = cast_size (num_pieces md - 1) \<longleftrightarrow> int i = int ?n - 1"
    using layout_casts[OF assms(1)] assms(2) by auto
  show "0 < disk_piece_size md i" "disk_piece_size md i \<le> ?p"
    using n p lo hi by (simp_all add: disk_piece_size_def algebra_simps)
  show "int i * ?p + disk_piece_size md i \<le> total_length md"
  proof (cases "int i = int ?n - 1")
    case True
    then have "i = cast_size (num_pieces md - 1)" using last by blast
    then show ?thesis using True by (simp add: disk_piece_size_def n)
  next
    case False
    then have "int i + 1 \<le> int ?n - 1" using assms(2) by linarith
    then have "(int i + 1) * ?p \<le> (int ?n - 1) * ?p" using p by (intro mult_right_mono) auto
    moreover have "disk_piece_size md i = ?p" using False last by (simp add: disk_piece_size_def)
    ultimately show ?thesis using lo by (simp add: algebra_simps)
  qed
qed

lemma disk_data_length: "disk_ok resolve d fs \<Longrightarrow> int (length (disk_data resolve d fs)) = total_length (dio_metadata d)"
  by (simp add: disk_ok_def disk_data_def layout_ok_def length_concatenated)

lemma int_piece_off: "layout_ok md \<Longrightarrow> int (piece_off md i) = int i * piece_length md"
  by (simp add: layout_ok_def piece_off_def)

lemma piece_inside:
  assumes "disk_ok resolve d fs" "i < n_pieces d"
  shows "piece_off (dio_metadata d) i + nat (disk_piece_size (dio_metadata d) i) \<le> length (disk_data resolve d fs)"
proof -
  have l: "layout_ok (dio_metadata d)" using assms(1) by (simp add: disk_ok_def)
  from disk_piece_size_bounds[OF l assms(2)] int_piece_off[OF l, of i] disk_data_length[OF assms(1)]
  show ?thesis by linarith
qed

lemma write_piece_refines:
  assumes "disk_ok resolve d fs" "i < n_pieces d" "int (length data) = disk_piece_size (dio_metadata d) i"
  shows "\<exists>fs'. write_piece resolve d fs i data = Inr fs' \<and> disk_ok resolve d fs' \<and>
    disk_data resolve d fs' = write_at (disk_data resolve d fs) (piece_off (dio_metadata d) i) data \<and>
    (\<forall>j. j \<notin> file_id resolve d ` set (md_files (dio_metadata d)) \<longrightarrow> fs' j = fs j)"
proof -
  let ?md = "dio_metadata d"
  have l: "layout_ok ?md" and al: "allocated resolve d (md_files ?md) fs"
    using assms(1) by (auto simp: disk_ok_def)
  have "contiguous 0 (md_files ?md)" using l by (simp add: layout_ok_def)
  from write_loop_overlay[OF al this, of "int i * piece_length ?md" data] obtain fs' where fs':
    "write_loop resolve d (int i * piece_length ?md) data (md_files ?md) fs = Inr fs'"
    "allocated resolve d (md_files ?md) fs'"
    "disk_data resolve d fs' = overlay 0 (int i * piece_length ?md) data (disk_data resolve d fs)"
    "\<forall>j. j \<notin> file_id resolve d ` set (md_files ?md) \<longrightarrow> fs' j = fs j"
    unfolding disk_data_def by blast
  have "overlay 0 (int (piece_off ?md i)) data (disk_data resolve d fs) =
      write_at (disk_data resolve d fs) (nat (int (piece_off ?md i))) data"
    using piece_inside[OF assms(1,2)] assms(3) by (intro overlay_inside) auto
  with fs' show ?thesis
    using assms(2) layout_casts[OF l] l
    by (auto simp: write_piece_def Let_def disk_ok_def int_piece_off[OF l, symmetric])
qed

lemma read_piece_refines:
  assumes "disk_ok resolve d fs" "i < n_pieces d"
  shows "read_piece resolve d fs i =
    Inr (take (nat (disk_piece_size (dio_metadata d) i))
      (drop (piece_off (dio_metadata d) i) (disk_data resolve d fs)))"
proof -
  let ?md = "dio_metadata d" and ?size = "disk_piece_size (dio_metadata d) i"
  have l: "layout_ok ?md" and al: "allocated resolve d (md_files ?md) fs"
    using assms(1) by (auto simp: disk_ok_def)
  have c: "contiguous 0 (md_files ?md)" using l by (simp add: layout_ok_def)
  have pos: "0 < ?size" using disk_piece_size_bounds[OF l assms(2)] by simp
  have "read_loop resolve d fs (int (piece_off ?md i)) (int (length (replicate (nat ?size) (0::byte)))) (md_files ?md)
      (replicate (nat ?size) 0) =
    Inr (overlay (int (piece_off ?md i)) 0 (disk_data resolve d fs) (replicate (nat ?size) 0))"
    unfolding disk_data_def by (rule read_loop_overlay[OF al c])
  also have "overlay (int (piece_off ?md i)) 0 (disk_data resolve d fs) (replicate (nat ?size) 0) =
      take (length (replicate (nat ?size) (0::byte))) (drop (nat (int (piece_off ?md i))) (disk_data resolve d fs))"
    using piece_inside[OF assms] by (intro overlay_cover) auto
  finally show ?thesis
    using assms(2) layout_casts[OF l] pos by (simp add: read_piece_def Let_def int_piece_off[OF l, symmetric])
qed

text \<open>Pieces do not overlap.\<close>

lemma piece_off_disjoint:
  assumes "layout_ok md" "i < length (piece_hashes md)" "j < length (piece_hashes md)" "i \<noteq> j"
  shows "piece_off md i + nat (disk_piece_size md i) \<le> piece_off md j \<or>
    piece_off md j + nat (disk_piece_size md j) \<le> piece_off md i"
proof -
  have "piece_off md a + nat (disk_piece_size md a) \<le> piece_off md b"
    if "a < b" "a < length (piece_hashes md)" for a b
  proof -
    have "nat (disk_piece_size md a) \<le> nat (piece_length md)"
      using disk_piece_size_bounds[OF assms(1) that(2)] by simp
    then have "piece_off md a + nat (disk_piece_size md a) \<le> Suc a * nat (piece_length md)"
      by (simp add: piece_off_def)
    also have "\<dots> \<le> piece_off md b" unfolding piece_off_def using that(1) by (intro mult_le_mono1) simp
    finally show ?thesis .
  qed
  with assms(2-4) show ?thesis by (meson linorder_neqE_nat)
qed

lemma take_drop_write_at_other:
  assumes "off + length src \<le> length xs" "a + n \<le> off \<or> off + length src \<le> a"
  shows "take n (drop a (write_at xs off src)) = take n (drop a xs)"
  using assms by (intro nth_equalityI) (auto simp: nth_write_at)

section \<open>The interface of a piece store\<close>

text \<open>What the download logic relies on: a written piece is read back, other pieces keep
  their contents, and the store stays usable.\<close>

locale piece_store =
  fixes inv :: "'d \<Rightarrow> bool" and put :: "'d \<Rightarrow> nat \<Rightarrow> bytes \<Rightarrow> 'e + 'd" and get :: "'d \<Rightarrow> nat \<Rightarrow> 'e + bytes"
    and size :: "nat \<Rightarrow> nat" and n :: nat
  assumes put_total: "inv s \<Longrightarrow> i < n \<Longrightarrow> length data = size i \<Longrightarrow> \<exists>s'. put s i data = Inr s'"
    and put_inv: "inv s \<Longrightarrow> i < n \<Longrightarrow> length data = size i \<Longrightarrow> put s i data = Inr s' \<Longrightarrow> inv s'"
    and get_same: "inv s \<Longrightarrow> i < n \<Longrightarrow> length data = size i \<Longrightarrow> put s i data = Inr s' \<Longrightarrow> get s' i = Inr data"
    and get_other: "inv s \<Longrightarrow> i < n \<Longrightarrow> length data = size i \<Longrightarrow> put s i data = Inr s' \<Longrightarrow> j < n \<Longrightarrow> j \<noteq> i \<Longrightarrow>
      get s' j = get s j"
begin

primrec put_all :: "(nat \<times> bytes) list \<Rightarrow> 'd \<Rightarrow> 'e + 'd" where
  "put_all [] s = Inr s"
| "put_all (w # ws) s = bindE (put s (fst w) (snd w)) (put_all ws)"

text \<open>After any sequence of writes every piece reads as its last put, or as before.\<close>

lemma put_all_get:
  assumes "inv s" "\<forall>(i, data)\<in>set ws. i < n \<and> length data = size i"
  shows "\<exists>s'. put_all ws s = Inr s' \<and> inv s' \<and>
    (\<forall>j < n. get s' j = (case map_of (rev ws) j of None \<Rightarrow> get s j | Some data \<Rightarrow> Inr data))"
  using assms
proof (induction ws arbitrary: s)
  case (Cons w ws)
  obtain i data where w: "w = (i, data)" by fastforce
  with Cons.prems have i: "i < n" "length data = size i" by auto
  from put_total[OF Cons.prems(1) i] obtain s1 where s1: "put s i data = Inr s1" by blast
  from Cons.IH[OF put_inv[OF Cons.prems(1) i s1]] Cons.prems(2) obtain s' where
    s': "put_all ws s1 = Inr s'" "inv s'"
      "\<forall>j < n. get s' j = (case map_of (rev ws) j of None \<Rightarrow> get s1 j | Some data \<Rightarrow> Inr data)"
    by auto
  have "get s1 j = (if j = i then Inr data else get s j)" if "j < n" for j
    using get_same[OF Cons.prems(1) i s1] get_other[OF Cons.prems(1) i s1 that] by auto
  with s' s1 show ?case by (auto simp: w map_add_def split: option.splits)
qed simp

end

interpretation disk: piece_store "disk_ok resolve d" "write_piece resolve d" "read_piece resolve d"
  "\<lambda>i. nat (disk_piece_size (dio_metadata d) i)" "n_pieces d"
proof
  fix fs :: "'a fs" and i and data :: bytes
  assume ok: "disk_ok resolve d fs" and i: "i < n_pieces d"
    and len: "length data = nat (disk_piece_size (dio_metadata d) i)"
  have l: "layout_ok (dio_metadata d)" using ok by (simp add: disk_ok_def)
  have "int (length data) = disk_piece_size (dio_metadata d) i"
    using len disk_piece_size_bounds[OF l i] by simp
  from write_piece_refines[OF ok i this] obtain fs1 where w: "write_piece resolve d fs i data = Inr fs1"
    and ok1: "disk_ok resolve d fs1"
    and data1: "disk_data resolve d fs1 = write_at (disk_data resolve d fs) (piece_off (dio_metadata d) i) data"
    by blast
  note inside = piece_inside[OF ok i, folded len]
  show "\<exists>fs'. write_piece resolve d fs i data = Inr fs'" using w by blast
  fix fs' assume "write_piece resolve d fs i data = Inr fs'"
  with w have [simp]: "fs' = fs1" by simp
  show "disk_ok resolve d fs'" using ok1 by simp
  show "read_piece resolve d fs' i = Inr data"
    using read_piece_refines[OF ok1 i] take_drop_write_at_same[OF inside] by (simp add: data1 len)
  show "read_piece resolve d fs' j = read_piece resolve d fs j" if "j < n_pieces d" "j \<noteq> i" for j
    using piece_off_disjoint[OF l i that(1)] that(2) take_drop_write_at_other[OF inside, of "piece_off (dio_metadata d) j" "nat (disk_piece_size (dio_metadata d) j)"]
    by (auto simp: read_piece_refines[OF ok1 that(1)] read_piece_refines[OF ok that(1)] data1 len)
qed

section \<open>Pre-allocation\<close>

lemma preallocate_loop_allocated:
  assumes "distinct (map (file_id resolve d) files)"
    "\<forall>f\<in>set files. creatable (get_full_path d (fi_path f)) \<and> 0 \<le> fi_length f \<and> fi_length f \<le> int max_size"
    "max_size < 2 ^ 64"
  shows "\<exists>fs'. preallocate_loop resolve creatable max_size d files fs = Inr fs' \<and> allocated resolve d files fs' \<and>
    (\<forall>i. i \<notin> file_id resolve d ` set files \<longrightarrow> fs' i = fs i) \<and>
    (\<forall>f\<in>set files. \<forall>c. fs (file_id resolve d f) = Some c \<longrightarrow> int (length c) = fi_length f \<longrightarrow>
       fs' (file_id resolve d f) = Some c)"
  using assms(1,2)
proof (induction files arbitrary: fs)
  case Nil
  then show ?case by (simp add: allocated_def)
next
  case (Cons f files)
  let ?i = "file_id resolve d f" and ?n = "nat (fi_length f)"
  define c where "c = resize (case fs ?i of None \<Rightarrow> [] | Some c \<Rightarrow> c) ?n 0"
  have len: "cast_size (fi_length f) = ?n" "?n \<le> max_size"
    using Cons.prems(2) assms(3) by (auto simp: cast_size_def)
  have step: "preallocate_loop resolve creatable max_size d (f # files) fs =
      preallocate_loop resolve creatable max_size d files (fs(?i \<mapsto> c))"
    using Cons.prems(2) len by (simp add: c_def file_id_def Let_def)
  have prems: "distinct (map (file_id resolve d) files)"
    "\<forall>f\<in>set files. creatable (get_full_path d (fi_path f)) \<and> 0 \<le> fi_length f \<and> fi_length f \<le> int max_size"
    using Cons.prems by auto
  from Cons.IH[OF prems, of "fs(?i \<mapsto> c)"] obtain fs' where fs':
    "preallocate_loop resolve creatable max_size d files (fs(?i \<mapsto> c)) = Inr fs'" "allocated resolve d files fs'"
    "\<forall>i. i \<notin> file_id resolve d ` set files \<longrightarrow> fs' i = (fs(?i \<mapsto> c)) i"
    "\<forall>g\<in>set files. \<forall>e. (fs(?i \<mapsto> c)) (file_id resolve d g) = Some e \<longrightarrow> int (length e) = fi_length g \<longrightarrow>
       fs' (file_id resolve d g) = Some e"
    by blast
  have fresh: "?i \<notin> file_id resolve d ` set files" using Cons.prems(1) by auto
  then have i: "fs' ?i = Some c" using fs'(3) by simp
  have "int (length c) = fi_length f" using Cons.prems(2) by (auto simp: c_def resize_def)
  with i fs'(2) fresh have "allocated resolve d (f # files) fs'" by (auto simp: allocated_def)
  moreover have "\<forall>g\<in>set (f # files). \<forall>e. fs (file_id resolve d g) = Some e \<longrightarrow> int (length e) = fi_length g \<longrightarrow>
       fs' (file_id resolve d g) = Some e"
  proof (intro ballI allI impI)
    fix g e assume g: "g \<in> set (f # files)" "fs (file_id resolve d g) = Some e" "int (length e) = fi_length g"
    show "fs' (file_id resolve d g) = Some e"
    proof (cases "g \<in> set files")
      case True
      then have "file_id resolve d g \<noteq> ?i" using fresh by (metis image_eqI)
      with fs'(4) True g show ?thesis by auto
    next
      case False
      with g have "g = f" by simp
      with g i show ?thesis by (auto simp: c_def resize_def)
    qed
  qed
  ultimately show ?case using step fs'(1,3) by auto
qed

lemma from_bencode_layout_ok:
  assumes "from_bencode sha1 data = Inr md" "0 < piece_length md" "0 < total_length md"
    "length (piece_hashes md) < 2 ^ 31"
  shows "layout_ok md"
proof -
  have files: "contiguous 0 (md_files md)" "total_length md = files_size (md_files md)"
    using assms(1) by (rule from_bencode_cases, use parse_layout_layout in auto)+
  have np: "num_pieces md = int (length (piece_hashes md))"
    using from_bencode_cover(3)[OF assms(1,2)] assms(3,4) by (simp add: cast_int32_def)
  note cover = from_bencode_cover(1,2)[OF assms(1,2)]
  have "0 < length (piece_hashes md)" using cover(2) assms(3) by (cases "piece_hashes md") auto
  with files np cover assms show ?thesis by (simp add: layout_ok_def)
qed

primrec write_pieces ::
  "(bytes \<Rightarrow> 'i) \<Rightarrow> DiskIOManager \<Rightarrow> (nat \<times> bytes) list \<Rightarrow> 'i fs \<Rightarrow> disk_error + 'i fs" where
  "write_pieces resolve d [] fs = Inr fs"
| "write_pieces resolve d (w # ws) fs = bindE (write_piece resolve d fs (fst w) (snd w)) (write_pieces resolve d ws)"

lemma write_pieces_put_all: "write_pieces resolve d ws = disk.put_all resolve d ws"
  by (rule ext, induction ws) (simp_all add: bindE_def split: sum.split)

section \<open>Correctness\<close>

text \<open>C8: writing a piece refines overwriting its range in the concatenation of the files: the write
  succeeds, the files keep their sizes, their concatenation changes exactly in that range, across
  file boundaries, and no file outside the torrent is touched.\<close>

theorem write_piece_concatenation:
  assumes "disk_ok resolve d fs" "i < n_pieces d" "int (length data) = disk_piece_size (dio_metadata d) i"
  shows "\<exists>fs'. write_piece resolve d fs i data = Inr fs' \<and> disk_ok resolve d fs' \<and>
    disk_data resolve d fs' = write_at (disk_data resolve d fs) (i * nat (piece_length (dio_metadata d))) data \<and>
    (\<forall>j. j \<notin> file_id resolve d ` set (md_files (dio_metadata d)) \<longrightarrow> fs' j = fs j)"
  using write_piece_refines[OF assms] by (simp add: piece_off_def)

text \<open>Two files of three and four bytes, cut into pieces of four bytes.\<close>

definition demo_disk :: DiskIOManager where
  "demo_disk = \<lparr>base_path = [98], dio_metadata =
     \<lparr>md_name = [110], announce_url = [117], announce_list = [[117]], piece_length = 4, total_length = 7,
      num_pieces = 2, piece_hashes = [[1], [2]],
      md_files = [\<lparr>fi_path = [102], fi_length = 3, fi_offset = 0\<rparr>, \<lparr>fi_path = [103], fi_length = 4, fi_offset = 3\<rparr>],
      info_hash = []\<rparr>\<rparr>"

definition demo_fs :: "bytes fs" where
  "demo_fs = [[98, 47, 102] \<mapsto> [0, 0, 0], [98, 47, 103] \<mapsto> [0, 0, 0, 0]]"

lemma demo_disk_ok: "disk_ok id demo_disk demo_fs"
  by (simp add: disk_ok_def layout_ok_def demo_disk_def allocated_def demo_fs_def file_id_def get_full_path_def files_size_def)

theorem write_piece_concatenation_witness:
  "\<exists>fs'. write_piece id demo_disk demo_fs 0 [1, 2, 3, 4] = Inr fs' \<and> disk_data id demo_disk fs' = [1, 2, 3, 4, 0, 0, 0]"
proof -
  have "disk_data id demo_disk demo_fs = [0, 0, 0, 0, 0, 0, 0]"
    by (simp add: disk_data_def concatenated_def demo_disk_def demo_fs_def file_id_def get_full_path_def)
  moreover have "int (length [1, 2, 3, 4 :: byte]) = disk_piece_size (dio_metadata demo_disk) 0" "0 < n_pieces demo_disk"
    "piece_length (dio_metadata demo_disk) = 4"
    by (simp_all add: demo_disk_def disk_piece_size_def cast_size_def)
  ultimately show ?thesis
    using write_piece_concatenation[OF demo_disk_ok, of 0 "[1, 2, 3, 4]"] by (auto simp: write_at_def)
qed

text \<open>C9: after any sequence of piece writes of the right sizes, in any order and with rewrites, every piece
  reads back as the last data written to it, and a piece that was not written reads as before.\<close>

theorem read_after_writes:
  assumes "disk_ok resolve d fs" "\<forall>(i, data)\<in>set ws. i < n_pieces d \<and> int (length data) = disk_piece_size (dio_metadata d) i"
  shows "\<exists>fs'. write_pieces resolve d ws fs = Inr fs' \<and>
    (\<forall>j < n_pieces d. read_piece resolve d fs' j =
       (case map_of (rev ws) j of None \<Rightarrow> read_piece resolve d fs j | Some data \<Rightarrow> Inr data))"
  using disk.put_all_get[OF assms(1), of ws] assms(2) by (fastforce simp: write_pieces_put_all)

theorem read_after_writes_witness:
  "\<exists>fs'. write_pieces id demo_disk [(1, [9, 9, 9]), (0, [1, 2, 3, 4]), (1, [5, 6, 7])] demo_fs = Inr fs' \<and>
     read_piece id demo_disk fs' 0 = Inr [1, 2, 3, 4] \<and> read_piece id demo_disk fs' 1 = Inr [5, 6, 7]"
proof -
  let ?ws = "[(1, [9, 9, 9]), (0, [1, 2, 3, 4]), (1, [5, 6, 7])] :: (nat \<times> bytes) list"
  have n: "n_pieces demo_disk = 2" by (simp add: demo_disk_def)
  have "\<forall>(i, data)\<in>set ?ws. i < n_pieces demo_disk \<and> int (length data) = disk_piece_size (dio_metadata demo_disk) i"
    by (simp add: demo_disk_def disk_piece_size_def cast_size_def)
  from read_after_writes[OF demo_disk_ok this] show ?thesis unfolding n by fastforce
qed



text \<open>C40: \<^verbatim>\<open>from_bencode\<close> accepts a torrent whose file name is any absolute path, and the download directory
  is then ignored: the full path of the file is the name itself.\<close>

theorem absolute_path_escapes:
  assumes "bencode_wf (single_file_torrent url (47 # name) len plen (concat hashes))" "url \<noteq> []"
    "\<forall>h\<in>set hashes. length h = 20" "calculated_pieces len plen = Inr (int (length hashes))"
  shows "\<exists>md. from_bencode sha1 (encode (single_file_torrent url (47 # name) len plen (concat hashes))) = Inr md \<and>
    (\<forall>base. map (\<lambda>f. get_full_path \<lparr>base_path = base, dio_metadata = md\<rparr> (fi_path f)) (md_files md) = [47 # name])"
  by (subst from_bencode_single_file[OF assms(1-3)]) (simp add: assms(4) get_full_path_def)

theorem absolute_path_escapes_witness:
  "\<exists>md. from_bencode (\<lambda>_. []) (encode (single_file_torrent [117] (47 # [102]) 3 4 (concat [replicate 20 9]))) = Inr md \<and>
    (\<forall>base. map (\<lambda>f. get_full_path \<lparr>base_path = base, dio_metadata = md\<rparr> (fi_path f)) (md_files md) = [[47, 102]])"
  by (rule absolute_path_escapes)
    (simp_all add: single_file_torrent_def calculated_pieces_def int64_def div64_def)

end
