(* ===== verification/Tracker_Client.thy ===== *)
theory Tracker_Client
  imports Torrent Peer_Message
begin

text \<open>
  The tracker client (\<^verbatim>\<open>include/tracker_client.hpp\<close>, \<^verbatim>\<open>src/tracker_client.cpp\<close>): announces over HTTP
  (libcurl) and over UDP, with fallback along the list of trackers, and the parsing of
  responses.  libcurl and the socket calls are the operations of a record \<open>Net\<close> over a
  world state, a parameter of the definitions.  The host byte order is a parameter too.
  Stack buffers start with arbitrary contents, given as parameters.
\<close>

section \<open>Data\<close>

text \<open>A port of \<open>None\<close> is one that the code leaves uninitialised.\<close>

record PeerInfo =
  pi_ip :: bytes
  pi_port :: "u16 option"
  pi_id :: bytes

record TrackerResponse =
  interval :: int
  complete :: int
  incomplete :: int
  peers :: "PeerInfo list"
  failure_reason :: bytes

record TrackerClient =
  tc_torrent :: TorrentMetadata
  tc_peer_id :: bytes

datatype tracker_error =
    CurlInitFailed | HttpFailed | HttpStatus int bytes
  | BadUdpScheme | DnsFailed | SocketFailed | SetsockoptFailed
  | UdpConnectError bytes | UdpConnectFailed | UdpAnnounceError bytes | UdpAnnounceFailed
  | ResponseParse bencode_error | ResponseNotDict | ResponseAccess access_error | CompactPeersLength
  | BufferOverrun mem_error | UnsupportedScheme
  | AllTrackersFailed "(bytes \<times> tracker_error) list"

datatype HttpResult = HttpNoHandle | HttpTransportError | HttpResponse int bytes

record 'w Net =
  net_http :: "bytes \<Rightarrow> 'w \<Rightarrow> HttpResult \<times> 'w"
  net_getaddrinfo :: "bytes \<Rightarrow> bytes \<Rightarrow> 'w \<Rightarrow> bool \<times> 'w"
  net_socket :: "'w \<Rightarrow> bool \<times> 'w"
  net_set_timeout :: "nat \<Rightarrow> 'w \<Rightarrow> bool \<times> 'w"
  net_rand :: "'w \<Rightarrow> u32 \<times> 'w"
  net_sendto :: "bytes \<Rightarrow> 'w \<Rightarrow> bool \<times> 'w"
  net_recvfrom :: "'w \<Rightarrow> bytes option \<times> 'w"

section \<open>Byte order\<close>

definition swap64 :: "u64 \<Rightarrow> u64" where
  "swap64 val =
     push_bit 56 (val AND 0x00000000000000FF) OR
     push_bit 40 (val AND 0x000000000000FF00) OR
     push_bit 24 (val AND 0x0000000000FF0000) OR
     push_bit 8 (val AND 0x00000000FF000000) OR
     drop_bit 8 (val AND 0x000000FF00000000) OR
     drop_bit 24 (val AND 0x0000FF0000000000) OR
     drop_bit 40 (val AND 0x00FF000000000000) OR
     drop_bit 56 (val AND 0xFF00000000000000)"

definition hton64 :: "bool \<Rightarrow> u64 \<Rightarrow> u64" where
  "hton64 big_endian val = (if big_endian then val else swap64 val)"

text \<open>The object representation of a 64-bit integer on the host, and its inverse.\<close>

definition host_bytes64 :: "bool \<Rightarrow> u64 \<Rightarrow> bytes" where
  "host_bytes64 big_endian val = (if big_endian then enc64 val else rev (enc64 val))"

definition host_value64 :: "bool \<Rightarrow> bytes \<Rightarrow> u64" where
  "host_value64 big_endian bs = (if big_endian then dec64 bs else dec64 (rev bs))"

definition write_uint64 :: "bool \<Rightarrow> bytes \<Rightarrow> nat \<Rightarrow> u64 \<Rightarrow> mem_error + bytes" where
  "write_uint64 big_endian buf off val = write_span buf off (host_bytes64 big_endian (hton64 big_endian val))"

definition read_uint64 :: "bool \<Rightarrow> bytes \<Rightarrow> nat \<Rightarrow> mem_error + u64" where
  "read_uint64 big_endian buf off =
     bindE (read_span buf off 8) (\<lambda>bs. Inr (hton64 big_endian (host_value64 big_endian bs)))"

lemma enc64_bytes:
  "enc64 v = [ucast (drop_bit 56 v), ucast (drop_bit 48 v), ucast (drop_bit 40 v), ucast (drop_bit 32 v),
              ucast (drop_bit 24 v), ucast (drop_bit 16 v), ucast (drop_bit 8 v), ucast v]"
proof -
  have "(of_nat (unat v div 2 ^ n) :: byte) = ucast (drop_bit n v)" for n
    by (simp only: word_unat_eq_iff unat_of_nat unsigned_ucast_eq unat_drop_bit_eq)
      (simp add: take_bit_eq_mod drop_bit_eq_div)
  from this[of 56] this[of 48] this[of 40] this[of 32] this[of 24] this[of 16] this[of 8] this[of 0]
  show ?thesis by (simp add: enc64_def wire_simps div_mult2_eq[symmetric])
qed

lemma byte_masks:
  "(0xFF :: u64) = push_bit 0 (mask 8)" "(0xFF00 :: u64) = push_bit 8 (mask 8)"
  "(0xFF0000 :: u64) = push_bit 16 (mask 8)" "(0xFF000000 :: u64) = push_bit 24 (mask 8)"
  "(0xFF00000000 :: u64) = push_bit 32 (mask 8)" "(0xFF0000000000 :: u64) = push_bit 40 (mask 8)"
  "(0xFF000000000000 :: u64) = push_bit 48 (mask 8)" "(0xFF00000000000000 :: u64) = push_bit 56 (mask 8)"
  by (simp_all add: mask_eq_exp_minus_1)

lemma bit_byte_mask: "bit (push_bit m (mask 8) :: u64) n \<longleftrightarrow> m \<le> n \<and> n < m + 8 \<and> n < 64"
  by (auto simp: bit_simps)

lemma swap64_bytes:
  "ucast (drop_bit 56 (swap64 v)) = (ucast v :: byte)"
  "ucast (drop_bit 48 (swap64 v)) = (ucast (drop_bit 8 v) :: byte)"
  "ucast (drop_bit 40 (swap64 v)) = (ucast (drop_bit 16 v) :: byte)"
  "ucast (drop_bit 32 (swap64 v)) = (ucast (drop_bit 24 v) :: byte)"
  "ucast (drop_bit 24 (swap64 v)) = (ucast (drop_bit 32 v) :: byte)"
  "ucast (drop_bit 16 (swap64 v)) = (ucast (drop_bit 40 v) :: byte)"
  "ucast (drop_bit 8 (swap64 v)) = (ucast (drop_bit 48 v) :: byte)"
  "ucast (swap64 v) = (ucast (drop_bit 56 v) :: byte)"
  unfolding swap64_def byte_masks by (rule bit_eqI; auto simp: bit_byte_mask bit_simps)+

lemma enc64_swap64: "enc64 (swap64 v) = rev (enc64 v)"
  by (simp add: enc64_bytes swap64_bytes)

lemma swap64_swap64: "swap64 (swap64 v) = v"
  by (metis be64.enc_inject enc64_swap64 rev_rev_ident)

lemma dec64_rev: "length bs = 8 \<Longrightarrow> dec64 (rev bs) = swap64 (dec64 bs)"
  by (metis be64.dec_enc be64.enc_dec enc64_swap64)

text \<open>Whatever the byte order of the host, the 64-bit codecs are in network order.\<close>

lemma write_uint64_enc [wire_simps]: "write_uint64 big buf off v = write_span buf off (enc64 v)"
  by (simp add: write_uint64_def host_bytes64_def hton64_def enc64_swap64)

lemma read_uint64_dec: "read_uint64 big buf off = bindE (read_span buf off 8) (\<lambda>bs. Inr (dec64 bs))"
  by (auto simp: read_uint64_def hton64_def host_value64_def read_span_def dec64_rev swap64_swap64)

definition write_uint32 :: "bytes \<Rightarrow> nat \<Rightarrow> u32 \<Rightarrow> mem_error + bytes" where
  "write_uint32 buf off val = write_span buf off (enc32 val)"

definition write_uint16 :: "bytes \<Rightarrow> nat \<Rightarrow> u16 \<Rightarrow> mem_error + bytes" where
  "write_uint16 buf off val = write_span buf off (enc16 val)"

definition read_uint32 :: "bytes \<Rightarrow> nat \<Rightarrow> mem_error + u32" where
  "read_uint32 buf off = bindE (read_span buf off 4) (\<lambda>bs. Inr (dec32 bs))"

definition read_uint16 :: "bytes \<Rightarrow> nat \<Rightarrow> mem_error + u16" where
  "read_uint16 buf off = bindE (read_span buf off 2) (\<lambda>bs. Inr (dec16 bs))"

section \<open>URLs\<close>

definition unreserved :: "byte \<Rightarrow> bool" where
  "unreserved b \<longleftrightarrow> 48 \<le> b \<and> b \<le> 57 \<or> 97 \<le> b \<and> b \<le> 122 \<or> 65 \<le> b \<and> b \<le> 90 \<or>
     b = 45 \<or> b = 95 \<or> b = 46 \<or> b = 126"

definition hex_chars :: bytes where
  "hex_chars = ascii ''0123456789abcdef''"

definition url_encode_byte :: "byte \<Rightarrow> bytes" where
  "url_encode_byte b =
     (if unreserved b then [b]
      else [37, hex_chars ! unat (drop_bit 4 b AND 0x0F), hex_chars ! unat (b AND 0x0F)])"

definition url_encode :: "bytes \<Rightarrow> bytes" where
  "url_encode data = concat (map url_encode_byte data)"

definition http_url :: "TrackerClient \<Rightarrow> bytes \<Rightarrow> u16 \<Rightarrow> u64 \<Rightarrow> u64 \<Rightarrow> u64 \<Rightarrow> bytes option \<Rightarrow> bytes" where
  "http_url tc base_url listening_port uploaded downloaded lft event =
     base_url @ (if 63 \<in> set base_url then ascii ''&'' else ascii ''?'') @
     ascii ''info_hash='' @ url_encode (info_hash (tc_torrent tc)) @
     ascii ''&peer_id='' @ url_encode (tc_peer_id tc) @
     ascii ''&port='' @ to_string_nat (unat listening_port) @
     ascii ''&uploaded='' @ to_string_nat (unat uploaded) @
     ascii ''&downloaded='' @ to_string_nat (unat downloaded) @
     ascii ''&left='' @ to_string_nat (unat lft) @
     ascii ''&compact=1'' @
     (case event of Some e \<Rightarrow> if e \<noteq> [] then ascii ''&event='' @ e else [] | None \<Rightarrow> [])"

section \<open>Responses\<close>

definition empty_response :: TrackerResponse where
  "empty_response = \<lparr>interval = 0, complete = 0, incomplete = 0, peers = [], failure_reason = []\<rparr>"

definition dotted :: "byte \<Rightarrow> byte \<Rightarrow> byte \<Rightarrow> byte \<Rightarrow> bytes" where
  "dotted a b c d = to_string_nat (unat a) @ [46] @ to_string_nat (unat b) @ [46] @
     to_string_nat (unat c) @ [46] @ to_string_nat (unat d)"

text \<open>The compact peers of an HTTP response; its length has been checked to be a multiple of 6.\<close>

fun compact_peers :: "bytes \<Rightarrow> PeerInfo list" where
  "compact_peers (a # b # c # d # p # q # rest) =
     \<lparr>pi_ip = dotted a b c d, pi_port = Some (push_bit 8 (ucast p) OR ucast q), pi_id = []\<rparr> # compact_peers rest"
| "compact_peers _ = []"

definition find_field :: "(bytes \<times> BencodeValue) list \<Rightarrow> bytes \<Rightarrow> (BencodeValue \<Rightarrow> access_error + 'a) \<Rightarrow> 'a \<Rightarrow>
    tracker_error + 'a" where
  "find_field dict key as_type dflt =
     (case dict_find dict key of None \<Rightarrow> Inr dflt | Some v \<Rightarrow> mapE ResponseAccess (as_type v))"

definition peer_of_dict :: "(bytes \<times> BencodeValue) list \<Rightarrow> tracker_error + PeerInfo" where
  "peer_of_dict p_dict =
     bindE (find_field p_dict (ascii ''ip'') as_string []) (\<lambda>ip.
     bindE (find_field p_dict (ascii ''port'') (\<lambda>v. bindE (as_int v) (\<lambda>i. Inr (Some (word_of_int i)))) None) (\<lambda>port.
     bindE (find_field p_dict (ascii ''peer id'') as_string []) (\<lambda>pid.
     Inr \<lparr>pi_ip = ip, pi_port = port, pi_id = pid\<rparr>)))"

fun peers_of_list :: "BencodeValue list \<Rightarrow> tracker_error + PeerInfo list" where
  "peers_of_list [] = Inr []"
| "peers_of_list (v # vs) =
     (case v of
        BDict p_dict \<Rightarrow> bindE (peer_of_dict p_dict) (\<lambda>p. bindE (peers_of_list vs) (\<lambda>ps. Inr (p # ps)))
      | _ \<Rightarrow> peers_of_list vs)"

definition parse_peers :: "(bytes \<times> BencodeValue) list \<Rightarrow> tracker_error + PeerInfo list" where
  "parse_peers dict =
     (case dict_find dict (ascii ''peers'') of
        Some (BString s) \<Rightarrow> if length s mod 6 \<noteq> 0 then Inl CompactPeersLength else Inr (compact_peers s)
      | Some (BList vs) \<Rightarrow> peers_of_list vs
      | _ \<Rightarrow> Inr [])"

definition parse_response :: "bytes \<Rightarrow> tracker_error + TrackerResponse" where
  "parse_response response_data =
     bindE (mapE ResponseParse (parse response_data)) (\<lambda>root.
     case root of
       BDict dict \<Rightarrow>
         (case dict_find dict (ascii ''failure reason'') of
            Some v \<Rightarrow> bindE (mapE ResponseAccess (as_string v)) (\<lambda>s. Inr (empty_response\<lparr>failure_reason := s\<rparr>))
          | None \<Rightarrow>
              bindE (find_field dict (ascii ''interval'') as_int 0) (\<lambda>iv.
              bindE (find_field dict (ascii ''complete'') as_int 0) (\<lambda>co.
              bindE (find_field dict (ascii ''incomplete'') as_int 0) (\<lambda>inc.
              bindE (parse_peers dict) (\<lambda>ps.
              Inr \<lparr>interval = iv, complete = co, incomplete = inc, peers = ps, failure_reason = []\<rparr>)))))
     | _ \<Rightarrow> Inl ResponseNotDict)"

section \<open>HTTP\<close>

definition announce_http ::
  "'w Net \<Rightarrow> TrackerClient \<Rightarrow> bytes \<Rightarrow> u16 \<Rightarrow> u64 \<Rightarrow> u64 \<Rightarrow> u64 \<Rightarrow> bytes option \<Rightarrow> 'w \<Rightarrow>
     (tracker_error + TrackerResponse) \<times> 'w" where
  "announce_http net tc base_url listening_port uploaded downloaded lft event w =
     (let (res, w) = net_http net (http_url tc base_url listening_port uploaded downloaded lft event) w in
      (case res of
         HttpNoHandle \<Rightarrow> Inl CurlInitFailed
       | HttpTransportError \<Rightarrow> Inl HttpFailed
       | HttpResponse code body \<Rightarrow>
           if code \<noteq> 200 then Inl (HttpStatus code (take 200 body)) else parse_response body, w))"

section \<open>UDP\<close>

definition connect_request :: "bool \<Rightarrow> bytes \<Rightarrow> mem_error + bytes" where
  "connect_request big req_buf =
     bindE (write_uint64 big req_buf 0 0x41727101980) (\<lambda>req_buf. write_uint32 req_buf 8 0)"

fun udp_connect :: "bool \<Rightarrow> 'w Net \<Rightarrow> bytes \<Rightarrow> nat \<Rightarrow> nat \<Rightarrow> 'w \<Rightarrow> (tracker_error + u64) \<times> 'w" where
  "udp_connect big net req_buf 0 current_timeout w = (Inl UdpConnectFailed, w)"
| "udp_connect big net req_buf (Suc attempts) current_timeout w =
     (let (ok, w) = net_set_timeout net current_timeout w in
      if \<not> ok then (Inl SetsockoptFailed, w)
      else let (transaction_id, w) = net_rand net w in
        (case write_uint32 req_buf 12 transaction_id of
           Inl e \<Rightarrow> (Inl (BufferOverrun e), w)
         | Inr req_buf \<Rightarrow>
             let (sent, w) = net_sendto net req_buf w in
             if \<not> sent then udp_connect big net req_buf attempts (current_timeout * 2) w
             else let (recvd, w) = net_recvfrom net w in
               (case recvd of
                  None \<Rightarrow> udp_connect big net req_buf attempts (current_timeout * 2) w
                | Some resp \<Rightarrow>
                    if length resp < 16 then udp_connect big net req_buf attempts (current_timeout * 2) w
                    else (case (read_uint32 resp 0, read_uint32 resp 4, read_uint64 big resp 8) of
                        (Inr resp_action, Inr resp_trans_id, Inr connection_id) \<Rightarrow>
                          if resp_trans_id \<noteq> transaction_id then udp_connect big net req_buf attempts current_timeout w
                          else if resp_action = 3 then (Inl (UdpConnectError (drop 8 resp)), w)
                          else if resp_action \<noteq> 0 then udp_connect big net req_buf attempts (current_timeout * 2) w
                          else (Inr connection_id, w)
                      | _ \<Rightarrow> (Inl (BufferOverrun OutOfBounds), w)))))"

definition event_value :: "bytes option \<Rightarrow> u32" where
  "event_value event =
     (if event = Some (ascii ''completed'') then 1
      else if event = Some (ascii ''started'') then 2
      else if event = Some (ascii ''stopped'') then 3
      else 0)"

definition announce_request ::
  "bool \<Rightarrow> TrackerClient \<Rightarrow> bytes \<Rightarrow> u64 \<Rightarrow> u16 \<Rightarrow> u64 \<Rightarrow> u64 \<Rightarrow> u64 \<Rightarrow> bytes option \<Rightarrow> u32 \<Rightarrow> mem_error + bytes" where
  "announce_request big tc ann_buf connection_id listening_port uploaded downloaded lft event key_val =
     bindE (write_uint64 big ann_buf 0 connection_id) (\<lambda>b.
     bindE (write_uint32 b 8 1) (\<lambda>b.
     bindE (write_span b 16 (take 20 (info_hash (tc_torrent tc)))) (\<lambda>b.
     bindE (write_span b 36 (take 20 (tc_peer_id tc))) (\<lambda>b.
     bindE (write_uint64 big b 56 downloaded) (\<lambda>b.
     bindE (write_uint64 big b 64 lft) (\<lambda>b.
     bindE (write_uint64 big b 72 uploaded) (\<lambda>b.
     bindE (write_uint32 b 80 (event_value event)) (\<lambda>b.
     bindE (write_uint32 b 84 0) (\<lambda>b.
     bindE (write_uint32 b 88 key_val) (\<lambda>b.
     bindE (write_uint32 b 92 (- 1)) (\<lambda>b.
     write_uint16 b 96 listening_port)))))))))))"

text \<open>The loop over the peers of an announce response.\<close>

fun udp_peers :: "bytes \<Rightarrow> nat \<Rightarrow> nat \<Rightarrow> mem_error + PeerInfo list" where
  "udp_peers resp i 0 = Inr []"
| "udp_peers resp i (Suc n) =
     (let off = 20 + i * 6 in
      bindE (read_span resp off 4) (\<lambda>ip.
      bindE (read_uint16 resp (off + 4)) (\<lambda>p_port.
      bindE (udp_peers resp (Suc i) n) (\<lambda>ps.
      Inr (\<lparr>pi_ip = dotted (ip ! 0) (ip ! 1) (ip ! 2) (ip ! 3), pi_port = Some p_port, pi_id = []\<rparr> # ps)))))"

definition announce_response :: "bytes \<Rightarrow> mem_error + TrackerResponse" where
  "announce_response resp =
     bindE (read_uint32 resp 8) (\<lambda>iv.
     bindE (read_uint32 resp 12) (\<lambda>inc.
     bindE (read_uint32 resp 16) (\<lambda>co.
     bindE (udp_peers resp 0 ((length resp - 20) div 6)) (\<lambda>ps.
     Inr \<lparr>interval = uint iv, complete = uint co, incomplete = uint inc, peers = ps, failure_reason = []\<rparr>))))"

fun udp_announce :: "'w Net \<Rightarrow> bytes \<Rightarrow> nat \<Rightarrow> nat \<Rightarrow> 'w \<Rightarrow> (tracker_error + TrackerResponse) \<times> 'w" where
  "udp_announce net ann_buf 0 current_timeout w = (Inl UdpAnnounceFailed, w)"
| "udp_announce net ann_buf (Suc attempts) current_timeout w =
     (let (ok, w) = net_set_timeout net current_timeout w in
      if \<not> ok then (Inl SetsockoptFailed, w)
      else let (transaction_id, w) = net_rand net w in
        (case write_uint32 ann_buf 12 transaction_id of
           Inl e \<Rightarrow> (Inl (BufferOverrun e), w)
         | Inr ann_buf \<Rightarrow>
             let (sent, w) = net_sendto net ann_buf w in
             if \<not> sent then udp_announce net ann_buf attempts (current_timeout * 2) w
             else let (recvd, w) = net_recvfrom net w in
               (case recvd of
                  None \<Rightarrow> udp_announce net ann_buf attempts (current_timeout * 2) w
                | Some resp \<Rightarrow>
                    if length resp < 20 then udp_announce net ann_buf attempts (current_timeout * 2) w
                    else (case (read_uint32 resp 0, read_uint32 resp 4) of
                        (Inr resp_action, Inr resp_trans_id) \<Rightarrow>
                          if resp_trans_id \<noteq> transaction_id then udp_announce net ann_buf attempts current_timeout w
                          else if resp_action = 3 then (Inl (UdpAnnounceError (drop 8 resp)), w)
                          else if resp_action \<noteq> 1 then udp_announce net ann_buf attempts (current_timeout * 2) w
                          else (mapE BufferOverrun (announce_response resp), w)
                      | _ \<Rightarrow> (Inl (BufferOverrun OutOfBounds), w)))))"

definition udp_host :: "bytes \<Rightarrow> bytes" where
  "udp_host url = takeWhile (\<lambda>c. c \<noteq> 58) (takeWhile (\<lambda>c. c \<noteq> 47) (drop 6 url))"

definition udp_port :: "bytes \<Rightarrow> bytes" where
  "udp_port url =
     (let host_port = takeWhile (\<lambda>c. c \<noteq> 47) (drop 6 url) in
      if 58 \<in> set host_port then drop (length (udp_host url) + 1) host_port else ascii ''6969'')"

definition announce_udp ::
  "bool \<Rightarrow> bytes \<Rightarrow> bytes \<Rightarrow> 'w Net \<Rightarrow> TrackerClient \<Rightarrow> bytes \<Rightarrow> u16 \<Rightarrow> u64 \<Rightarrow> u64 \<Rightarrow> u64 \<Rightarrow> bytes option \<Rightarrow> 'w \<Rightarrow>
     (tracker_error + TrackerResponse) \<times> 'w" where
  "announce_udp big req_buf ann_buf net tc url listening_port uploaded downloaded lft event w =
     (if length url < 6 \<or> take 6 url \<noteq> ascii ''udp://'' then (Inl BadUdpScheme, w)
      else let (found, w) = net_getaddrinfo net (udp_host url) (udp_port url) w in
      if \<not> found then (Inl DnsFailed, w)
      else let (opened, w) = net_socket net w in
      if \<not> opened then (Inl SocketFailed, w)
      else (case connect_request big req_buf of
          Inl e \<Rightarrow> (Inl (BufferOverrun e), w)
        | Inr req_buf \<Rightarrow>
            let (conn, w) = udp_connect big net req_buf 3 3 w in
            (case conn of
               Inl e \<Rightarrow> (Inl e, w)
             | Inr connection_id \<Rightarrow>
                 let (key_val, w) = net_rand net w in
                 (case announce_request big tc ann_buf connection_id listening_port uploaded downloaded lft event key_val of
                    Inl e \<Rightarrow> (Inl (BufferOverrun e), w)
                  | Inr ann_buf \<Rightarrow> udp_announce net ann_buf 3 3 w))))"

section \<open>Announcing\<close>

definition announce_attempt ::
  "(bytes \<Rightarrow> 'w \<Rightarrow> (tracker_error + TrackerResponse) \<times> 'w) \<Rightarrow> (bytes \<Rightarrow> 'w \<Rightarrow> (tracker_error + TrackerResponse) \<times> 'w) \<Rightarrow>
     bytes \<Rightarrow> 'w \<Rightarrow> (tracker_error + TrackerResponse) \<times> 'w" where
  "announce_attempt udp http url w =
     (if length url \<ge> 6 \<and> take 6 url = ascii ''udp://'' then udp url w
      else if length url \<ge> 7 \<and> (take 7 url = ascii ''http://'' \<or> length url \<ge> 8 \<and> take 8 url = ascii ''https://'') then http url w
      else (Inl UnsupportedScheme, w))"

text \<open>The loop over the list of trackers, collecting errors.\<close>

fun announce_loop ::
  "(bytes \<Rightarrow> 'w \<Rightarrow> (tracker_error + TrackerResponse) \<times> 'w) \<Rightarrow> bytes list \<Rightarrow> (bytes \<times> tracker_error) list \<Rightarrow> 'w \<Rightarrow>
     (tracker_error + TrackerResponse) \<times> 'w" where
  "announce_loop attempt [] errors w = (Inl (AllTrackersFailed errors), w)"
| "announce_loop attempt (url # urls) errors w =
     (let (r, w) = attempt url w in
      (case r of
         Inr res \<Rightarrow> (Inr res, w)
       | Inl e \<Rightarrow> announce_loop attempt urls (errors @ [(url, e)]) w))"

definition announce ::
  "bool \<Rightarrow> bytes \<Rightarrow> bytes \<Rightarrow> 'w Net \<Rightarrow> TrackerClient \<Rightarrow> u16 \<Rightarrow> u64 \<Rightarrow> u64 \<Rightarrow> u64 \<Rightarrow> bytes option \<Rightarrow> 'w \<Rightarrow>
     (tracker_error + TrackerResponse) \<times> 'w" where
  "announce big req_buf ann_buf net tc listening_port uploaded downloaded lft event w =
     announce_loop
       (announce_attempt
         (\<lambda>url. announce_udp big req_buf ann_buf net tc url listening_port uploaded downloaded lft event)
         (\<lambda>url. announce_http net tc url listening_port uploaded downloaded lft event))
       (announce_list (tc_torrent tc)) [] w"

section \<open>Packet layout\<close>

lemma write_span_here: "length xs = length src \<Longrightarrow> write_span (xs @ ys) 0 src = Inr (src @ ys)"
  by (simp add: write_span_def write_at_def)

lemma write_span_all: "length xs = length src \<Longrightarrow> write_span xs 0 src = Inr src"
  by (simp add: write_span_def write_at_def)

lemmas packet_layout = write_span_here write_span_all write_span_append
  write_uint64_enc write_uint32_def write_uint16_def

lemma split_at: "n \<le> length buf \<Longrightarrow> \<exists>a r. buf = a @ r \<and> length a = n \<and> length r = length buf - n"
  by (intro exI[of _ "take n buf"] exI[of _ "drop n buf"]) simp

text \<open>A buffer cut into fields of given widths.\<close>

lemma split_fields:
  "length buf = sum_list ns \<Longrightarrow> \<exists>fs. buf = concat fs \<and> map length fs = ns"
proof (induction ns arbitrary: buf)
  case (Cons n ns)
  then obtain a r where "buf = a @ r" "length a = n" "length r = sum_list ns"
    using split_at[of n buf] by auto
  moreover from Cons.IH[OF this(3)] obtain fs where "r = concat fs" "map length fs = ns" by blast
  ultimately show ?case by (intro exI[of _ "a # fs"]) simp
qed simp

definition announce_layout ::
  "TrackerClient \<Rightarrow> u64 \<Rightarrow> u32 \<Rightarrow> u16 \<Rightarrow> u64 \<Rightarrow> u64 \<Rightarrow> u64 \<Rightarrow> bytes option \<Rightarrow> u32 \<Rightarrow> bytes" where
  "announce_layout tc connection_id transaction_id listening_port uploaded downloaded lft event key_val =
     enc64 connection_id @ enc32 1 @ enc32 transaction_id @ info_hash (tc_torrent tc) @ tc_peer_id tc @
     enc64 downloaded @ enc64 lft @ enc64 uploaded @ enc32 (event_value event) @ enc32 0 @ enc32 key_val @
     enc32 (- 1) @ enc16 listening_port"

lemma announce_request_layout:
  assumes "length ann_buf = 98" "length (info_hash (tc_torrent tc)) = 20" "length (tc_peer_id tc) = 20"
  shows "\<exists>old. length old = 4 \<and>
    announce_request big tc ann_buf cid port up down lft event key =
      Inr (enc64 cid @ enc32 1 @ old @ info_hash (tc_torrent tc) @ tc_peer_id tc @ enc64 down @ enc64 lft @
        enc64 up @ enc32 (event_value event) @ enc32 0 @ enc32 key @ enc32 (- 1) @ enc16 port)"
proof -
  from split_fields[of ann_buf "[8, 4, 4, 20, 20, 8, 8, 8, 4, 4, 4, 4, 2]"] assms(1)
  obtain a b c d e f g h i j k l m where
    "ann_buf = a @ b @ c @ d @ e @ f @ g @ h @ i @ j @ k @ l @ m"
    "length a = 8" "length b = 4" "length c = 4" "length d = 20" "length e = 20" "length f = 8"
    "length g = 8" "length h = 8" "length i = 4" "length j = 4" "length k = 4" "length l = 4" "length m = 2"
    by (auto simp: map_eq_Cons_conv)
  with assms(2,3) show ?thesis
    by (intro exI[of _ c]) (simp add: announce_request_def packet_layout)
qed

lemma write_transaction:
  "length old = 4 \<Longrightarrow> write_uint32 (enc64 cid @ enc32 1 @ old @ rest) 12 tid = Inr (enc64 cid @ enc32 1 @ enc32 tid @ rest)"
  by (simp add: packet_layout)

section \<open>Compact peers\<close>

lemma dec16_bytes: "(push_bit 8 (ucast p) OR ucast q :: u16) = dec16 [p, q]"
proof -
  have "unat (push_bit 8 (ucast p) OR ucast q :: u16) = unat p * 256 + unat q"
  proof -
    have "(push_bit 8 (ucast p) OR ucast q :: u16) = push_bit 8 (ucast p) + ucast q"
      by (rule disjunctive_add[symmetric]) (auto simp: bit_simps dest: bit_imp_le_length)
    moreover have "unat (push_bit 8 (ucast p) + ucast q :: u16) = unat p * 256 + unat q"
      using unat_less_pow[of p] unat_less_pow[of q]
      by (simp add: push_bit_eq_mult unat_word_ariths unsigned_ucast_eq take_bit_eq_mod)
    ultimately show ?thesis by simp
  qed
  moreover have "unat p * 256 + unat q < 2 ^ 16" using unat_less_pow[of p] unat_less_pow[of q] by simp
  ultimately show ?thesis
    by (simp add: word_unat_eq_iff dec16_def be_value_def unat_of_nat del: of_nat_add of_nat_mult)
qed

lemma udp_peers_compact:
  "off = 20 + i * 6 \<Longrightarrow> off \<le> length resp \<Longrightarrow> n = (length resp - off) div 6 \<Longrightarrow>
   udp_peers resp i n = Inr (compact_peers (drop off resp))"
proof (induction n arbitrary: i off)
  case 0
  then have "length (drop off resp) < 6" by auto
  then have "compact_peers (drop off resp) = []"
    by (cases "drop off resp" rule: compact_peers.cases) auto
  then show ?case by simp
next
  case (Suc n)
  then have len: "off + 6 \<le> length resp" by auto
  have "\<exists>a b c d p q rest. drop off resp = a # b # c # d # p # q # rest"
  proof -
    have "\<exists>a b c d p q rest. xs = a # b # c # d # p # q # rest" if "6 \<le> length xs" for xs :: bytes
      using that by (cases xs rule: compact_peers.cases) auto
    from this[of "drop off resp"] len show ?thesis by auto
  qed
  then obtain a b c d p q rest where r: "drop off resp = a # b # c # d # p # q # rest" by blast
  then have ip: "take 4 (drop off resp) = [a, b, c, d]" by simp
  have "drop (off + 4) resp = drop 4 (drop off resp)" "drop (off + 6) resp = drop 6 (drop off resp)"
    by (simp_all add: add.commute)
  then have port: "take 2 (drop (off + 4) resp) = [p, q]" and rest: "drop (off + 6) resp = rest"
    unfolding r by simp_all
  have "udp_peers resp (Suc i) n = Inr (compact_peers (drop (off + 6) resp))"
    using Suc.prems len by (intro Suc.IH) auto
  moreover have "read_span resp off 4 = Inr [a, b, c, d]" using len ip by (simp add: read_span_def)
  moreover have "read_uint16 resp (off + 4) = Inr (dec16 [p, q])"
    using len port by (simp add: read_uint16_def read_span_def)
  ultimately show ?case
    unfolding udp_peers.simps Let_def Suc.prems(1)[symmetric] by (simp add: rest r dec16_bytes)
qed

section \<open>Decoding URLs\<close>

definition hex_digit :: "byte \<Rightarrow> nat" where
  "hex_digit c = (if 97 \<le> c then unat (c - 87) else unat (c - 48))"

fun url_decode :: "bytes \<Rightarrow> bytes" where
  "url_decode [] = []"
| "url_decode (c # cs) =
     (if c = 37 then
        (case cs of h # l # rest \<Rightarrow> of_nat (hex_digit h * 16 + hex_digit l) # url_decode rest | _ \<Rightarrow> [])
      else c # url_decode cs)"

lemma hex_chars_props:
  assumes "n < 16"
  shows "hex_digit (hex_chars ! n) = n" "unreserved (hex_chars ! n)"
proof -
  have "\<forall>n\<in>set [0..<16]. hex_digit (hex_chars ! n) = n \<and> unreserved (hex_chars ! n)"
    by (simp add: upt_rec hex_chars_def hex_digit_def unreserved_def)
  with assms show "hex_digit (hex_chars ! n) = n" "unreserved (hex_chars ! n)" by auto
qed

lemma nibbles:
  fixes b :: byte
  shows "unat (drop_bit 4 b AND 0x0F) = unat b div 16" "unat (b AND 0x0F) = unat b mod 16"
proof -
  have m: "(0x0F :: byte) = mask 4" by (simp add: mask_eq_exp_minus_1)
  show "unat (b AND 0x0F) = unat b mod 16"
    by (simp only: m take_bit_eq_mask[symmetric] unsigned_take_bit_eq) (simp add: take_bit_eq_mod)
  have "unat b < 256" using unat_less_pow[of b] by simp
  then have "unat b div 16 mod 16 = unat b div 16" by simp
  then show "unat (drop_bit 4 b AND 0x0F) = unat b div 16"
    by (simp only: m take_bit_eq_mask[symmetric] unsigned_take_bit_eq unat_drop_bit_eq)
      (simp add: take_bit_eq_mod drop_bit_eq_div)
qed

lemma url_decode_byte: "url_decode (url_encode_byte b @ rest) = b # url_decode rest"
proof (cases "unreserved b")
  case True
  then have "b \<noteq> 37" by (auto simp: unreserved_def)
  with True show ?thesis by (simp add: url_encode_byte_def)
next
  case False
  have "unat b < 256" using unat_less_pow[of b] by simp
  then have "hex_digit (hex_chars ! (unat b div 16)) * 16 + hex_digit (hex_chars ! (unat b mod 16)) = unat b"
    by (simp add: hex_chars_props)
  with False show ?thesis
    unfolding url_encode_byte_def nibbles(1) by (simp add: nibbles(2) del: of_nat_add of_nat_mult)
qed

section \<open>Correctness\<close>

text \<open>C32: percent-encoding is lossless and URL safe: decoding restores the data, and the encoded text
  consists of unreserved characters and percent signs only.\<close>

theorem url_encode_lossless:
  "url_decode (url_encode data) = data \<and> list_all (\<lambda>c. unreserved c \<or> c = 37) (url_encode data)"
proof
  show "url_decode (url_encode data) = data"
    by (induction data) (simp_all add: url_encode_def url_decode_byte)
  have "unat b div 16 < 16" "unat b mod 16 < 16" for b :: byte
    using unat_less_pow[of b] by simp_all
  then show "list_all (\<lambda>c. unreserved c \<or> c = 37) (url_encode data)"
    unfolding list_all_iff by (auto simp: url_encode_def url_encode_byte_def nibbles hex_chars_props split: if_splits)
qed

text \<open>C21: the announce packet sent over UDP, on a first attempt and on a retry, has the 98-byte layout of
  the protocol, in network byte order on either kind of host, whatever the stack buffer held before.\<close>

theorem announce_packet:
  assumes "length ann_buf = 98" "length (info_hash (tc_torrent tc)) = 20" "length (tc_peer_id tc) = 20"
  shows "bindE (announce_request big tc ann_buf cid port up down lft event key) (\<lambda>b.
      bindE (write_uint32 b 12 tid1) (\<lambda>b1. bindE (write_uint32 b1 12 tid2) (\<lambda>b2. Inr (b1, b2)))) =
    Inr (announce_layout tc cid tid1 port up down lft event key, announce_layout tc cid tid2 port up down lft event key)"
  using announce_request_layout[OF assms, of big cid port up down lft event key]
  by (auto simp: announce_layout_def write_transaction)

theorem announce_packet_witness:
  "\<exists>b. announce_request False \<lparr>tc_torrent = \<lparr>md_name = [], announce_url = [], announce_list = [], piece_length = 1,
        total_length = 1, num_pieces = 1, piece_hashes = [], md_files = [], info_hash = replicate 20 7\<rparr>,
        tc_peer_id = replicate 20 8\<rparr> (replicate 98 0xAA) 5 6881 0 0 9 None 3 = Inr b"
  using announce_packet[of "replicate 98 0xAA" "\<lparr>tc_torrent = \<lparr>md_name = [], announce_url = [], announce_list = [], piece_length = 1,
        total_length = 1, num_pieces = 1, piece_hashes = [], md_files = [], info_hash = replicate 20 7\<rparr>,
        tc_peer_id = replicate 20 8\<rparr>" False 5 6881 0 0 9 None 3 1 2]
  by (auto simp: bindE_Inr_iff)



text \<open>A prefix of the trackers that all fail, and the world they leave.\<close>

fun all_fail :: "(bytes \<Rightarrow> 'w \<Rightarrow> ('e + 'r) \<times> 'w) \<Rightarrow> bytes list \<Rightarrow> 'w \<Rightarrow> 'w \<Rightarrow> bool" where
  "all_fail attempt [] w w' \<longleftrightarrow> w' = w"
| "all_fail attempt (url # urls) w w' \<longleftrightarrow>
     (case attempt url w of (Inl _, w1) \<Rightarrow> all_fail attempt urls w1 w' | (Inr _, _) \<Rightarrow> False)"

lemma announce_loop_result:
  "(case announce_loop attempt urls errs w of
      (Inr r, w') \<Rightarrow> \<exists>pre url post w1. urls = pre @ url # post \<and> all_fail attempt pre w w1 \<and> attempt url w1 = (Inr r, w')
    | (Inl e, w') \<Rightarrow> all_fail attempt urls w w' \<and> (\<exists>es. e = AllTrackersFailed (errs @ es) \<and> map fst es = urls))"
proof (induction urls arbitrary: errs w)
  case (Cons url urls)
  obtain r w1 where a: "attempt url w = (r, w1)" by fastforce
  show ?case
  proof (cases r)
    case (Inr res)
    with a have "url # urls = [] @ url # urls \<and> all_fail attempt [] w w \<and> attempt url w = (Inr res, w1)" by simp
    with Inr a show ?thesis by (simp del: append_Nil all_fail.simps) blast
  next
    case (Inl e)
    from Cons.IH[where errs = "errs @ [(url, e)]" and w = w1] Inl a show ?thesis
      by (auto split: sum.splits prod.splits)
        (metis (no_types, lifting) all_fail.simps(2) append_Cons case_prod_conv old.sum.simps(5))
  qed
qed simp

text \<open>C20: announcing returns the response of the first tracker of the list that gives one, after all
  trackers before it failed in turn; when none does, the error names every tracker of the list in order.\<close>

theorem announce_fallback:
  "(case announce big req_buf ann_buf net tc port up down lft event w of
      (Inr r, w') \<Rightarrow>
        \<exists>pre url post w1. announce_list (tc_torrent tc) = pre @ url # post \<and>
          all_fail (announce_attempt (\<lambda>url. announce_udp big req_buf ann_buf net tc url port up down lft event)
            (\<lambda>url. announce_http net tc url port up down lft event)) pre w w1 \<and>
          announce_attempt (\<lambda>url. announce_udp big req_buf ann_buf net tc url port up down lft event)
            (\<lambda>url. announce_http net tc url port up down lft event) url w1 = (Inr r, w')
    | (Inl e, w') \<Rightarrow>
        all_fail (announce_attempt (\<lambda>url. announce_udp big req_buf ann_buf net tc url port up down lft event)
            (\<lambda>url. announce_http net tc url port up down lft event)) (announce_list (tc_torrent tc)) w w' \<and>
        (\<exists>es. e = AllTrackersFailed es \<and> map fst es = announce_list (tc_torrent tc)))"
  unfolding announce_def
  using announce_loop_result[where errs = "[]" and attempt = "announce_attempt
      (\<lambda>url. announce_udp big req_buf ann_buf net tc url port up down lft event)
      (\<lambda>url. announce_http net tc url port up down lft event)" and urls = "announce_list (tc_torrent tc)" and w = w]
  by (simp only: append_Nil)

end
