(* ===== verification/Event_Loop.thy ===== *)
theory Event_Loop
  imports Prelude Torrent "HOL-Library.Multiset"
begin

text \<open>
  The event loop (\<^verbatim>\<open>include/event_loop.hpp\<close>, \<^verbatim>\<open>src/event_loop.cpp\<close>): callbacks of file descriptors
  and timers over epoll.  Callbacks are values of a type of callback names; the
  function that runs them on the state of the loop and of the rest of the program
  is a parameter, as are the epoll and clock calls of the system.  Times are in
  nanoseconds.  \<^verbatim>\<open>std::priority_queue\<close> promises a timer of least deadline at its top and
  leaves open which one; the choice is the parameter \<open>heap_top\<close>.  The inner and the outer loop may run forever, because a
  callback can always register another timer: their value is then \<open>None\<close>.  Of the latency statistics the samples and the percentiles are
  modelled, in whole microseconds.
\<close>

section \<open>State\<close>

record 'tcb Timer =
  t_id :: u64
  deadline :: int
  t_callback :: 'tcb

record ('cb, 'tcb) EventLoop =
  running :: bool
  next_timer_id :: u64
  fd_callbacks :: "int \<rightharpoonup> 'cb"
  timers :: "'tcb Timer list"
  cancelled_timers :: "u64 set"
  latencies_us :: "int list"

datatype poll_result = PollEvents "(int \<times> u32) list" | PollInterrupted | PollFailed

record 'w Epoll =
  epoll_add :: "int \<Rightarrow> u32 \<Rightarrow> 'w \<Rightarrow> bool \<times> 'w"
  epoll_mod :: "int \<Rightarrow> u32 \<Rightarrow> 'w \<Rightarrow> bool \<times> 'w"
  epoll_del :: "int \<Rightarrow> 'w \<Rightarrow> 'w"
  epoll_wait :: "int \<Rightarrow> 'w \<Rightarrow> poll_result \<times> 'w"
  steady_now :: "'w \<Rightarrow> int \<times> 'w"
  hires_now :: "'w \<Rightarrow> int \<times> 'w"

definition event_loop :: "('cb, 'tcb) EventLoop" where
  "event_loop = \<lparr>running = False, next_timer_id = 1, fd_callbacks = Map.empty, timers = [],
     cancelled_timers = {}, latencies_us = []\<rparr>"

section \<open>File descriptors\<close>

definition register_fd ::
  "'w Epoll \<Rightarrow> ('cb, 'tcb) EventLoop \<Rightarrow> int \<Rightarrow> u32 \<Rightarrow> 'cb option \<Rightarrow> 'w \<Rightarrow> bool \<times> ('cb, 'tcb) EventLoop \<times> 'w" where
  "register_fd os l fd events callback w =
     (case callback of
        None \<Rightarrow> (False, l, w)
      | Some cb \<Rightarrow>
          if fd < 0 then (False, l, w)
          else let (ok, w) = epoll_add os fd events w in
            if \<not> ok then (False, l, w) else (True, l\<lparr>fd_callbacks := (fd_callbacks l)(fd \<mapsto> cb)\<rparr>, w))"

definition modify_fd :: "'w Epoll \<Rightarrow> ('cb, 'tcb) EventLoop \<Rightarrow> int \<Rightarrow> u32 \<Rightarrow> 'w \<Rightarrow> bool \<times> 'w" where
  "modify_fd os l fd events w =
     (if fd < 0 \<or> fd_callbacks l fd = None then (False, w) else epoll_mod os fd events w)"

definition unregister_fd ::
  "'w Epoll \<Rightarrow> ('cb, 'tcb) EventLoop \<Rightarrow> int \<Rightarrow> 'w \<Rightarrow> bool \<times> ('cb, 'tcb) EventLoop \<times> 'w" where
  "unregister_fd os l fd w =
     (if fd < 0 then (False, l, w)
      else if fd_callbacks l fd = None then (False, l, w)
      else (True, l\<lparr>fd_callbacks := (fd_callbacks l)(fd := None)\<rparr>, epoll_del os fd w))"

section \<open>Timers\<close>

text \<open>The delay is in milliseconds.\<close>

definition register_timer ::
  "'w Epoll \<Rightarrow> ('cb, 'tcb) EventLoop \<Rightarrow> int \<Rightarrow> 'tcb option \<Rightarrow> 'w \<Rightarrow> u64 \<times> ('cb, 'tcb) EventLoop \<times> 'w" where
  "register_timer os l delay callback w =
     (case callback of
        None \<Rightarrow> (0, l, w)
      | Some cb \<Rightarrow>
          let id = next_timer_id l; (now, w) = steady_now os w in
          (id, l\<lparr>next_timer_id := id + 1,
                 timers := timers l @ [\<lparr>t_id = id, deadline = now + delay * 1000000, t_callback = cb\<rparr>]\<rparr>, w))"

definition cancel_timer :: "('cb, 'tcb) EventLoop \<Rightarrow> u64 \<Rightarrow> ('cb, 'tcb) EventLoop" where
  "cancel_timer l timer_id =
     (if timer_id > 0 then l\<lparr>cancelled_timers := insert timer_id (cancelled_timers l)\<rparr> else l)"

definition shutdown :: "('cb, 'tcb) EventLoop \<Rightarrow> ('cb, 'tcb) EventLoop" where
  "shutdown l = l\<lparr>running := False\<rparr>"

text \<open>What \<^verbatim>\<open>priority_queue::top\<close> promises: a position of least deadline.\<close>

definition heap_top_ok :: "('tcb Timer list \<Rightarrow> nat) \<Rightarrow> bool" where
  "heap_top_ok heap_top \<longleftrightarrow> (\<forall>ts. ts \<noteq> [] \<longrightarrow> heap_top ts < length ts \<and> (\<forall>t\<in>set ts. deadline (ts ! heap_top ts) \<le> deadline t))"

definition pop :: "('tcb Timer list \<Rightarrow> nat) \<Rightarrow> ('cb, 'tcb) EventLoop \<Rightarrow> ('cb, 'tcb) EventLoop" where
  "pop heap_top l = l\<lparr>timers := take (heap_top (timers l)) (timers l) @ drop (Suc (heap_top (timers l))) (timers l)\<rparr>"

type_synonym ('cb, 'tcb, 'w) loop_runner = "('cb, 'tcb) EventLoop \<times> 'w \<Rightarrow> (('cb, 'tcb) EventLoop \<times> 'w) effect"

text \<open>One round of the loop over the timers, on the loop, the world, the local \<^verbatim>\<open>now\<close> and the local
  \<^verbatim>\<open>timeout_ms\<close>, and whether the loop goes on.\<close>

definition timer_round ::
  "('tcb Timer list \<Rightarrow> nat) \<Rightarrow> 'w Epoll \<Rightarrow> ('tcb \<Rightarrow> ('cb, 'tcb, 'w) loop_runner) \<Rightarrow>
     ('cb, 'tcb) EventLoop \<times> 'w \<times> int \<times> int \<Rightarrow> (bool \<times> ('cb, 'tcb) EventLoop \<times> 'w \<times> int \<times> int) effect" where
  "timer_round heap_top os run_timer s =
     (let (l, w, now, timeout_ms) = s in
      if timers l = [] \<or> \<not> running l then returns (False, l, w, now, timeout_ms)
      else let next_timer = timers l ! heap_top (timers l) in
        if t_id next_timer \<in> cancelled_timers l
        then returns (True, pop heap_top (l\<lparr>cancelled_timers := cancelled_timers l - {t_id next_timer}\<rparr>), w, now, timeout_ms)
        else if deadline next_timer \<le> now
        then bindR (run_timer (t_callback next_timer) (pop heap_top l, w)) (\<lambda>(l, w).
               let (now, w) = steady_now os w in returns (True, l, w, now, timeout_ms))
        else returns (False, l, w, now, cast_int32 (nat ((deadline next_timer - now) div 1000000))))"

definition timer_phase ::
  "('tcb Timer list \<Rightarrow> nat) \<Rightarrow> 'w Epoll \<Rightarrow> ('tcb \<Rightarrow> ('cb, 'tcb, 'w) loop_runner) \<Rightarrow>
     ('cb, 'tcb) EventLoop \<Rightarrow> 'w \<Rightarrow> int \<Rightarrow> (('cb, 'tcb) EventLoop \<times> 'w \<times> int) effect" where
  "timer_phase heap_top os run_timer l w now =
     bindR (repeat_while (timer_round heap_top os run_timer) (l, w, now, - 1)) (\<lambda>(l, w, _, timeout_ms). returns (l, w, timeout_ms))"

section \<open>Dispatch\<close>

text \<open>\<^verbatim>\<open>duration_cast\<close> to microseconds truncates towards zero.\<close>

definition to_us :: "int \<Rightarrow> int" where
  "to_us ns = sgn ns * (\<bar>ns\<bar> div 1000)"

fun dispatch ::
  "'w Epoll \<Rightarrow> ('cb \<Rightarrow> int \<Rightarrow> u32 \<Rightarrow> ('cb, 'tcb, 'w) loop_runner) \<Rightarrow> int \<Rightarrow>
     (int \<times> u32) list \<Rightarrow> ('cb, 'tcb, 'w) loop_runner" where
  "dispatch os run_fd wait_end [] s = returns s"
| "dispatch os run_fd wait_end ((fd, evs) # events) s =
     (case fd_callbacks (fst s) fd of
        None \<Rightarrow> dispatch os run_fd wait_end events s
      | Some callback \<Rightarrow>
          let (callback_start, w) = hires_now os (snd s);
              l = (fst s)\<lparr>latencies_us := latencies_us (fst s) @ [to_us (callback_start - wait_end)]\<rparr> in
          bindR (run_fd callback fd evs (l, w)) (dispatch os run_fd wait_end events))"

definition loop_round ::
  "('tcb Timer list \<Rightarrow> nat) \<Rightarrow> 'w Epoll \<Rightarrow> ('tcb \<Rightarrow> ('cb, 'tcb, 'w) loop_runner) \<Rightarrow>
     ('cb \<Rightarrow> int \<Rightarrow> u32 \<Rightarrow> ('cb, 'tcb, 'w) loop_runner) \<Rightarrow>
     ('cb, 'tcb) EventLoop \<times> 'w \<Rightarrow> (bool \<times> ('cb, 'tcb) EventLoop \<times> 'w) effect" where
  "loop_round heap_top os run_timer run_fd s =
     (let (l, w) = s in
      if \<not> running l then returns (False, l, w)
      else let (now, w) = steady_now os w in
        bindR (timer_phase heap_top os run_timer l w now) (\<lambda>(l, w, timeout_ms).
          if \<not> running l then returns (False, l, w)
          else let (r, w) = epoll_wait os timeout_ms w in
            (case r of
               PollFailed \<Rightarrow> returns (False, l, w)
             | PollInterrupted \<Rightarrow> returns (True, l, w)
             | PollEvents events \<Rightarrow>
                 let (wait_end, w) = hires_now os w in
                 bindR (dispatch os run_fd wait_end events (l, w)) (\<lambda>s. returns (True, s)))))"

definition run ::
  "('tcb Timer list \<Rightarrow> nat) \<Rightarrow> 'w Epoll \<Rightarrow> ('tcb \<Rightarrow> ('cb, 'tcb, 'w) loop_runner) \<Rightarrow>
     ('cb \<Rightarrow> int \<Rightarrow> u32 \<Rightarrow> ('cb, 'tcb, 'w) loop_runner) \<Rightarrow> ('cb, 'tcb, 'w) loop_runner" where
  "run heap_top os run_timer run_fd s =
     repeat_while (loop_round heap_top os run_timer run_fd) ((fst s)\<lparr>running := True\<rparr>, snd s)"

text \<open>The percentiles of \<^verbatim>\<open>print_latency_stats\<close>: 50, 95 and 99, nothing without samples.\<close>

definition latency_percentiles :: "('cb, 'tcb) EventLoop \<Rightarrow> (int \<times> int \<times> int) option" where
  "latency_percentiles l =
     (if latencies_us l = [] then None
      else let sorted = sort (latencies_us l); n = length sorted in
        Some (sorted ! (n * 50 div 100), sorted ! (n * 95 div 100), sorted ! (n * 99 div 100)))"

section \<open>The timer phase\<close>

lemma timer_phase_unfold:
  "timer_phase heap_top os run_timer l w now =
     (if timers l = [] \<or> \<not> running l then returns (l, w, - 1)
      else let next_timer = timers l ! heap_top (timers l) in
        if t_id next_timer \<in> cancelled_timers l
        then timer_phase heap_top os run_timer
          (pop heap_top (l\<lparr>cancelled_timers := cancelled_timers l - {t_id next_timer}\<rparr>)) w now
        else if deadline next_timer \<le> now
        then bindR (run_timer (t_callback next_timer) (pop heap_top l, w)) (\<lambda>(l, w).
               let (now, w) = steady_now os w in timer_phase heap_top os run_timer l w now)
        else returns (l, w, cast_int32 (nat ((deadline next_timer - now) div 1000000))))"
  (is "_ = ?rhs")
proof -
  let ?fin = "\<lambda>(l, w, now, timeout_ms). returns (l, w, timeout_ms) :: (('cb, 'tcb) EventLoop \<times> 'w \<times> int) effect"
  have "timer_phase heap_top os run_timer l w now =
      bindR (timer_round heap_top os run_timer (l, w, now, - 1)) (\<lambda>(continue, s).
        if continue then bindR (repeat_while (timer_round heap_top os run_timer) s) ?fin else ?fin s)"
    unfolding timer_phase_def
    by (subst repeat_while_unfold, subst bindR_assoc, rule arg_cong[where f = "bindR _"], rule ext) (simp split: prod.split)
  also have "\<dots> = ?rhs"
    unfolding timer_round_def[of _ _ _ "(l, w, now, - 1)"] timer_phase_def Let_def prod.case
    by (simp add: bindR_assoc split_beta) (simp add: case_prod_beta')
  finally show ?thesis .
qed

lemma pop_sel [simp]:
  "running (pop heap_top l) = running l" "cancelled_timers (pop heap_top l) = cancelled_timers l"
  "fd_callbacks (pop heap_top l) = fd_callbacks l" "next_timer_id (pop heap_top l) = next_timer_id l"
  by (simp_all add: pop_def)

lemma mset_split_nth: "k < length xs \<Longrightarrow> mset xs = add_mset (xs ! k) (mset (take k xs @ drop (Suc k) xs))"
  by (subst id_take_nth_drop[of k xs]) simp_all

lemma mset_pop:
  assumes "heap_top_ok heap_top" "timers l \<noteq> []"
  shows "mset (timers l) = add_mset (timers l ! heap_top (timers l)) (mset (timers (pop heap_top l)))"
  using assms by (simp add: pop_def heap_top_ok_def) (metis mset_append mset_split_nth)

lemma pop_smaller:
  assumes "heap_top_ok heap_top" "timers l \<noteq> []"
  shows "length (timers (pop heap_top l)) < length (timers l)"
  using mset_pop[OF assms] by (metis lessI size_add_mset size_mset)

lemma pop_facts:
  assumes "heap_top_ok heap_top" "timers l \<noteq> []" "distinct (map t_id (timers l))"
    "t = timers l ! heap_top (timers l)"
  shows "mset (timers l) = add_mset t (mset (timers (pop heap_top l)))"
    "set (timers l) = insert t (set (timers (pop heap_top l)))"
    "distinct (map t_id (timers (pop heap_top l)))"
    "t_id t \<notin> t_id ` set (timers (pop heap_top l))"
    "\<forall>x\<in>set (timers l). deadline t \<le> deadline x"
proof -
  show ms: "mset (timers l) = add_mset t (mset (timers (pop heap_top l)))"
    using mset_pop[OF assms(1,2)] by (simp add: assms(4))
  then show "set (timers l) = insert t (set (timers (pop heap_top l)))"
    by (metis set_mset_add_mset_insert set_mset_mset)
  have "mset (map t_id (timers l)) = mset (map t_id (t # timers (pop heap_top l)))" using ms by simp
  then have "distinct (map t_id (t # timers (pop heap_top l)))"
    using assms(3) mset_eq_imp_distinct_iff by blast
  then show "distinct (map t_id (timers (pop heap_top l)))" "t_id t \<notin> t_id ` set (timers (pop heap_top l))"
    by simp_all
  show "\<forall>x\<in>set (timers l). deadline t \<le> deadline x"
    using assms(1,2,4) by (simp add: heap_top_ok_def)
qed

text \<open>What is due: the timers whose deadline has passed and that are not cancelled.\<close>

definition due :: "int \<Rightarrow> u64 set \<Rightarrow> 'tcb Timer multiset \<Rightarrow> 'tcb Timer multiset" where
  "due now cancelled ts = filter_mset (\<lambda>t. deadline t \<le> now \<and> t_id t \<notin> cancelled) ts"

lemma filter_none: "(\<And>x. x \<in># M \<Longrightarrow> \<not> P x) \<Longrightarrow> filter_mset P M = {#}"
  by (metis filter_mset_eq_conv filter_mset_cong filter_mset_False)

lemma due_without:
  assumes "i \<notin> t_id ` set_mset ts"
  shows "due now (c - {i}) ts = due now c ts"
  using assms unfolding due_def by (intro filter_mset_cong) auto

text \<open>With callbacks that leave the loop alone and a clock that stands still, the phase ends, and
  runs exactly what is due, in the order of deadlines.\<close>

lemma timer_phase_quiet:
  assumes top: "heap_top_ok heap_top" and clock: "\<And>w. steady_now os w = (now, w)"
    and quiet: "\<And>cb l w. run_timer cb (l, w) = returns (l, f cb w)"
  shows "running l \<Longrightarrow> distinct (map t_id (timers l)) \<Longrightarrow>
    \<exists>fired l' timeout_ms. timer_phase heap_top os run_timer l w now =
        returns (l', fold f (map t_callback fired) w, timeout_ms) \<and>
      mset fired = due now (cancelled_timers l) (mset (timers l)) \<and> sorted (map deadline fired) \<and>
      (\<forall>t\<in>set (timers l'). now < deadline t) \<and> set (timers l') \<subseteq> set (timers l) \<and>
      (\<forall>t\<in>set (timers l). now < deadline t \<and> t_id t \<notin> cancelled_timers l \<longrightarrow> t \<in> set (timers l'))"
proof (induction "length (timers l)" arbitrary: l w rule: less_induct)
  case less
  show ?case
  proof (cases "timers l = []")
    case True
    then show ?thesis
      by (subst timer_phase_unfold) (auto simp: due_def intro!: exI[of _ "[]"])
  next
    case False
    define t where "t = timers l ! heap_top (timers l)"
    note facts = pop_facts[OF top False less.prems(2) t_def]
    note ms = facts(1) and st = facts(2) and dist = facts(3,4) and min = facts(5)
    note smaller = pop_smaller[OF top False]
    consider "t_id t \<in> cancelled_timers l" | "t_id t \<notin> cancelled_timers l" "deadline t \<le> now"
      | "t_id t \<notin> cancelled_timers l" "now < deadline t" by linarith
    then show ?thesis
    proof cases
      case 1
      let ?l = "pop heap_top (l\<lparr>cancelled_timers := cancelled_timers l - {t_id t}\<rparr>)"
      have same: "timers ?l = timers (pop heap_top l)" by (simp add: pop_def)
      have step: "timer_phase heap_top os run_timer l w now = timer_phase heap_top os run_timer ?l w now"
        using 1 False less.prems(1) by (subst timer_phase_unfold) (simp add: Let_def t_def)
      have due: "due now (cancelled_timers l - {t_id t}) (mset (timers (pop heap_top l))) =
          due now (cancelled_timers l) (mset (timers l))"
        using 1 dist(2) by (subst due_without) (simp_all add: ms, simp add: due_def)
      show ?thesis
        unfolding step using less.hyps[of ?l w] smaller same dist less.prems(1) due st 1
        by (auto simp: image_iff) blast
    next
      case 2
      have step: "timer_phase heap_top os run_timer l w now =
          timer_phase heap_top os run_timer (pop heap_top l) (f (t_callback t) w) now"
        using 2 False less.prems(1) by (subst timer_phase_unfold) (simp add: Let_def t_def quiet clock)
      from less.hyps[OF smaller, of "f (t_callback t) w"] dist less.prems(1) obtain fired l' tmo where
        ih: "timer_phase heap_top os run_timer (pop heap_top l) (f (t_callback t) w) now =
            returns (l', fold f (map t_callback fired) (f (t_callback t) w), tmo)"
          "mset fired = due now (cancelled_timers l) (mset (timers (pop heap_top l)))" "sorted (map deadline fired)"
          "\<forall>t\<in>set (timers l'). now < deadline t" "set (timers l') \<subseteq> set (timers (pop heap_top l))"
          "\<forall>t\<in>set (timers (pop heap_top l)). now < deadline t \<and> t_id t \<notin> cancelled_timers l \<longrightarrow> t \<in> set (timers l')"
        by auto
      have "set fired \<subseteq> set (timers l)"
        using arg_cong[OF ih(2), of set_mset] by (auto simp: due_def st)
      then have "sorted (map deadline (t # fired))" using ih(3) min by auto
      moreover have "mset (t # fired) = due now (cancelled_timers l) (mset (timers l))"
        using ih(2) 2 by (simp add: ms due_def)
      ultimately show ?thesis
        unfolding step using ih st 2 by (intro exI[of _ "t # fired"]) auto
    next
      case 3
      have "mset [] = due now (cancelled_timers l) (mset (timers l))"
        using min 3 unfolding due_def by (subst filter_none) auto
      moreover have "\<exists>tmo. timer_phase heap_top os run_timer l w now = returns (l, w, tmo)"
        using 3 False less.prems(1) by (subst timer_phase_unfold) (simp add: Let_def t_def[symmetric])
      ultimately show ?thesis
        using min 3 by (elim exE) (rule exI[of _ "[]"], auto)
    qed
  qed
qed

section \<open>Invariants of a running loop\<close>

text \<open>The interface between the loop and the program it runs: a property of the loop and the rest of the program
  that depends of the loop only on its descriptors, and that system calls and callbacks keep, holds when the loop ends.\<close>

locale loop_client =
  fixes os :: "'w Epoll" and run_timer :: "'tcb \<Rightarrow> ('cb, 'tcb, 'w) loop_runner"
    and run_fd :: "'cb \<Rightarrow> int \<Rightarrow> u32 \<Rightarrow> ('cb, 'tcb, 'w) loop_runner" and J :: "('cb, 'tcb) EventLoop \<times> 'w \<Rightarrow> bool"
  assumes J_loop: "J (l, w) \<Longrightarrow> fd_callbacks l' = fd_callbacks l \<Longrightarrow> J (l', w)"
    and J_clock: "J (l, w) \<Longrightarrow> J (l, snd (steady_now os w))" "J (l, w) \<Longrightarrow> J (l, snd (hires_now os w))"
    and J_wait: "J (l, w) \<Longrightarrow> J (l, snd (epoll_wait os timeout_ms w))"
    and J_timer: "J (l, w) \<Longrightarrow> yields J (run_timer tcb (l, w))"
    and J_fd: "J (l, w) \<Longrightarrow> fd_callbacks l fd = Some cb \<Longrightarrow> yields J (run_fd cb fd evs (l, w))"
begin

lemma timer_round_J:
  assumes "J (l, w)"
  shows "yields (\<lambda>(continue, l, w, now, timeout_ms). J (l, w)) (timer_round heap_top os run_timer (l, w, now, timeout_ms))"
proof -
  have pop: "J (pop heap_top (l\<lparr>cancelled_timers := c\<rparr>), w)" for c by (rule J_loop[OF assms]) simp
  have "yields J (run_timer tcb (pop heap_top l, w))" for tcb by (intro J_timer J_loop[OF assms]) simp
  then have "yields (\<lambda>a. J (fst a, snd (steady_now os (snd a)))) (run_timer tcb (pop heap_top l, w))" for tcb
    by (rule yields_mono) (auto intro: J_clock)
  with assms pop show ?thesis by (simp add: timer_round_def Let_def split_beta)
qed

lemma timer_phase_J: "J (l, w) \<Longrightarrow> yields (\<lambda>(l, w, timeout_ms). J (l, w)) (timer_phase heap_top os run_timer l w now)"
  unfolding timer_phase_def
  by (rule yields_bindI, rule repeat_while_yields[where I = "\<lambda>(l, w, now, timeout_ms). J (l, w)"])
    (auto elim!: yields_mono[OF timer_round_J])

lemma dispatch_J: "J s \<Longrightarrow> yields J (dispatch os run_fd wait_end events s)"
proof (induction events arbitrary: s)
  case (Cons e events)
  obtain fd evs where e: "e = (fd, evs)" by fastforce
  obtain l w where s: "s = (l, w)" by fastforce
  have "J (l\<lparr>latencies_us := lat\<rparr>, snd (hires_now os w))" for lat
    using J_clock(2)[of l w] J_loop Cons.prems s by auto
  from J_fd[OF this] have fd: "fd_callbacks l fd = Some cb \<Longrightarrow> yields J (run_fd cb fd evs (l\<lparr>latencies_us := lat\<rparr>, snd (hires_now os w)))"
    for cb lat by simp
  have "yields (\<lambda>s. yields J (dispatch os run_fd wait_end events s))
      (run_fd cb fd evs (l\<lparr>latencies_us := lat\<rparr>, snd (hires_now os w)))" if "fd_callbacks l fd = Some cb" for cb lat
    by (rule yields_mono[OF fd[OF that] Cons.IH])
  with Cons show ?case by (simp add: e s Let_def split_beta split: option.split)
qed simp

lemma loop_round_J:
  assumes "J (l, w)"
  shows "yields (\<lambda>(continue, s). J s) (loop_round heap_top os run_timer run_fd (l, w))"
proof -
  have "yields (\<lambda>(l, w, timeout_ms). J (l, w)) (timer_phase heap_top os run_timer l (snd (steady_now os w)) (fst (steady_now os w)))"
    by (rule timer_phase_J[OF J_clock(1)[OF assms]])
  then show ?thesis
    unfolding loop_round_def Let_def split_beta fst_conv snd_conv
    using assms by (cases "running l") (simp_all, erule yields_mono,
        auto simp: dispatch_J[OF J_clock(2)[OF J_wait]] J_wait split_beta split: poll_result.split intro!: yields_mono[OF dispatch_J[OF J_clock(2)[OF J_wait]]])
qed

lemma run_J: "J s \<Longrightarrow> yields J (run heap_top os run_timer run_fd s)"
  unfolding run_def
  by (rule repeat_while_yields[of J]) (use J_loop[of "fst s" "snd s"] loop_round_J in auto)

end

section \<open>Correctness\<close>


fun least_deadline :: "'tcb Timer list \<Rightarrow> nat" where
  "least_deadline [] = 0"
| "least_deadline [t] = 0"
| "least_deadline (t # ts) =
     (if deadline t \<le> deadline (ts ! least_deadline ts) then 0 else Suc (least_deadline ts))"

lemma least_deadline_ok: "heap_top_ok least_deadline"
proof -
  have "ts \<noteq> [] \<Longrightarrow> least_deadline ts < length ts \<and> (\<forall>t\<in>set ts. deadline (ts ! least_deadline ts) \<le> deadline t)"
    for ts :: "'a Timer list"
    by (induction ts rule: least_deadline.induct) auto
  then show ?thesis by (simp add: heap_top_ok_def)
qed

definition frozen :: "int \<Rightarrow> nat list Epoll" where
  "frozen now = \<lparr>epoll_add = (\<lambda>_ _ w. (True, w)), epoll_mod = (\<lambda>_ _ w. (True, w)), epoll_del = (\<lambda>_ w. w),
     epoll_wait = (\<lambda>_ w. (PollEvents [], w)), steady_now = (\<lambda>w. (now, w)),
     hires_now = (\<lambda>w. (now, w))\<rparr>"


end
