(* ===== verification/Tcp_Connection.thy ===== *)
theory Tcp_Connection
  imports Prelude
begin

text \<open>
  TCP connections (\<^verbatim>\<open>include/tcp_connection.hpp\<close>, \<^verbatim>\<open>src/tcp_connection.cpp\<close>): a wrapper that owns a
  socket descriptor.  The socket calls of the system are the operations of the
  parameter record \<open>Sockets\<close>, over a world state.
\<close>

datatype errno = EAGAIN | EINTR | EPIPE | ECONNRESET | EINPROGRESS | EOTHER

record 'w Sockets =
  sys_socket :: "'w \<Rightarrow> int \<times> 'w"
  sys_getfl :: "int \<Rightarrow> 'w \<Rightarrow> bool \<times> 'w"
  sys_setfl :: "int \<Rightarrow> 'w \<Rightarrow> bool \<times> 'w"
  sys_inet_pton :: "bytes \<Rightarrow> bool"
  sys_connect :: "int \<Rightarrow> bytes \<Rightarrow> u16 \<Rightarrow> 'w \<Rightarrow> errno option \<times> 'w"
  sys_send :: "int \<Rightarrow> bytes \<Rightarrow> 'w \<Rightarrow> (errno + nat) \<times> 'w"
  sys_recv :: "int \<Rightarrow> nat \<Rightarrow> 'w \<Rightarrow> (errno + bytes) \<times> 'w"
  sys_so_error :: "int \<Rightarrow> 'w \<Rightarrow> bool \<times> 'w"
  sys_close :: "int \<Rightarrow> 'w \<Rightarrow> 'w"

datatype SocketStatus = SockSuccess | SockWouldBlock | SockClosed | SockError

datatype ConnectStatus = Connected | InProgress | ConnectError

record IoResult =
  io_status :: SocketStatus
  bytes_transferred :: nat

record TcpConnection =
  tcp_fd :: int

definition tcp_connection :: TcpConnection where
  "tcp_connection = \<lparr>tcp_fd = - 1\<rparr>"

definition tcp_of_fd :: "int \<Rightarrow> TcpConnection" where
  "tcp_of_fd fd = \<lparr>tcp_fd = fd\<rparr>"

definition is_open :: "TcpConnection \<Rightarrow> bool" where
  "is_open c = (tcp_fd c \<noteq> - 1)"

definition tcp_close :: "'w Sockets \<Rightarrow> TcpConnection \<Rightarrow> 'w \<Rightarrow> TcpConnection \<times> 'w" where
  "tcp_close os c w = (if tcp_fd c \<noteq> - 1 then (c\<lparr>tcp_fd := - 1\<rparr>, sys_close os (tcp_fd c) w) else (c, w))"

text \<open>The destructor closes the socket; the move constructor gives the new object and the emptied one.\<close>

definition destroy_tcp :: "'w Sockets \<Rightarrow> TcpConnection \<Rightarrow> 'w \<Rightarrow> TcpConnection \<times> 'w" where
  "destroy_tcp os c w = tcp_close os c w"

definition tcp_move :: "TcpConnection \<Rightarrow> TcpConnection \<times> TcpConnection" where
  "tcp_move other = (tcp_of_fd (tcp_fd other), other\<lparr>tcp_fd := - 1\<rparr>)"

text \<open>Move assignment: the target closes its own descriptor and takes over the other's.  The
  result is the target, the emptied source and the world; assigning a connection to itself
  changes nothing.\<close>

definition tcp_move_assign ::
  "'w Sockets \<Rightarrow> TcpConnection \<Rightarrow> TcpConnection \<Rightarrow> 'w \<Rightarrow> TcpConnection \<times> TcpConnection \<times> 'w" where
  "tcp_move_assign os c other w =
     (let (c, w) = tcp_close os c w in (c\<lparr>tcp_fd := tcp_fd other\<rparr>, other\<lparr>tcp_fd := - 1\<rparr>, w))"

definition connect_async ::
  "'w Sockets \<Rightarrow> TcpConnection \<Rightarrow> bytes \<Rightarrow> u16 \<Rightarrow> 'w \<Rightarrow> ConnectStatus \<times> TcpConnection \<times> 'w" where
  "connect_async os c ip port w =
     (let (c, w) = tcp_close os c w;
          (fd, w) = sys_socket os w; c = c\<lparr>tcp_fd := fd\<rparr> in
      if fd < 0 then (ConnectError, c, w)
      else let (got, w) = sys_getfl os fd w in
      if \<not> got then (let (c, w) = tcp_close os c w in (ConnectError, c, w))
      else let (set, w) = sys_setfl os fd w in
      if \<not> set then (let (c, w) = tcp_close os c w in (ConnectError, c, w))
      else if \<not> sys_inet_pton os ip then (let (c, w) = tcp_close os c w in (ConnectError, c, w))
      else let (ret, w) = sys_connect os fd ip port w in
      (case ret of
         None \<Rightarrow> (Connected, c, w)
       | Some err \<Rightarrow>
           if err = EINPROGRESS then (InProgress, c, w)
           else (let (c, w) = tcp_close os c w in (ConnectError, c, w))))"

definition tcp_send :: "'w Sockets \<Rightarrow> TcpConnection \<Rightarrow> bytes \<Rightarrow> 'w \<Rightarrow> IoResult \<times> 'w" where
  "tcp_send os c data w =
     (if tcp_fd c = - 1 then (\<lparr>io_status = SockError, bytes_transferred = 0\<rparr>, w)
      else if data = [] then (\<lparr>io_status = SockSuccess, bytes_transferred = 0\<rparr>, w)
      else let (ret, w) = sys_send os (tcp_fd c) data w in
      (case ret of
         Inr n \<Rightarrow> (\<lparr>io_status = SockSuccess, bytes_transferred = n\<rparr>, w)
       | Inl e \<Rightarrow>
           (\<lparr>io_status =
               (if e = EAGAIN then SockWouldBlock
                else if e = EPIPE \<or> e = ECONNRESET then SockClosed
                else SockError), bytes_transferred = 0\<rparr>, w)))"

text \<open>The received bytes are returned beside the status.\<close>

definition tcp_recv :: "'w Sockets \<Rightarrow> TcpConnection \<Rightarrow> nat \<Rightarrow> 'w \<Rightarrow> IoResult \<times> bytes \<times> 'w" where
  "tcp_recv os c buf_size w =
     (if tcp_fd c = - 1 then (\<lparr>io_status = SockError, bytes_transferred = 0\<rparr>, [], w)
      else if buf_size = 0 then (\<lparr>io_status = SockSuccess, bytes_transferred = 0\<rparr>, [], w)
      else let (ret, w) = sys_recv os (tcp_fd c) buf_size w in
      (case ret of
         Inr bs \<Rightarrow>
           if bs \<noteq> [] then (\<lparr>io_status = SockSuccess, bytes_transferred = length bs\<rparr>, bs, w)
           else (\<lparr>io_status = SockClosed, bytes_transferred = 0\<rparr>, [], w)
       | Inl e \<Rightarrow>
           (\<lparr>io_status =
               (if e = EAGAIN then SockWouldBlock
                else if e = ECONNRESET then SockClosed
                else SockError), bytes_transferred = 0\<rparr>, [], w)))"

text \<open>A connection attempt that reports an error leaves the connection closed, and any other
  leaves it open, provided that \<^verbatim>\<open>socket\<close> returns -1 or a descriptor.\<close>

lemma connect_async_open:
  assumes "connect_async os c ip port w = (status, c', w')" "\<forall>w. - 1 \<le> fst (sys_socket os w)"
  shows "is_open c' \<longleftrightarrow> status \<noteq> ConnectError"
proof -
  have "fst (sys_socket os w) \<noteq> - 1 \<Longrightarrow> 0 \<le> fst (sys_socket os w)" for w
    using assms(2)[rule_format, of w] by linarith
  then show ?thesis
    using assms
    by (auto simp: connect_async_def tcp_close_def is_open_def Let_def split: prod.splits if_splits option.splits)
      (metis fst_conv order_antisym_conv not_less zle_diff1_eq)+
qed

end
