(* ===== verification/Peer_Connection.thy ===== *)
theory Peer_Connection
  imports Peer_Message Tcp_Connection
begin

text \<open>
  Peer connections (\<^verbatim>\<open>include/peer_connection.hpp\<close>, \<^verbatim>\<open>src/peer_connection.cpp\<close>): the state machine of
  one connection, its receive and transmit buffers and the framing of messages.  The
  callbacks a connection holds are names of type \<open>'cb\<close>; the parameter \<open>run\<close> runs them on the
  connection and the rest of the program, whose type is \<open>'w\<close>.  The socket calls and the
  operations of the event loop that the connection uses are the parameter \<open>env\<close>.  The loops
  around \<^verbatim>\<open>send\<close> and \<^verbatim>\<open>recv\<close> end only if the system lets them, so they are partial functions.
\<close>

section \<open>State\<close>

datatype ConnectionState = Idle | Connecting | Handshaking | Active | Disconnected

record 'cb PeerConnection =
  pc_ip :: bytes
  pc_port :: u16
  pc_info_hash :: bytes
  pc_our_peer_id :: bytes
  pc_conn :: TcpConnection
  pc_state :: ConnectionState
  am_choking :: bool
  am_interested :: bool
  peer_choking :: bool
  peer_interested :: bool
  rx_buffer :: bytes
  tx_buffer :: bytes
  on_handshake_cb :: "'cb option"
  on_message_cb :: "'cb option"
  on_disconnect_cb :: "'cb option"

datatype callback_event = CbHandshake HandshakeMsg | CbMessage PeerMessage | CbDisconnect

type_synonym ('cb, 'w) runner =
  "'cb \<Rightarrow> callback_event \<Rightarrow> 'cb PeerConnection \<times> 'w \<Rightarrow> ('cb PeerConnection \<times> 'w) effect"

record 'w PeerEnv =
  env_sock :: "'w Sockets"
  env_register :: "int \<Rightarrow> u32 \<Rightarrow> 'w \<Rightarrow> bool \<times> 'w"
  env_modify :: "int \<Rightarrow> u32 \<Rightarrow> 'w \<Rightarrow> 'w"
  env_unregister :: "int \<Rightarrow> 'w \<Rightarrow> 'w"

definition EPOLLIN :: u32 where "EPOLLIN = 0x001"
definition EPOLLOUT :: u32 where "EPOLLOUT = 0x004"
definition EPOLLERR :: u32 where "EPOLLERR = 0x008"
definition EPOLLHUP :: u32 where "EPOLLHUP = 0x010"
definition EPOLLRDHUP :: u32 where "EPOLLRDHUP = 0x2000"

definition peer_connection :: "bytes \<Rightarrow> u16 \<Rightarrow> bytes \<Rightarrow> bytes \<Rightarrow> 'cb PeerConnection" where
  "peer_connection ip port ih our_id =
     \<lparr>pc_ip = ip, pc_port = port, pc_info_hash = ih, pc_our_peer_id = our_id, pc_conn = tcp_connection,
      pc_state = Idle, am_choking = True, am_interested = False, peer_choking = True, peer_interested = False,
      rx_buffer = [], tx_buffer = [], on_handshake_cb = None, on_message_cb = None, on_disconnect_cb = None\<rparr>"

definition run_callback ::
  "('cb, 'w) runner \<Rightarrow> 'cb option \<Rightarrow> callback_event \<Rightarrow> 'cb PeerConnection \<times> 'w \<Rightarrow> ('cb PeerConnection \<times> 'w) effect" where
  "run_callback run cb ev s = (case cb of None \<Rightarrow> returns s | Some f \<Rightarrow> run f ev s)"

section \<open>Disconnecting\<close>

definition disconnect ::
  "('cb, 'w) runner \<Rightarrow> 'w PeerEnv \<Rightarrow> 'cb PeerConnection \<times> 'w \<Rightarrow> ('cb PeerConnection \<times> 'w) effect" where
  "disconnect run env s =
     (let (c, w) = s in
      if pc_state c = Disconnected then returns (c, w)
      else let
        c = c\<lparr>pc_state := Disconnected\<rparr>;
        (conn, w) = (if is_open (pc_conn c)
                     then tcp_close (env_sock env) (pc_conn c) (env_unregister env (tcp_fd (pc_conn c)) w)
                     else (pc_conn c, w));
        c = c\<lparr>pc_conn := conn, rx_buffer := [], tx_buffer := []\<rparr> in
        run_callback run (on_disconnect_cb c) CbDisconnect (c, w))"

text \<open>The destructor disconnects; the destructor of the socket then closes what is still open.  What is left of the object is
  its disconnected state.\<close>

definition destroy_connection ::
  "('cb, 'w) runner \<Rightarrow> 'w PeerEnv \<Rightarrow> 'cb PeerConnection \<times> 'w \<Rightarrow> ('cb PeerConnection \<times> 'w) effect" where
  "destroy_connection run env s =
     bindR (disconnect run env s) (\<lambda>(c, w).
       let (conn, w) = destroy_tcp (env_sock env) (pc_conn c) w in returns (c\<lparr>pc_conn := conn\<rparr>, w))"

definition update_epoll_interests :: "'w PeerEnv \<Rightarrow> 'cb PeerConnection \<Rightarrow> 'w \<Rightarrow> 'w" where
  "update_epoll_interests env c w =
     (if pc_state c = Disconnected \<or> pc_state c = Idle then w
      else let
        events = EPOLLIN OR EPOLLRDHUP OR EPOLLERR OR EPOLLHUP;
        events = (if tx_buffer c \<noteq> [] \<or> pc_state c = Connecting then events OR EPOLLOUT else events) in
        env_modify env (tcp_fd (pc_conn c)) events w)"

section \<open>Sending\<close>

text \<open>The result is the number of bytes sent, whether an error ended the loop, and the world.
  A call that sends nothing without an error is simply repeated.\<close>

partial_function (option) send_loop ::
  "'w Sockets \<Rightarrow> int \<Rightarrow> bytes \<Rightarrow> nat \<Rightarrow> 'w \<Rightarrow> (nat \<times> bool \<times> 'w) option" where
  "send_loop os fd tx total_sent w =
     (if total_sent < length tx then
        (case sys_send os fd (drop total_sent tx) w of (r, w') \<Rightarrow>
          (case r of
             Inr sent \<Rightarrow> send_loop os fd tx (total_sent + sent) w'
           | Inl e \<Rightarrow>
               if e = EAGAIN then Some (total_sent, False, w')
               else if e = EINTR then send_loop os fd tx total_sent w'
               else Some (total_sent, True, w')))
      else Some (total_sent, False, w))"

definition handle_write ::
  "('cb, 'w) runner \<Rightarrow> 'w PeerEnv \<Rightarrow> 'cb PeerConnection \<times> 'w \<Rightarrow> ('cb PeerConnection \<times> 'w) effect" where
  "handle_write run env s =
     (let (c, w) = s in
      if tx_buffer c = [] then returns (c, update_epoll_interests env c w)
      else Option.bind (send_loop (env_sock env) (tcp_fd (pc_conn c)) (tx_buffer c) 0 w) (\<lambda>(total_sent, error, w).
        let c = c\<lparr>tx_buffer := drop total_sent (tx_buffer c)\<rparr> in
        if error then disconnect run env (c, w)
        else returns (c, update_epoll_interests env c w)))"

fun note_sent :: "PeerMessage \<Rightarrow> 'cb PeerConnection \<Rightarrow> 'cb PeerConnection" where
  "note_sent ChokeMsg c = c\<lparr>am_choking := True\<rparr>"
| "note_sent UnchokeMsg c = c\<lparr>am_choking := False\<rparr>"
| "note_sent InterestedMsg c = c\<lparr>am_interested := True\<rparr>"
| "note_sent NotInterestedMsg c = c\<lparr>am_interested := False\<rparr>"
| "note_sent _ c = c"

definition send_message ::
  "('cb, 'w) runner \<Rightarrow> 'w PeerEnv \<Rightarrow> PeerMessage \<Rightarrow> 'cb PeerConnection \<times> 'w \<Rightarrow> ('cb PeerConnection \<times> 'w) effect" where
  "send_message run env msg s =
     (let (c, w) = s in
      if pc_state c = Disconnected then returns (c, w)
      else let c = note_sent msg c in
        bindR (lift_mem (serialize msg)) (\<lambda>bs.
        let c = c\<lparr>tx_buffer := tx_buffer c @ bs\<rparr> in
        if pc_state c = Handshaking \<or> pc_state c = Active then handle_write run env (c, w)
        else returns (c, w)))"

definition send_handshake ::
  "('cb, 'w) runner \<Rightarrow> 'w PeerEnv \<Rightarrow> 'cb PeerConnection \<times> 'w \<Rightarrow> ('cb PeerConnection \<times> 'w) effect" where
  "send_handshake run env s =
     (let (c, w) = s in
      bindR (lift_mem (handshake_serialize
        \<lparr>reserved = replicate 8 0, hs_info_hash = pc_info_hash c, hs_peer_id = pc_our_peer_id c\<rparr>)) (\<lambda>bs.
      handle_write run env (c\<lparr>tx_buffer := tx_buffer c @ bs\<rparr>, w)))"

section \<open>Receiving\<close>

text \<open>The bytes received, whether the peer closed, whether an error occurred, and the world.\<close>

partial_function (option) recv_loop ::
  "'w Sockets \<Rightarrow> int \<Rightarrow> bytes \<Rightarrow> 'w \<Rightarrow> (bytes \<times> bool \<times> bool \<times> 'w) option" where
  "recv_loop os fd rx w =
     (case sys_recv os fd 4096 w of (r, w') \<Rightarrow>
       (case r of
          Inr bs \<Rightarrow> if bs \<noteq> [] then recv_loop os fd (rx @ bs) w' else Some (rx, True, False, w')
        | Inl e \<Rightarrow>
            if e = EAGAIN then Some (rx, False, False, w')
            else if e = EINTR then recv_loop os fd rx w'
            else Some (rx, False, True, w')))"

fun note_received :: "PeerMessage \<Rightarrow> 'cb PeerConnection \<Rightarrow> 'cb PeerConnection" where
  "note_received ChokeMsg c = c\<lparr>peer_choking := True\<rparr>"
| "note_received UnchokeMsg c = c\<lparr>peer_choking := False\<rparr>"
| "note_received InterestedMsg c = c\<lparr>peer_interested := True\<rparr>"
| "note_received NotInterestedMsg c = c\<lparr>peer_interested := False\<rparr>"
| "note_received _ c = c"

text \<open>A message that has been taken off the receive buffer: its flag, and the callback.\<close>

definition deliver_message ::
  "('cb, 'w) runner \<Rightarrow> PeerMessage \<Rightarrow> 'cb PeerConnection \<times> 'w \<Rightarrow> ('cb PeerConnection \<times> 'w) effect" where
  "deliver_message run msg s =
     (let (c, w) = s; c = note_received msg c in run_callback run (on_message_cb c) (CbMessage msg) (c, w))"

text \<open>One round of the loop of \<^verbatim>\<open>process_rx_buffer\<close>: the new state, and whether the loop goes on.\<close>

definition process_step ::
  "('cb, 'w) runner \<Rightarrow> 'w PeerEnv \<Rightarrow> 'cb PeerConnection \<times> 'w \<Rightarrow> (bool \<times> 'cb PeerConnection \<times> 'w) effect" where
  "process_step run env s =
     (let (c, w) = s in
      if pc_state c = Handshaking then
        (if length (rx_buffer c) < 68 then returns (False, c, w)
         else case handshake_deserialize (take 68 (rx_buffer c)) of
           None \<Rightarrow> bindR (disconnect run env (c, w)) (\<lambda>s. returns (False, s))
         | Some handshake \<Rightarrow>
             let c = c\<lparr>rx_buffer := drop 68 (rx_buffer c), pc_state := Active\<rparr> in
             bindR (run_callback run (on_handshake_cb c) (CbHandshake handshake) (c, w)) (\<lambda>s. returns (True, s)))
      else if pc_state c = Active then
        bindR (lift_mem (deserialize (rx_buffer c))) (\<lambda>(msg_opt, consumed).
          if msg_opt = None \<and> consumed = 0 then returns (False, c, w)
          else let c = c\<lparr>rx_buffer := drop consumed (rx_buffer c)\<rparr> in
            (case msg_opt of
               None \<Rightarrow> returns (True, c, w)
             | Some msg \<Rightarrow> bindR (deliver_message run msg (c, w)) (\<lambda>s. returns (True, s))))
      else returns (False, c\<lparr>rx_buffer := []\<rparr>, w))"

definition process_rx_buffer ::
  "('cb, 'w) runner \<Rightarrow> 'w PeerEnv \<Rightarrow> 'cb PeerConnection \<times> 'w \<Rightarrow> ('cb PeerConnection \<times> 'w) effect" where
  "process_rx_buffer run env s =
     repeat_while (\<lambda>s. if rx_buffer (fst s) = [] then returns (False, s) else process_step run env s) s"

definition handle_read ::
  "('cb, 'w) runner \<Rightarrow> 'w PeerEnv \<Rightarrow> 'cb PeerConnection \<times> 'w \<Rightarrow> ('cb PeerConnection \<times> 'w) effect" where
  "handle_read run env s =
     (let (c, w) = s in
      Option.bind (recv_loop (env_sock env) (tcp_fd (pc_conn c)) (rx_buffer c) w) (\<lambda>(rx, closed, error, w).
        let c = c\<lparr>rx_buffer := rx\<rparr> in
        if closed then disconnect run env (c, w)
        else if error then disconnect run env (c, w)
        else process_rx_buffer run env (c, w)))"

section \<open>Events and connecting\<close>

definition handle_error ::
  "('cb, 'w) runner \<Rightarrow> 'w PeerEnv \<Rightarrow> 'cb PeerConnection \<times> 'w \<Rightarrow> ('cb PeerConnection \<times> 'w) effect" where
  "handle_error run env s = disconnect run env s"

text \<open>The part of \<^verbatim>\<open>handle_events\<close> for a connection that is being established: the new state, and
  whether handling goes on.\<close>

definition finish_connect ::
  "('cb, 'w) runner \<Rightarrow> 'w PeerEnv \<Rightarrow> u32 \<Rightarrow> 'cb PeerConnection \<times> 'w \<Rightarrow> (bool \<times> 'cb PeerConnection \<times> 'w) effect" where
  "finish_connect run env events s =
     (let (c, w) = s in
      if pc_state c = Connecting \<and> events AND EPOLLOUT \<noteq> 0 then
        (let (failed, w) = sys_so_error (env_sock env) (tcp_fd (pc_conn c)) w in
         if failed then bindR (handle_error run env (c, w)) (\<lambda>s. returns (False, s))
         else bindR (send_handshake run env (c\<lparr>pc_state := Handshaking\<rparr>, w)) (\<lambda>s. returns (True, s)))
      else returns (True, c, w))"

definition handle_events ::
  "('cb, 'w) runner \<Rightarrow> 'w PeerEnv \<Rightarrow> u32 \<Rightarrow> 'cb PeerConnection \<times> 'w \<Rightarrow> ('cb PeerConnection \<times> 'w) effect" where
  "handle_events run env events s =
     (if events AND (EPOLLERR OR EPOLLHUP) \<noteq> 0 then
        (let (failed, w) = sys_so_error (env_sock env) (tcp_fd (pc_conn (fst s))) (snd s) in
         handle_error run env (fst s, w))
      else if events AND EPOLLRDHUP \<noteq> 0 then disconnect run env s
      else bindR (finish_connect run env events s) (\<lambda>(continue, s).
        if \<not> continue then returns s
        else bindR (if events AND EPOLLIN \<noteq> 0 then handle_read run env s else returns s) (\<lambda>s.
          if events AND EPOLLOUT \<noteq> 0 then handle_write run env s else returns s)))"

definition connect ::
  "('cb, 'w) runner \<Rightarrow> 'w PeerEnv \<Rightarrow> 'cb PeerConnection \<times> 'w \<Rightarrow> ('cb PeerConnection \<times> 'w) effect" where
  "connect run env s =
     (let (c, w) = s in
      if pc_state c \<noteq> Idle then returns (c, w)
      else let
        c = c\<lparr>pc_state := Connecting\<rparr>;
        (status, conn, w) = connect_async (env_sock env) (pc_conn c) (pc_ip c) (pc_port c) w;
        c = c\<lparr>pc_conn := conn\<rparr> in
        if status = ConnectError then
          (let c = c\<lparr>pc_state := Disconnected\<rparr> in run_callback run (on_disconnect_cb c) CbDisconnect (c, w))
        else let (reg_ok, w) = env_register env (tcp_fd (pc_conn c))
               (EPOLLIN OR EPOLLOUT OR EPOLLRDHUP OR EPOLLERR OR EPOLLHUP) w in
        if \<not> reg_ok then
          (let (conn, w) = tcp_close (env_sock env) (pc_conn c) w; c = c\<lparr>pc_state := Disconnected, pc_conn := conn\<rparr> in
           run_callback run (on_disconnect_cb c) CbDisconnect (c, w))
        else bindR (if status = Connected then send_handshake run env (c\<lparr>pc_state := Handshaking\<rparr>, w) else returns (c, w))
          (\<lambda>(c, w). returns (c, update_epoll_interests env c w)))"

text \<open>A connection for a socket that is already connected, as the tests make it.\<close>

definition create_with_socket ::
  "('cb, 'w) runner \<Rightarrow> 'w PeerEnv \<Rightarrow> int \<Rightarrow> bytes \<Rightarrow> bytes \<Rightarrow> 'w \<Rightarrow> ('cb PeerConnection \<times> 'w) effect" where
  "create_with_socket run env fd ih our_id w =
     (let c = (peer_connection (ascii ''127.0.0.1'') 0 ih our_id)\<lparr>pc_conn := tcp_of_fd fd, pc_state := Handshaking\<rparr>;
          (_, w) = env_register env fd (EPOLLIN OR EPOLLOUT OR EPOLLRDHUP OR EPOLLERR OR EPOLLHUP) w in
      bindR (send_handshake run env (c, w)) (\<lambda>(c, w). returns (c, update_epoll_interests env c w)))"

section \<open>Flags\<close>

text \<open>The flags of choking and interest are independent of the rest of the state.\<close>

lemma note_received_rx [simp]:
  "note_received m (c\<lparr>rx_buffer := r\<rparr>) = (note_received m c)\<lparr>rx_buffer := r\<rparr>"
  "pc_state (note_received m c) = pc_state c" "on_message_cb (note_received m c) = on_message_cb c"
  by (cases m; simp)+

lemma note_sent_sel [simp]:
  "pc_state (note_sent m c) = pc_state c" "tx_buffer (note_sent m c) = tx_buffer c"
  by (cases m; simp)+

end
