(* ===== verification/Connection_Client.thy ===== *)
theory Connection_Client
  imports Peer_Connection
begin

text \<open>
  The interface between a connection and the program around it, as a locale: an invariant \<open>J\<close> of the
  connection and the rest of the program that the socket calls, the changes a connection makes to
  itself and the callbacks keep is kept by every operation of the connection.
\<close>

locale connection_client =
  fixes run :: "('cb, 'w) runner" and env :: "'w PeerEnv" and J :: "'cb PeerConnection \<times> 'w \<Rightarrow> bool"
  assumes J_buffers: "J (c, w) \<Longrightarrow> J (c\<lparr>rx_buffer := rx\<rparr>, w)" "J (c, w) \<Longrightarrow> J (c\<lparr>tx_buffer := tx\<rparr>, w)"
    and J_flags: "J (c, w) \<Longrightarrow> J (note_sent m c, w)" "J (c, w) \<Longrightarrow> J (note_received m c, w)"
    and J_send: "J (c, w) \<Longrightarrow> J (c, snd (sys_send (env_sock env) fd bs w))"
    and J_recv: "J (c, w) \<Longrightarrow> J (c, snd (sys_recv (env_sock env) fd k w))"
    and J_so_error: "J (c, w) \<Longrightarrow> J (c, snd (sys_so_error (env_sock env) fd w))"
    and J_register: "J (c, w) \<Longrightarrow> J (c, snd (env_register env fd ev w))"
    and J_modify: "J (c, w) \<Longrightarrow> J (c, env_modify env fd ev w)"
    and J_close: "J (c, w) \<Longrightarrow> J (c, env_unregister env fd w)" "J (c, w) \<Longrightarrow> J (c, sys_close (env_sock env) fd w)"
    and J_connected: "J (c, w) \<Longrightarrow> pc_state c = Connecting \<Longrightarrow> J (c\<lparr>pc_state := Handshaking\<rparr>, w)"
    and J_connect: "J (c, w) \<Longrightarrow> pc_state c = Idle \<Longrightarrow>
      connect_async (env_sock env) (pc_conn c) (pc_ip c) (pc_port c) w = (status, conn, w') \<Longrightarrow> status \<noteq> ConnectError \<Longrightarrow>
      J (c\<lparr>pc_state := Connecting, pc_conn := conn\<rparr>, w')"
    and J_connect_failed: "J (c, w) \<Longrightarrow> pc_state c = Idle \<Longrightarrow>
      connect_async (env_sock env) (pc_conn c) (pc_ip c) (pc_port c) w = (ConnectError, conn, w') \<Longrightarrow>
      yields J (run_callback run (on_disconnect_cb c) CbDisconnect (c\<lparr>pc_conn := conn, pc_state := Disconnected\<rparr>, w'))"
    and J_disconnected: "J (c, w) \<Longrightarrow> pc_state c \<noteq> Disconnected \<Longrightarrow> \<not> is_open conn \<Longrightarrow>
      yields J (run_callback run (on_disconnect_cb c) CbDisconnect (c\<lparr>pc_state := Disconnected, pc_conn := conn\<rparr>, w))"
    and J_handshake: "J (c, w) \<Longrightarrow> pc_state c = Handshaking \<Longrightarrow>
      yields J (run_callback run (on_handshake_cb c) (CbHandshake h) (c\<lparr>rx_buffer := rx, pc_state := Active\<rparr>, w))"
    and J_message: "J (c, w) \<Longrightarrow> pc_state c = Active \<Longrightarrow> yields J (run_callback run (on_message_cb c) (CbMessage m) (c, w))"
begin

lemma disconnect_J:
  assumes "J (c, w)"
  shows "yields J (disconnect run env (c, w))"
proof (cases "pc_state c = Disconnected")
  case False
  have fin: "yields J (run_callback run (on_disconnect_cb c) CbDisconnect
      (c\<lparr>pc_state := Disconnected, pc_conn := conn, rx_buffer := [], tx_buffer := []\<rparr>, w'))"
    if "J (c, w')" "\<not> is_open conn" for conn w'
  proof -
    have "J (c\<lparr>rx_buffer := [], tx_buffer := []\<rparr>, w')" using that(1) by (intro J_buffers)
    from J_disconnected[OF this _ that(2)] False have "yields J (run_callback run (on_disconnect_cb c) CbDisconnect
        (c\<lparr>rx_buffer := [], tx_buffer := [], pc_state := Disconnected, pc_conn := conn\<rparr>, w'))" by simp
    moreover have "c\<lparr>rx_buffer := [], tx_buffer := [], pc_state := Disconnected, pc_conn := conn\<rparr> =
        c\<lparr>pc_state := Disconnected, pc_conn := conn, rx_buffer := [], tx_buffer := []\<rparr>" by simp
    ultimately show ?thesis by (simp only:)
  qed
  show ?thesis
  proof (cases "is_open (pc_conn c)")
    case True
    have "J (c, sys_close (env_sock env) (tcp_fd (pc_conn c)) (env_unregister env (tcp_fd (pc_conn c)) w))"
      using assms by (intro J_close)
    from fin[OF this, of "(pc_conn c)\<lparr>tcp_fd := - 1\<rparr>"] True False show ?thesis
      by (simp add: disconnect_def Let_def is_open_def tcp_close_def)
  next
    case closed: False
    from fin[OF assms closed] closed False show ?thesis by (simp add: disconnect_def Let_def)
  qed
qed (use assms in \<open>simp add: disconnect_def\<close>)

lemma send_loop_J:
  assumes "J (c, w)" "send_loop (env_sock env) fd tx k w = Some (n, err, w')"
  shows "J (c, w')"
proof -
  have "env_sock env = env_sock env \<longrightarrow> J (c, w) \<longrightarrow> J (c, snd (snd (n, err, w')))"
    using assms(2)
  proof (rule send_loop.raw_induct[where P = "\<lambda>os fd tx k w r. os = env_sock env \<longrightarrow> J (c, w) \<longrightarrow> J (c, snd (snd r))", rotated],
      intro impI)
    fix rec os fd tx k w r
    assume IH: "\<And>os fd tx k w r. rec os fd tx k w = Some r \<Longrightarrow> os = env_sock env \<longrightarrow> J (c, w) \<longrightarrow> J (c, snd (snd r))"
      and eq: "(if k < length tx then case sys_send os fd (drop k tx) w of (r, w') \<Rightarrow>
          (case r of Inl e \<Rightarrow> if e = EAGAIN then Some (k, False, w') else if e = EINTR then rec os fd tx k w'
             else Some (k, True, w') | Inr sent \<Rightarrow> rec os fd tx (k + sent) w')
        else Some (k, False, w)) = Some r"
      and os: "os = env_sock env" and J: "J (c, w)"
    have "J (c, snd (sys_send os fd (drop k tx) w))" using J_send[OF J] os by simp
    then show "J (c, snd (snd r))"
      using eq IH os J by (cases "sys_send os fd (drop k tx) w") (auto split: if_splits sum.splits)
  qed
  with assms(1) show ?thesis by simp
qed

lemma recv_loop_J:
  assumes "J (c, w)" "recv_loop (env_sock env) fd rx w = Some (rx', closed, err, w')"
  shows "J (c, w')"
proof -
  have "env_sock env = env_sock env \<longrightarrow> J (c, w) \<longrightarrow> J (c, snd (snd (snd (rx', closed, err, w'))))"
    using assms(2)
  proof (rule recv_loop.raw_induct[where P = "\<lambda>os fd rx w r. os = env_sock env \<longrightarrow> J (c, w) \<longrightarrow> J (c, snd (snd (snd r)))", rotated],
      intro impI)
    fix rec os fd rx w r
    assume IH: "\<And>os fd rx w r. rec os fd rx w = Some r \<Longrightarrow> os = env_sock env \<longrightarrow> J (c, w) \<longrightarrow> J (c, snd (snd (snd r)))"
      and eq: "(case sys_recv os fd 4096 w of (r, w') \<Rightarrow>
          (case r of Inl e \<Rightarrow> if e = EAGAIN then Some (rx, False, False, w') else if e = EINTR then rec os fd rx w'
             else Some (rx, False, True, w')
           | Inr bs \<Rightarrow> if bs \<noteq> [] then rec os fd (rx @ bs) w' else Some (rx, True, False, w'))) = Some r"
      and os: "os = env_sock env" and J: "J (c, w)"
    have "J (c, snd (sys_recv os fd 4096 w))" using J_recv[OF J] os by simp
    then show "J (c, snd (snd (snd r)))"
      using eq IH os by (cases "sys_recv os fd 4096 w") (auto split: if_splits sum.splits)
  qed
  with assms(1) show ?thesis by simp
qed

lemma update_epoll_J: "J (c, w) \<Longrightarrow> J (c, update_epoll_interests env c w)"
  by (simp add: update_epoll_interests_def Let_def J_modify)

lemma handle_write_J:
  assumes "J (c, w)"
  shows "yields J (handle_write run env (c, w))"
proof (cases "send_loop (env_sock env) (tcp_fd (pc_conn c)) (tx_buffer c) 0 w")
  case (Some r)
  obtain n err w' where r: "r = (n, err, w')" by (metis surj_pair)
  have "J (c\<lparr>tx_buffer := drop n (tx_buffer c)\<rparr>, w')" using send_loop_J[OF assms] Some r J_buffers(2) by blast
  then show ?thesis using assms disconnect_J update_epoll_J by (simp add: handle_write_def Let_def Some r)
qed (simp add: handle_write_def assms update_epoll_J)

lemma send_message_J:
  assumes "J (c, w)"
  shows "yields J (send_message run env m (c, w))"
proof -
  have "J ((note_sent m c)\<lparr>tx_buffer := tx\<rparr>, w)" for tx using assms J_flags(1) J_buffers(2) by blast
  then show ?thesis using assms handle_write_J by (simp add: send_message_def Let_def)
qed

lemma send_handshake_J: "J (c, w) \<Longrightarrow> yields J (send_handshake run env (c, w))"
  by (simp add: send_handshake_def J_buffers(2) handle_write_J)

lemma process_step_J:
  assumes "J (c, w)"
  shows "yields (\<lambda>(continue, s). J s) (process_step run env (c, w))"
proof -
  have "J (note_received m (c\<lparr>rx_buffer := rx\<rparr>), w)" for m rx using assms J_buffers(1) J_flags(2) by blast
  from J_message[OF this] have "pc_state c = Active \<Longrightarrow> yields J (run_callback run (on_message_cb c) (CbMessage m)
      ((note_received m c)\<lparr>rx_buffer := rx\<rparr>, w))" for m rx by simp
  then show ?thesis
    using assms disconnect_J J_buffers(1) J_handshake
    by (auto simp: process_step_def deliver_message_def Let_def split: option.split)
qed

lemma process_rx_buffer_J: "J s \<Longrightarrow> yields J (process_rx_buffer run env s)"
  unfolding process_rx_buffer_def
  by (rule repeat_while_yields[of J]) (use process_step_J in auto)

lemma handle_read_J:
  assumes "J (c, w)"
  shows "yields J (handle_read run env (c, w))"
proof (cases "recv_loop (env_sock env) (tcp_fd (pc_conn c)) (rx_buffer c) w")
  case (Some r)
  obtain rx closed err w' where r: "r = (rx, closed, err, w')" by (metis surj_pair)
  have "J (c\<lparr>rx_buffer := rx\<rparr>, w')" using recv_loop_J[OF assms] Some r J_buffers(1) by blast
  then show ?thesis using disconnect_J process_rx_buffer_J by (simp add: handle_read_def Let_def Some r)
qed (simp add: handle_read_def)

lemma handle_events_J:
  assumes "J (c, w)"
  shows "yields J (handle_events run env events (c, w))"
proof -
  obtain failed w1 where so: "sys_so_error (env_sock env) (tcp_fd (pc_conn c)) w = (failed, w1)" by fastforce
  have w1: "J (c, w1)" using J_so_error[OF assms, of "tcp_fd (pc_conn c)"] so by simp
  have fc: "yields (\<lambda>(continue, s). J s) (finish_connect run env events (c, w))"
    using assms w1 disconnect_J send_handshake_J J_connected
    by (auto simp: finish_connect_def handle_error_def Let_def so)
  have io: "yields J (bindR (if events AND EPOLLIN \<noteq> 0 then handle_read run env s else returns s)
      (\<lambda>s. if events AND EPOLLOUT \<noteq> 0 then handle_write run env s else returns s))" if "J s" for s
    by (rule yields_bindI[of J])
      (use that handle_read_J[of "fst s" "snd s"] handle_write_J in \<open>auto simp: split_paired_all\<close>)
  have "yields J (bindR (finish_connect run env events (c, w)) (\<lambda>(continue, s). if \<not> continue then returns s
      else bindR (if events AND EPOLLIN \<noteq> 0 then handle_read run env s else returns s)
        (\<lambda>s. if events AND EPOLLOUT \<noteq> 0 then handle_write run env s else returns s)))"
    by (rule yields_bindI[OF fc]) (use io in \<open>auto simp del: yields_simps(6)\<close>)
  then show ?thesis
    using assms disconnect_J w1 unfolding handle_events_def handle_error_def by (simp add: so del: yields_simps(6))
qed

lemma connect_J:
  assumes "J (c, w)"
  shows "yields J (connect run env (c, w))"
proof (cases "pc_state c = Idle")
  case idle: True
  obtain status conn w1 where ca: "connect_async (env_sock env) (pc_conn c) (pc_ip c) (pc_port c) w = (status, conn, w1)"
    by (metis surj_pair)
  obtain ok w2 where reg: "env_register env (tcp_fd conn) (EPOLLIN OR EPOLLOUT OR EPOLLRDHUP OR EPOLLERR OR EPOLLHUP) w1 = (ok, w2)"
    by fastforce
  let ?c = "c\<lparr>pc_state := Connecting, pc_conn := conn\<rparr>"
  show ?thesis
  proof (cases "status = ConnectError")
    case True
    with J_connect_failed[OF assms idle, of conn w1] ca idle show ?thesis by (simp add: connect_def)
  next
    case False
    have J1: "J (?c, w1)" by (rule J_connect[OF assms idle ca False])
    then have J2: "J (?c, w2)" using J_register[OF J1, of "tcp_fd conn"] reg by (metis snd_conv)
    have "J (?c, snd (tcp_close (env_sock env) conn w2))" using J2 J_close(2) by (simp add: tcp_close_def)
    from J_disconnected[OF this, of "fst (tcp_close (env_sock env) conn w2)"]
    have failed: "yields J (run_callback run (on_disconnect_cb c) CbDisconnect
        (c\<lparr>pc_state := Disconnected, pc_conn := fst (tcp_close (env_sock env) conn w2)\<rparr>, snd (tcp_close (env_sock env) conn w2)))"
      by (simp add: is_open_def tcp_close_def)
    have "J (c\<lparr>pc_conn := conn, pc_state := Handshaking\<rparr>, w2)" using J_connected[OF J2] by simp
    from send_handshake_J[OF this] have hs: "yields (\<lambda>s. J (fst s, update_epoll_interests env (fst s) (snd s)))
        (send_handshake run env (c\<lparr>pc_conn := conn, pc_state := Handshaking\<rparr>, w2))"
      by (rule yields_mono) (auto intro: update_epoll_J)
    show ?thesis using idle False failed hs J2 update_epoll_J[OF J2] by (auto simp: connect_def ca reg Let_def split_beta)
  qed
qed (simp add: connect_def assms)

end

end
