(* ===== verification/Peer_Stream.thy ===== *)
theory Peer_Stream
  imports Connection_Client
begin

text \<open>
  Correctness of peer connections: the received stream is framed into messages however it is
  cut, the transmitted stream is that of the messages sent, the receive loop ends, and
  the state of a connection only moves forward.  The definitions are those of Peer_Connection; the
  ones here describe the system's promises and the use of a connection.
\<close>

section \<open>Framing of the received stream\<close>

lemma wire_frame:
  assumes "msg_fits m"
  obtains len body where "wire m = enc32 len @ body" "unat len = length body" "length body + 4 < 2 ^ 32"
proof -
  have "\<exists>len body. wire m = enc32 len @ body \<and> unat len = length body \<and> length body + 4 < 2 ^ 32"
    using assms bitfield_len piece_len by (cases m) fastforce+
  with that show thesis by blast
qed

lemma wire_neq_Nil [simp]: "wire m \<noteq> []"
  by (cases m) (auto simp: enc32_def wire_simps)

text \<open>A buffer from which no message can be taken yet.\<close>

definition incomplete_frame :: "bytes \<Rightarrow> bool" where
  "incomplete_frame p \<longleftrightarrow> p = [] \<or> deserialize p = Inr (None, 0)"

lemma strict_prefix_incomplete:
  assumes "msg_fits m" "strict_prefix p (wire m)"
  shows "incomplete_frame p"
proof (cases "length p < 4")
  case True
  then show ?thesis by (simp add: incomplete_frame_def deserialize_unfold)
next
  case False
  obtain len body where w: "wire m = enc32 len @ body" and len: "unat len = length body" "length body + 4 < 2 ^ 32"
    using wire_frame[OF assms(1)] by blast
  obtain zs where zs: "wire m = p @ zs" "zs \<noteq> []" using assms(2) by (auto simp: strict_prefix_def prefix_def)
  then have "take 4 p = enc32 len" using False w by (metis append_eq_conv_conj length_encs(1) not_less take_append take_all_iff take_take min_def diff_is_0_eq' append_Nil2 take0)
  then have fl: "frame_len p = len" by (simp add: frame_len_def be32.dec_enc)
  have short: "length p < length body + 4" using arg_cong[OF zs(1), of length] zs(2) w by (simp add: length_greater_0_conv[symmetric] del: length_greater_0_conv)
  then have "len \<noteq> 0" using False len by auto
  with False short fl len unat_frame[of len] show ?thesis
    by (simp add: incomplete_frame_def deserialize_unfold)
qed

lemma prefix_messages:
  "prefix q (concat (map wire ms)) \<Longrightarrow> \<exists>ms1 ms2 p. ms = ms1 @ ms2 \<and> q = concat (map wire ms1) @ p \<and>
     (p = [] \<or> (\<exists>m ms'. ms2 = m # ms' \<and> strict_prefix p (wire m)))"
proof (induction ms arbitrary: q)
  case (Cons m ms)
  show ?case
  proof (cases "prefix (wire m) q")
    case True
    then obtain q' where q: "q = wire m @ q'" by (auto simp: prefix_def)
    with Cons.prems have "prefix q' (concat (map wire ms))" by simp
    from Cons.IH[OF this] obtain ms1 ms2 p where "ms = ms1 @ ms2" "q' = concat (map wire ms1) @ p"
      "p = [] \<or> (\<exists>m ms'. ms2 = m # ms' \<and> strict_prefix p (wire m))" by blast
    then show ?thesis using q by (intro exI[of _ "m # ms1"] exI[of _ ms2] exI[of _ p]) simp
  next
    case False
    have "prefix (wire m) (concat (map wire (m # ms)))" by simp
    with False Cons.prems have "strict_prefix q (wire m)"
      using prefix_same_cases prefix_order.le_less by blast
    then show ?thesis by (intro exI[of _ "[]"] exI[of _ "m # ms"] exI[of _ q]) simp
  qed
qed simp

lemma fold_note_received_sel [simp]:
  "fold note_received ms (c\<lparr>rx_buffer := r\<rparr>) = (fold note_received ms c)\<lparr>rx_buffer := r\<rparr>"
  "pc_state (fold note_received ms c) = pc_state c" "on_message_cb (fold note_received ms c) = on_message_cb c"
  by (induction ms arbitrary: c) simp_all

lemma fold_note_received_state [simp]:
  "fold note_received ms (c\<lparr>rx_buffer := r, pc_state := st\<rparr>) = (fold note_received ms (c\<lparr>pc_state := st\<rparr>))\<lparr>rx_buffer := r\<rparr>"
proof -
  have "c\<lparr>rx_buffer := r, pc_state := st\<rparr> = c\<lparr>pc_state := st, rx_buffer := r\<rparr>" by simp
  then show ?thesis by (simp only: fold_note_received_sel(1))
qed

text \<open>Callbacks that only observe: they leave the connection alone.\<close>

definition observing :: "('cb, 'w) runner \<Rightarrow> (callback_event \<Rightarrow> 'w \<Rightarrow> 'w) \<Rightarrow> bool" where
  "observing run f \<longleftrightarrow> (\<forall>cb ev c w. run cb ev (c, w) = returns (c, f ev w))"

lemma process_rx_buffer_unfold:
  "process_rx_buffer run env s =
     (if rx_buffer (fst s) = [] then returns s
      else bindR (process_step run env s) (\<lambda>(continue, s'). if continue then process_rx_buffer run env s' else returns s'))"
  unfolding process_rx_buffer_def by (subst repeat_while_unfold) simp

lemma process_incomplete:
  assumes "pc_state c = Active" "incomplete_frame (rx_buffer c)"
  shows "process_rx_buffer run env (c, w) = returns (c, w)"
  using assms
  by (subst process_rx_buffer_unfold) (auto simp: incomplete_frame_def process_step_def deliver_message_def returns_def lift_mem_def bindR_def)

lemma process_message:
  assumes "observing run f" "pc_state c = Active" "on_message_cb c \<noteq> None" "msg_fits m" "rx_buffer c = wire m @ rest"
  shows "process_rx_buffer run env (c, w) =
    process_rx_buffer run env ((note_received m c)\<lparr>rx_buffer := rest\<rparr>, f (CbMessage m) w)"
  using assms deserialize_wire[OF assms(4), of rest]
  by (subst process_rx_buffer_unfold)
    (auto simp: process_step_def deliver_message_def run_callback_def observing_def returns_def)

lemma process_messages:
  assumes "observing run f" "incomplete_frame rest"
  shows "pc_state c = Active \<Longrightarrow> on_message_cb c \<noteq> None \<Longrightarrow> \<forall>m\<in>set ms. msg_fits m \<Longrightarrow>
    rx_buffer c = concat (map wire ms) @ rest \<Longrightarrow>
    process_rx_buffer run env (c, w) =
      returns ((fold note_received ms c)\<lparr>rx_buffer := rest\<rparr>, fold f (map CbMessage ms) w)"
proof (induction ms arbitrary: c w)
  case Nil
  then have "c\<lparr>rx_buffer := rest\<rparr> = c" by simp
  with Nil process_incomplete[of c run env w] assms(2) show ?case by simp
next
  case (Cons m ms)
  have "rx_buffer c = wire m @ (concat (map wire ms) @ rest)" using Cons.prems(4) by simp
  note step = process_message[OF assms(1) Cons.prems(1,2) _ this]
  show ?case
    using Cons.prems Cons.IH[of "(note_received m c)\<lparr>rx_buffer := concat (map wire ms) @ rest\<rparr>" "f (CbMessage m) w"]
    by (simp add: step)
qed

text \<open>The arrival of some bytes: \<^verbatim>\<open>handle_read\<close> when \<^verbatim>\<open>recv\<close> has returned them and then would block.\<close>

definition feed ::
  "('cb, 'w) runner \<Rightarrow> 'w PeerEnv \<Rightarrow> bytes \<Rightarrow> 'cb PeerConnection \<times> 'w \<Rightarrow> ('cb PeerConnection \<times> 'w) effect" where
  "feed run env chunk s = process_rx_buffer run env ((fst s)\<lparr>rx_buffer := rx_buffer (fst s) @ chunk\<rparr>, snd s)"

text \<open>What \<^verbatim>\<open>recv\<close> does, as a script: a non-empty entry is what the next call returns, an empty one
  says that the next call would block.  Each readiness event then reads one batch of entries up
  to an empty one.  \<open>log\<close> is what the callbacks have recorded.\<close>

definition scripted :: "'w PeerEnv \<Rightarrow> ('w \<Rightarrow> bytes list) \<Rightarrow> ('w \<Rightarrow> callback_event list) \<Rightarrow> bool" where
  "scripted env script log \<longleftrightarrow>
     (\<forall>fd w p ps. script w = p # ps \<longrightarrow> length p \<le> 4096 \<longrightarrow>
        (\<exists>w'. sys_recv (env_sock env) fd 4096 w = (if p = [] then Inl EAGAIN else Inr p, w') \<and> script w' = ps \<and> log w' = log w))"

definition recording :: "('cb, 'w) runner \<Rightarrow> ('w \<Rightarrow> bytes list) \<Rightarrow> ('w \<Rightarrow> callback_event list) \<Rightarrow> bool" where
  "recording run script log \<longleftrightarrow>
     (\<exists>f. observing run f \<and> (\<forall>ev w. log (f ev w) = log w @ [ev] \<and> script (f ev w) = script w))"

abbreviation segments :: "bytes list \<Rightarrow> bool" where
  "segments ps \<equiv> \<forall>p\<in>set ps. p \<noteq> [] \<and> length p \<le> 4096"

abbreviation entries :: "bytes list list \<Rightarrow> bytes list" where
  "entries batches \<equiv> concat (map (\<lambda>ps. ps @ [[]]) batches)"

primrec read_events ::
  "('cb, 'w) runner \<Rightarrow> 'w PeerEnv \<Rightarrow> nat \<Rightarrow> 'cb PeerConnection \<times> 'w \<Rightarrow> ('cb PeerConnection \<times> 'w) effect" where
  "read_events run env 0 s = returns s"
| "read_events run env (Suc n) s = bindR (handle_read run env s) (read_events run env n)"

lemma recv_batch:
  assumes "scripted env script log"
  shows "script w = ps @ [] # rest \<Longrightarrow> segments ps \<Longrightarrow>
    \<exists>w'. recv_loop (env_sock env) fd rx w = Some (rx @ concat ps, False, False, w') \<and> script w' = rest \<and> log w' = log w"
proof (induction ps arbitrary: rx w)
  case Nil
  then have "script w = [] # rest" by simp
  from assms[unfolded scripted_def, rule_format, OF this, of fd] obtain w'
    where "sys_recv (env_sock env) fd 4096 w = (Inl EAGAIN, w')" "script w' = rest" "log w' = log w" by auto
  then show ?case by (subst recv_loop.simps) simp
next
  case (Cons p ps)
  then have "script w = p # (ps @ [] # rest)" "length p \<le> 4096" "p \<noteq> []" by auto
  from assms[unfolded scripted_def, rule_format, OF this(1,2), of fd] this(3) obtain w'
    where "sys_recv (env_sock env) fd 4096 w = (Inr p, w')" "script w' = ps @ [] # rest" "log w' = log w" by auto
  with Cons.IH[of w' "rx @ p"] Cons.prems show ?case by (subst recv_loop.simps) auto
qed

lemma handle_read_batch:
  assumes "scripted env script log" "script w = ps @ [] # rest" "segments ps"
  obtains w1 where "handle_read run env (c, w) = feed run env (concat ps) (c, w1)" "script w1 = rest" "log w1 = log w"
  using recv_batch[OF assms, of "tcp_fd (pc_conn c)" "rx_buffer c"] by (auto simp: handle_read_def feed_def)

lemma fold_recording:
  assumes "\<forall>ev w. log (f ev w) = log w @ [ev] \<and> script (f ev w) = script w"
  shows "log (fold f evs w) = log w @ evs" "script (fold f evs w) = script w"
  using assms by (induction evs arbitrary: w) simp_all

lemma incomplete_messages:
  assumes "incomplete_frame (concat (map wire ms))" "\<forall>m\<in>set ms. msg_fits m"
  shows "ms = []"
proof (cases ms)
  case (Cons m ms')
  with assms have "deserialize (concat (map wire ms)) = Inr (Some m, length (wire m))"
    using deserialize_wire[of m "concat (map wire ms')"] by simp
  with assms(1) Cons show ?thesis by (auto simp: incomplete_frame_def)
qed simp

text \<open>What is left of the stream after a prefix of it has been processed.\<close>

lemma split_messages:
  assumes "q @ tail = concat (map wire ms)" "\<forall>m\<in>set ms. msg_fits m"
  obtains ms1 ms2 p where "ms = ms1 @ ms2" "q = concat (map wire ms1) @ p" "incomplete_frame p"
    "p @ tail = concat (map wire ms2)"
proof -
  have "prefix q (concat (map wire ms))" using assms(1) by (metis prefixI)
  from prefix_messages[OF this] obtain ms1 ms2 p where
    d: "ms = ms1 @ ms2" "q = concat (map wire ms1) @ p" "p = [] \<or> (\<exists>m ms'. ms2 = m # ms' \<and> strict_prefix p (wire m))"
    by blast
  have "incomplete_frame p"
    using d(1,3) assms(2) strict_prefix_incomplete[of _ p] by (auto simp: incomplete_frame_def)
  moreover have "p @ tail = concat (map wire ms2)" using assms(1) d(1,2) by simp
  ultimately show thesis using that d(1,2) by blast
qed

lemma read_messages:
  assumes env: "scripted env script log" and obs: "observing run f"
    and rec: "\<forall>ev w. log (f ev w) = log w @ [ev] \<and> script (f ev w) = script w"
  shows "script w = entries batches \<Longrightarrow> \<forall>ps\<in>set batches. segments ps \<Longrightarrow>
    pc_state c = Active \<Longrightarrow> on_message_cb c \<noteq> None \<Longrightarrow> \<forall>m\<in>set ms. msg_fits m \<Longrightarrow>
    incomplete_frame (rx_buffer c) \<Longrightarrow> rx_buffer c @ concat (concat batches) = concat (map wire ms) \<Longrightarrow>
    \<exists>w'. read_events run env (length batches) (c, w) = returns ((fold note_received ms c)\<lparr>rx_buffer := []\<rparr>, w') \<and>
      log w' = log w @ map CbMessage ms"
proof (induction batches arbitrary: c w ms)
  case Nil
  then have "ms = []" using incomplete_messages[of ms] by simp
  moreover from this have "rx_buffer c = []" using Nil.prems by simp
  ultimately show ?case by simp
next
  case (Cons ps batches)
  have "(rx_buffer c @ concat ps) @ concat (concat batches) = concat (map wire ms)" using Cons.prems(7) by simp
  then obtain ms1 ms2 p where d: "ms = ms1 @ ms2" "rx_buffer c @ concat ps = concat (map wire ms1) @ p"
    "incomplete_frame p" "p @ concat (concat batches) = concat (map wire ms2)"
    using split_messages Cons.prems(5) by metis
  obtain w1 where w1: "handle_read run env (c, w) = feed run env (concat ps) (c, w1)"
    "script w1 = entries batches" "log w1 = log w"
    using handle_read_batch[OF env, of w ps "entries batches" run c] Cons.prems(1,2) by auto
  let ?c = "(fold note_received ms1 c)\<lparr>rx_buffer := p\<rparr>" and ?w = "fold f (map CbMessage ms1) w1"
  have "feed run env (concat ps) (c, w1) = returns (?c, ?w)"
    using process_messages[OF obs d(3), of "c\<lparr>rx_buffer := rx_buffer c @ concat ps\<rparr>" ms1 env w1] Cons.prems d
    by (simp add: feed_def)
  with Cons.IH[of ?w ?c ms2] Cons.prems d w1 show ?case by (simp add: fold_recording[of log f script, OF rec])
qed

lemma process_handshake:
  assumes "observing run f" "pc_state c = Handshaking" "on_handshake_cb c \<noteq> None" "handshake_wf h"
    "handshake_serialize h = Inr bs" "rx_buffer c = bs @ rest"
  shows "process_rx_buffer run env (c, w) =
    process_rx_buffer run env (c\<lparr>rx_buffer := rest, pc_state := Active\<rparr>, f (CbHandshake h) w)"
proof -
  have bs: "bs = 19 # protocol_name @ reserved h @ hs_info_hash h @ hs_peer_id h"
    using handshake_wire[OF assms(4)] assms(5) by simp
  then have len: "length bs = 68" using assms(4) by (simp add: handshake_wf_def protocol_name_def)
  then have "handshake_deserialize (take 68 (rx_buffer c)) = Some h"
    using assms(4,6) bs by (simp add: handshake_deserialize_def handshake_wf_def protocol_name_def)
  with assms len bs show ?thesis
    by (subst process_rx_buffer_unfold) (auto simp: process_step_def deliver_message_def Let_def run_callback_def observing_def returns_def)
qed

lemma process_short_handshake:
  assumes "pc_state c = Handshaking" "length (rx_buffer c) < 68"
  shows "process_rx_buffer run env (c, w) = returns (c, w)"
  using assms by (subst process_rx_buffer_unfold) (simp add: process_step_def deliver_message_def returns_def)

lemma read_stream:
  assumes env: "scripted env script log" and obs: "observing run f"
    and rec: "\<forall>ev w. log (f ev w) = log w @ [ev] \<and> script (f ev w) = script w"
    and h: "handshake_wf h" "handshake_serialize h = Inr bs" and ms: "\<forall>m\<in>set ms. msg_fits m"
  shows "script w = entries batches \<Longrightarrow> \<forall>ps\<in>set batches. segments ps \<Longrightarrow>
    pc_state c = Handshaking \<Longrightarrow> on_handshake_cb c \<noteq> None \<Longrightarrow> on_message_cb c \<noteq> None \<Longrightarrow>
    length (rx_buffer c) < 68 \<Longrightarrow> rx_buffer c @ concat (concat batches) = bs @ concat (map wire ms) \<Longrightarrow>
    \<exists>w'. read_events run env (length batches) (c, w) =
        returns ((fold note_received ms (c\<lparr>pc_state := Active\<rparr>))\<lparr>rx_buffer := []\<rparr>, w') \<and>
      log w' = log w @ CbHandshake h # map CbMessage ms"
proof (induction batches arbitrary: c w)
  case Nil
  have "length bs = 68" using h handshake_wire[OF h(1)] by (auto simp: handshake_wf_def protocol_name_def)
  then show ?case using Nil arg_cong[OF Nil(7), of length] by simp
next
  case (Cons ps batches)
  have len: "length bs = 68" using h handshake_wire[OF h(1)] by (auto simp: handshake_wf_def protocol_name_def)
  let ?rx = "rx_buffer c @ concat ps"
  have eq: "?rx @ concat (concat batches) = bs @ concat (map wire ms)" using Cons.prems(7) by simp
  obtain w1 where w1: "handle_read run env (c, w) = feed run env (concat ps) (c, w1)"
    "script w1 = entries batches" "log w1 = log w"
    using handle_read_batch[OF env, of w ps "entries batches" run c] Cons.prems(1,2) by auto
  show ?case
  proof (cases "length ?rx < 68")
    case True
    with Cons.prems(3) have "feed run env (concat ps) (c, w1) = returns (c\<lparr>rx_buffer := ?rx\<rparr>, w1)"
      by (simp add: feed_def process_short_handshake)
    with Cons.IH[of w1 "c\<lparr>rx_buffer := ?rx\<rparr>"] Cons.prems True eq w1 show ?thesis by simp
  next
    case False
    have "take 68 (?rx @ concat (concat batches)) = bs" unfolding eq using len by simp
    then have rx: "?rx = bs @ drop 68 ?rx" using False by (metis append_take_drop_id not_less take_append diff_is_0_eq' take0 append_Nil2)
    then obtain q where q1: "?rx = bs @ q" by blast
    with eq have q: "?rx = bs @ q" "q @ concat (concat batches) = concat (map wire ms)" by simp_all
    from split_messages[OF q(2) ms] obtain ms1 ms2 p where d: "ms = ms1 @ ms2" "q = concat (map wire ms1) @ p"
      "incomplete_frame p" "p @ concat (concat batches) = concat (map wire ms2)" by blast
    let ?start = "c\<lparr>rx_buffer := q, pc_state := Active\<rparr>"
    let ?c = "(fold note_received ms1 ?start)\<lparr>rx_buffer := p\<rparr>"
    let ?w = "fold f (CbHandshake h # map CbMessage ms1) w1"
    have rest: "process_rx_buffer run env (?start, f (CbHandshake h) w1) = returns (?c, ?w)"
      unfolding fold.simps comp_def by (rule process_messages[OF obs d(3)]) (use Cons.prems ms d in auto)
    have "process_rx_buffer run env (c\<lparr>rx_buffer := ?rx\<rparr>, w1) = process_rx_buffer run env (?start, f (CbHandshake h) w1)"
      using process_handshake[OF obs _ _ h, of "c\<lparr>rx_buffer := ?rx\<rparr>" q env w1] Cons.prems q(1) by simp
    with rest have "feed run env (concat ps) (c, w1) = returns (?c, ?w)" by (simp add: feed_def)
    with read_messages[OF env obs rec, of ?w batches ?c ms2] Cons.prems d ms w1 show ?thesis
      by (simp add: fold_recording[of log f script, OF rec] del: fold.simps)
  qed
qed

section \<open>The transmitted stream\<close>

text \<open>What the system promises: \<^verbatim>\<open>send\<close> accepts a non-empty prefix of the bytes offered or fails
  (without being interrupted), and neither the other calls nor the event loop touch the
  stream.  \<open>sent\<close> is the stream handed to the system so far, \<open>interest\<close> the registered events.\<close>

definition stream_env :: "'w PeerEnv \<Rightarrow> ('w \<Rightarrow> bytes) \<Rightarrow> ('w \<Rightarrow> u32) \<Rightarrow> bool" where
  "stream_env env sent interest \<longleftrightarrow>
     (\<forall>fd bs w. bs \<noteq> [] \<longrightarrow>
        (case sys_send (env_sock env) fd bs w of
           (Inr n, w') \<Rightarrow> 0 < n \<and> n \<le> length bs \<and> sent w' = sent w @ take n bs
         | (Inl e, w') \<Rightarrow> e \<noteq> EINTR \<and> sent w' = sent w)) \<and>
     (\<forall>fd ev w. sent (env_modify env fd ev w) = sent w \<and> interest (env_modify env fd ev w) = ev) \<and>
     (\<forall>fd w. sent (env_unregister env fd w) = sent w) \<and>
     (\<forall>fd w. sent (sys_close (env_sock env) fd w) = sent w)"

lemma send_loop_progress:
  assumes env: "stream_env env sent interest"
  shows "n0 \<le> length tx \<Longrightarrow> \<exists>n err w'. send_loop (env_sock env) fd tx n0 w = Some (n, err, w') \<and>
    n0 \<le> n \<and> n \<le> length tx \<and> sent w' = sent w @ take (n - n0) (drop n0 tx)"
proof (induction "length tx - n0" arbitrary: n0 w rule: less_induct)
  case less
  show ?case
  proof (cases "n0 < length tx")
    case False
    then have "send_loop (env_sock env) fd tx n0 w = Some (n0, False, w)" by (subst send_loop.simps) simp
    then show ?thesis using less.prems by (intro exI[of _ n0] exI[of _ False] exI[of _ w]) simp
  next
    case True
    obtain r w1 where r: "sys_send (env_sock env) fd (drop n0 tx) w = (r, w1)" by fastforce
    have ne: "drop n0 tx \<noteq> []" using True by simp
    have "case sys_send (env_sock env) fd (drop n0 tx) w of
        (Inr n, w') \<Rightarrow> 0 < n \<and> n \<le> length (drop n0 tx) \<and> sent w' = sent w @ take n (drop n0 tx)
      | (Inl e, w') \<Rightarrow> e \<noteq> EINTR \<and> sent w' = sent w"
      using env[unfolded stream_env_def, THEN conjunct1, rule_format, OF ne] .
    then have law: "case r of Inr n \<Rightarrow> 0 < n \<and> n \<le> length (drop n0 tx) \<and> sent w1 = sent w @ take n (drop n0 tx)
        | Inl e \<Rightarrow> e \<noteq> EINTR \<and> sent w1 = sent w"
      unfolding r by simp
    show ?thesis
    proof (cases r)
      case (Inl e)
      with law True r show ?thesis by (subst send_loop.simps) (auto intro: less_imp_le)
    next
      case (Inr k)
      with law have k: "0 < k" "n0 + k \<le> length tx" "sent w1 = sent w @ take k (drop n0 tx)" by auto
      have "length tx - (n0 + k) < length tx - n0" using k(1) True by linarith
      from less.hyps[OF this k(2), of w1] obtain n err w' where
        "send_loop (env_sock env) fd tx (n0 + k) w1 = Some (n, err, w')" "n0 + k \<le> n" "n \<le> length tx"
        "sent w' = sent w1 @ take (n - (n0 + k)) (drop (n0 + k) tx)" by blast
      moreover have "take (n - n0) (drop n0 tx) = take k (drop n0 tx) @ take (n - (n0 + k)) (drop (n0 + k) tx)"
        using \<open>n0 + k \<le> n\<close> take_add[of k "n - (n0 + k)" "drop n0 tx"] by (simp add: add.commute)
      ultimately show ?thesis using True r Inr k by (subst send_loop.simps) simp
    qed
  qed
qed

lemma disconnect_stream:
  assumes "stream_env env sent interest" "observing run f" "\<forall>ev w. sent (f ev w) = sent w"
  shows "\<exists>c' w'. disconnect run env (c, w) = returns (c', w') \<and> pc_state c' = Disconnected \<and> sent w' = sent w"
  using assms
  by (auto simp: disconnect_def Let_def run_callback_def observing_def stream_env_def tcp_close_def
      split: option.split prod.split)

lemma update_epoll_stream:
  assumes "stream_env env sent interest"
  shows "sent (update_epoll_interests env c w) = sent w"
    "pc_state c = Active \<Longrightarrow> interest (update_epoll_interests env c w) AND EPOLLOUT \<noteq> 0 \<longleftrightarrow> tx_buffer c \<noteq> []"
  using assms
  by (auto simp: update_epoll_interests_def stream_env_def Let_def EPOLLIN_def EPOLLOUT_def EPOLLERR_def
      EPOLLHUP_def EPOLLRDHUP_def)

lemma handle_write_stream:
  assumes env: "stream_env env sent interest" "observing run f" "\<forall>ev w. sent (f ev w) = sent w"
    and st: "pc_state c = Active"
  shows "\<exists>c' w'. handle_write run env (c, w) = returns (c', w') \<and> prefix (sent w') (sent w @ tx_buffer c) \<and>
    (pc_state c' = Disconnected \<or>
     pc_state c' = Active \<and> sent w' @ tx_buffer c' = sent w @ tx_buffer c \<and>
     (interest w' AND EPOLLOUT \<noteq> 0 \<longleftrightarrow> tx_buffer c' \<noteq> []))"
proof (cases "tx_buffer c = []")
  case True
  then show ?thesis
    using update_epoll_stream(1)[OF env(1), of c w] update_epoll_stream(2)[OF env(1) st, of w] st
    by (simp add: handle_write_def)
next
  case False
  from send_loop_progress[OF env(1), of 0 "tx_buffer c" "tcp_fd (pc_conn c)" w] obtain n err w1 where
    sl: "send_loop (env_sock env) (tcp_fd (pc_conn c)) (tx_buffer c) 0 w = Some (n, err, w1)"
    and n: "n \<le> length (tx_buffer c)" "sent w1 = sent w @ take n (tx_buffer c)" by auto
  have pre: "prefix (sent w1) (sent w @ tx_buffer c)" by (simp add: n(2) take_is_prefix)
  show ?thesis
  proof (cases err)
    case True
    with disconnect_stream[OF env, of "c\<lparr>tx_buffer := drop n (tx_buffer c)\<rparr>" w1] False sl pre show ?thesis
      by (auto simp: handle_write_def)
  next
    case no_err: False
    with False sl pre n st show ?thesis
      using update_epoll_stream[OF env(1), of "c\<lparr>tx_buffer := drop n (tx_buffer c)\<rparr>" w1]
      by (simp add: handle_write_def Let_def)
  qed
qed

primrec send_all ::
  "('cb, 'w) runner \<Rightarrow> 'w PeerEnv \<Rightarrow> PeerMessage list \<Rightarrow> 'cb PeerConnection \<times> 'w \<Rightarrow> ('cb PeerConnection \<times> 'w) effect" where
  "send_all run env [] s = returns s"
| "send_all run env (m # ms) s = bindR (send_message run env m s) (send_all run env ms)"

lemma send_message_stream:
  assumes env: "stream_env env sent interest" "observing run f" "\<forall>ev w. sent (f ev w) = sent w"
    and m: "msg_fits m" and st: "pc_state c = Active"
  shows "\<exists>c' w'. send_message run env m (c, w) = returns (c', w') \<and> prefix (sent w') (sent w @ tx_buffer c @ wire m) \<and>
    (pc_state c' = Disconnected \<or>
     pc_state c' = Active \<and> sent w' @ tx_buffer c' = sent w @ tx_buffer c @ wire m \<and>
     (interest w' AND EPOLLOUT \<noteq> 0 \<longleftrightarrow> tx_buffer c' \<noteq> []))"
  using handle_write_stream[OF env, of "(note_sent m c)\<lparr>tx_buffer := tx_buffer c @ wire m\<rparr>" w] st serialize_wire[OF m]
  by (simp add: send_message_def)

lemma send_all_disconnected: "pc_state c = Disconnected \<Longrightarrow> send_all run env ms (c, w) = returns (c, w)"
  by (induction ms) (simp_all add: send_message_def)

lemma send_all_stream:
  assumes env: "stream_env env sent interest" "observing run f" "\<forall>ev w. sent (f ev w) = sent w"
  shows "\<forall>m\<in>set ms. msg_fits m \<Longrightarrow> pc_state c = Active \<Longrightarrow> (interest w AND EPOLLOUT \<noteq> 0 \<longleftrightarrow> tx_buffer c \<noteq> []) \<Longrightarrow>
    \<exists>c' w'. send_all run env ms (c, w) = returns (c', w') \<and>
      prefix (sent w') (sent w @ tx_buffer c @ concat (map wire ms)) \<and>
      (pc_state c' = Disconnected \<or>
       pc_state c' = Active \<and> sent w' @ tx_buffer c' = sent w @ tx_buffer c @ concat (map wire ms) \<and>
       (interest w' AND EPOLLOUT \<noteq> 0 \<longleftrightarrow> tx_buffer c' \<noteq> []))"
proof (induction ms arbitrary: c w)
  case (Cons m ms)
  from send_message_stream[OF env, of m c w] Cons.prems obtain c1 w1 where
    sm: "send_message run env m (c, w) = returns (c1, w1)" "prefix (sent w1) (sent w @ tx_buffer c @ wire m)"
    and live: "pc_state c1 = Disconnected \<or>
     pc_state c1 = Active \<and> sent w1 @ tx_buffer c1 = sent w @ tx_buffer c @ wire m \<and>
     (interest w1 AND EPOLLOUT \<noteq> 0 \<longleftrightarrow> tx_buffer c1 \<noteq> [])" by auto
  show ?case
  proof (cases "pc_state c1 = Disconnected")
    case True
    with sm show ?thesis by (simp add: send_all_disconnected) (metis append.assoc prefix_prefix)
  next
    case False
    with live have "pc_state c1 = Active" and eq: "sent w1 @ tx_buffer c1 = sent w @ tx_buffer c @ wire m"
      and i: "interest w1 AND EPOLLOUT \<noteq> 0 \<longleftrightarrow> tx_buffer c1 \<noteq> []" by auto
    moreover have "sent w @ tx_buffer c @ concat (map wire (m # ms)) = sent w1 @ tx_buffer c1 @ concat (map wire ms)"
      using arg_cong[OF eq, of "\<lambda>x. x @ concat (map wire ms)"] by simp
    ultimately show ?thesis using Cons.IH[of c1 w1] Cons.prems(1) sm(1) by (simp only:) simp
  qed
qed simp

section \<open>Progress of the receive loop\<close>

text \<open>Below 4 GiB of data, a message or a rejected frame always consumes bytes.\<close>

lemma deserialize_consumes:
  assumes d: "deserialize data = Inr (r, k)" "\<not> (r = None \<and> k = 0)" and len: "length data < 2 ^ 32"
  shows "0 < k"
proof (rule ccontr)
  assume "\<not> 0 < k"
  then have k: "k = 0" by simp
  with d obtain m where r: "r = Some m" by auto
  from d(1) k r have "4 + frame_len data = 0"
    by (auto simp: deserialize_unfold read_at_def bindE_Inr_iff unat_eq_0 split: if_splits)
  then have "frame_len data = - 4" by (simp add: eq_neg_iff_add_eq_0 add.commute)
  with d(1) r k len show False
    by (auto simp: deserialize_unfold read_at_def bindE_Inr_iff deserialize_body_def read_span_def split: if_splits)
qed

text \<open>Callbacks that end and do not add to the receive buffer.\<close>

abbreviation rx_within :: "nat \<Rightarrow> 'cb PeerConnection \<times> 'w \<Rightarrow> bool" where
  "rx_within n s \<equiv> length (rx_buffer (fst s)) \<le> n"

definition mild :: "('cb, 'w) runner \<Rightarrow> bool" where
  "mild run \<longleftrightarrow> (\<forall>cb ev s. settles (rx_within (length (rx_buffer (fst s)))) (run cb ev s))"

lemma mild_callback:
  assumes "mild run" "rx_within n s"
  shows "settles (rx_within n) (run_callback run cb ev s)"
proof (cases cb)
  case (Some f)
  have "settles (rx_within (length (rx_buffer (fst s)))) (run f ev s)" using assms(1) unfolding mild_def by blast
  then show ?thesis using assms(2) Some by (auto simp: run_callback_def elim: settles_mono)
qed (use assms(2) in \<open>simp add: run_callback_def\<close>)

lemma note_received_rx_sel [simp]: "rx_buffer (note_received m c) = rx_buffer c"
  by (cases m) simp_all

lemma disconnect_mild:
  assumes "mild run"
  shows "settles (rx_within (length (rx_buffer (fst s)))) (disconnect run env s)"
  by (auto simp: disconnect_def Let_def split: prod.split intro!: mild_callback[OF assms])

lemma process_step_progress:
  assumes run: "mild run" and rx: "rx_buffer (fst s) \<noteq> []" "length (rx_buffer (fst s)) < 2 ^ 32"
  shows "settles (\<lambda>(continue, s'). continue \<longrightarrow> length (rx_buffer (fst s')) < length (rx_buffer (fst s))) (process_step run env s)"
proof -
  obtain c w where s: "s = (c, w)" by fastforce
  let ?less = "\<lambda>s :: 'a PeerConnection \<times> 'b. length (rx_buffer (fst s)) < length (rx_buffer c)"
  have cb: "?less (c', w) \<Longrightarrow> settles ?less (run_callback run cb ev (c', w))" for cb ev c'
    by (rule settles_mono[OF mild_callback[OF run order_refl]]) simp
  have dc: "settles (\<lambda>s. True) (disconnect run env (c, w))"
    by (rule settles_mono[OF disconnect_mild[OF run]]) simp
  have drop: "0 < k \<Longrightarrow> length (rx_buffer c) - k < length (rx_buffer c)" for k
    using rx(1) s by (simp add: diff_less)
  have eat: "deserialize (rx_buffer c) = Inr (r, k) \<Longrightarrow> \<not> (r = None \<and> k = 0) \<Longrightarrow> 0 < k" for r k
    using deserialize_consumes[of "rx_buffer c"] rx(2) s by simp
  show ?thesis
    using cb dc drop eat by (auto simp: s process_step_def deliver_message_def Let_def split: option.split)
qed

lemma process_rx_buffer_returns:
  assumes "mild run" "length (rx_buffer (fst s)) < 2 ^ 32"
  shows "\<exists>r. process_rx_buffer run env s = Some r"
proof -
  let ?I = "\<lambda>s. length (rx_buffer (fst s)) < 2 ^ 32"
  have "settles (\<lambda>_. True) (process_rx_buffer run env s)"
    unfolding process_rx_buffer_def
  proof (rule repeat_while_settles[where I = ?I and R = "measure (\<lambda>s. length (rx_buffer (fst s)))"])
    fix s :: "'a PeerConnection \<times> 'b"
    assume "?I s"
    then show "settles (\<lambda>(continue, s'). if continue then ?I s' \<and> (s', s) \<in> measure (\<lambda>s. length (rx_buffer (fst s))) else True)
        (if rx_buffer (fst s) = [] then returns (False, s) else process_step run env s)"
      by (auto intro!: settles_mono[OF process_step_progress[OF assms(1)]])
  qed (use assms(2) in simp_all)
  then show ?thesis by (rule settles_Some)
qed

section \<open>The life of a connection\<close>

text \<open>The states in the order in which a connection goes through them.\<close>

fun rank :: "ConnectionState \<Rightarrow> nat" where
  "rank Idle = 0"
| "rank Connecting = 1"
| "rank Handshaking = 2"
| "rank Active = 3"
| "rank Disconnected = 4"

instantiation ConnectionState :: linorder
begin

definition less_eq_ConnectionState :: "ConnectionState \<Rightarrow> ConnectionState \<Rightarrow> bool" where
  "less_eq_ConnectionState a b \<longleftrightarrow> rank a \<le> rank b"

definition less_ConnectionState :: "ConnectionState \<Rightarrow> ConnectionState \<Rightarrow> bool" where
  "less_ConnectionState a b \<longleftrightarrow> rank a < rank b"

instance
proof
  fix a b :: ConnectionState
  show "a \<le> b \<Longrightarrow> b \<le> a \<Longrightarrow> a = b" by (cases a; cases b) (simp_all add: less_eq_ConnectionState_def)
qed (auto simp: less_eq_ConnectionState_def less_ConnectionState_def)

end

lemma state_le_simps [simp]: "Idle \<le> st" "st \<le> Disconnected" "Connecting \<le> Handshaking" "Handshaking \<le> Active"
  by (cases st; simp add: less_eq_ConnectionState_def)+

lemma state_le_Active [simp]: "st \<le> Handshaking \<Longrightarrow> st \<le> Active"
  by (cases st; simp add: less_eq_ConnectionState_def)

text \<open>The socket is open exactly while the connection is being made or in use.\<close>

definition fd_matches :: "'cb PeerConnection \<Rightarrow> bool" where
  "fd_matches c \<longleftrightarrow> (is_open (pc_conn c) \<longleftrightarrow> pc_state c \<in> {Connecting, Handshaking, Active})"

definition onward :: "'cb PeerConnection \<Rightarrow> 'cb PeerConnection \<times> 'w \<Rightarrow> bool" where
  "onward c s \<longleftrightarrow> pc_state c \<le> pc_state (fst s) \<and> (fd_matches c \<longrightarrow> fd_matches (fst s))"

definition orderly :: "('cb, 'w) runner \<Rightarrow> bool" where
  "orderly run \<longleftrightarrow> (\<forall>cb ev c w. yields (onward c) (run cb ev (c, w)))"

lemma onward_refl [simp]: "onward c (c, w)" "onward (fst s) s"
  by (simp_all add: onward_def)

lemma onward_trans: "onward c (c1, w1) \<Longrightarrow> onward c1 s \<Longrightarrow> onward c s"
  by (auto simp: onward_def)

lemma onward_same: "pc_state c1 = pc_state c \<Longrightarrow> pc_conn c1 = pc_conn c \<Longrightarrow> onward c (c1, w)"
  by (simp add: onward_def fd_matches_def)

lemma yields_onward: "yields (onward c1) m \<Longrightarrow> onward c (c1, w1) \<Longrightarrow> yields (onward c) m"
  by (erule yields_mono) (rule onward_trans)

lemma run_callback_onward:
  assumes "orderly run" "onward c (c1, w1)"
  shows "yields (onward c) (run_callback run cb ev (c1, w1))"
proof (cases cb)
  case (Some f)
  have "yields (onward c1) (run f ev (c1, w1))" using assms(1) by (simp add: orderly_def)
  from yields_onward[OF this assms(2)] show ?thesis by (simp add: run_callback_def Some)
qed (use assms(2) in \<open>simp add: run_callback_def\<close>)

text \<open>What \<^verbatim>\<open>socket\<close> returns: -1 or a descriptor.\<close>

definition socket_ok :: "'w Sockets \<Rightarrow> bool" where
  "socket_ok os \<longleftrightarrow> (\<forall>w. - 1 \<le> fst (sys_socket os w))"

text \<open>Moving onward is an invariant of the interface of connections.\<close>

lemma onward_client:
  assumes run: "orderly run" and sock: "socket_ok (env_sock env)"
  shows "connection_client run env (onward c0)"
proof
  fix c :: "'a PeerConnection" and w :: 'b and status conn w'
  assume on: "onward c0 (c, w)" and idle: "pc_state c = Idle"
  { assume ca: "connect_async (env_sock env) (pc_conn c) (pc_ip c) (pc_port c) w = (status, conn, w')" "status \<noteq> ConnectError"
    show "onward c0 (c\<lparr>pc_state := Connecting, pc_conn := conn\<rparr>, w')"
      using connect_async_open[OF ca(1)] ca(2) sock on idle
      by (auto simp: socket_ok_def onward_def fd_matches_def intro: order_trans) }
  { assume ca: "connect_async (env_sock env) (pc_conn c) (pc_ip c) (pc_port c) w = (ConnectError, conn, w')"
    show "yields (onward c0) (run_callback run (on_disconnect_cb c) CbDisconnect (c\<lparr>pc_conn := conn, pc_state := Disconnected\<rparr>, w'))"
      by (rule run_callback_onward[OF run]) (use connect_async_open[OF ca] sock in \<open>simp add: socket_ok_def onward_def fd_matches_def\<close>) }
next
  fix c :: "'a PeerConnection" and w :: 'b and m
  assume "onward c0 (c, w)"
  then show "onward c0 (note_sent m c, w)" "onward c0 (note_received m c, w)"
    by (cases m; simp add: onward_def fd_matches_def)+
qed (auto intro!: run_callback_onward[OF run] simp: onward_def fd_matches_def intro: order_trans)

text \<open>What the rest of the program and the event loop do with a connection.\<close>

inductive pc_step :: "('cb, 'w) runner \<Rightarrow> 'w PeerEnv \<Rightarrow> 'cb PeerConnection \<times> 'w \<Rightarrow> 'cb PeerConnection \<times> 'w \<Rightarrow> bool"
  for run env where
  Connect: "connect run env s = returns s' \<Longrightarrow> pc_step run env s s'"
| Events: "handle_events run env events s = returns s' \<Longrightarrow> pc_step run env s s'"
| Send: "send_message run env m s = returns s' \<Longrightarrow> pc_step run env s s'"
| Disconnect: "disconnect run env s = returns s' \<Longrightarrow> pc_step run env s s'"
| Elsewhere: "pc_step run env (c, w) (c, w')"

lemma pc_step_onward:
  assumes "orderly run" "socket_ok (env_sock env)"
  shows "pc_step run env s s' \<Longrightarrow> onward (fst s) s'"
proof (induction rule: pc_step.induct)
  note client = onward_client[OF assms]
  { case (Connect s s')
    then show ?case using connection_client.connect_J[OF client, of "fst s" "fst s" "snd s"] by simp }
  { case (Events events s s')
    then show ?case using connection_client.handle_events_J[OF client, of "fst s" "fst s" "snd s" events] by simp }
  { case (Send m s s')
    then show ?case using connection_client.send_message_J[OF client, of "fst s" "fst s" "snd s" m] by simp }
  { case (Disconnect s s')
    then show ?case using connection_client.disconnect_J[OF client, of "fst s" "fst s" "snd s"] by simp }
qed simp

lemma pc_run_onward:
  assumes "orderly run" "socket_ok (env_sock env)"
  shows "(pc_step run env)\<^sup>*\<^sup>* s s' \<Longrightarrow> onward (fst s) s'"
proof (induction rule: rtranclp_induct)
  case base
  show ?case by simp
next
  case (step s1 s2)
  then show ?case using pc_step_onward[OF assms, of s1 s2] onward_trans[of "fst s" "fst s1" "snd s1" s2] by simp
qed

section \<open>Correctness\<close>

text \<open>C12: however the network cuts the stream into the pieces that \<^verbatim>\<open>recv\<close> returns, and however these
  are spread over readiness events, a connection that awaits the handshake reports exactly the
  handshake and then every message of the stream, in order, ends up active with the flags the
  messages say, and keeps no bytes.  The handshake may carry any info hash: it is not compared.\<close>

theorem received_stream:
  assumes "scripted env script log" "recording run script log"
    "handshake_wf h" "handshake_serialize h = Inr bs" "\<forall>m\<in>set ms. msg_fits m"
    "pc_state c = Handshaking" "on_handshake_cb c \<noteq> None" "on_message_cb c \<noteq> None" "rx_buffer c = []"
    "\<forall>ps\<in>set batches. segments ps" "concat (concat batches) = bs @ concat (map wire ms)" "script w = entries batches"
  shows "\<exists>w'. read_events run env (length batches) (c, w) =
      returns ((fold note_received ms (c\<lparr>pc_state := Active\<rparr>))\<lparr>rx_buffer := []\<rparr>, w') \<and>
    log w' = log w @ CbHandshake h # map CbMessage ms"
proof -
  from assms(2) obtain f where "observing run f" "\<forall>ev w. log (f ev w) = log w @ [ev] \<and> script (f ev w) = script w"
    unfolding recording_def by blast
  from read_stream[OF assms(1) this assms(3-5,12,10,6-8)] assms(9,11) show ?thesis by simp
qed

text \<open>A world for the examples: what \<^verbatim>\<open>recv\<close> will return, the log of callbacks, the bytes the system
  has taken (it takes five at a time and refuses more once it has ten), the registered events.\<close>

type_synonym demo = "bytes list \<times> callback_event list \<times> bytes \<times> u32"

definition demo_env :: "demo PeerEnv" where
  "demo_env =
     \<lparr>env_sock =
       \<lparr>sys_socket = \<lambda>w. (3, w), sys_getfl = \<lambda>_ w. (True, w), sys_setfl = \<lambda>_ w. (True, w), sys_inet_pton = \<lambda>_. True,
        sys_connect = \<lambda>_ _ _ w. (Some EINPROGRESS, w),
        sys_send = \<lambda>_ bs (q, l, t, i).
          if length t < 10 then (Inr (min 5 (length bs)), (q, l, t @ take (min 5 (length bs)) bs, i)) else (Inl EAGAIN, (q, l, t, i)),
        sys_recv = \<lambda>_ _ (q, l, t, i).
          (case q of [] \<Rightarrow> (Inl EAGAIN, (q, l, t, i)) | p # ps \<Rightarrow> (if p = [] then Inl EAGAIN else Inr p, (ps, l, t, i))),
        sys_so_error = \<lambda>_ w. (False, w), sys_close = \<lambda>_ w. w\<rparr>,
      env_register = \<lambda>_ ev (q, l, t, i). (True, (q, l, t, ev)),
      env_modify = \<lambda>_ ev (q, l, t, i). (q, l, t, ev),
      env_unregister = \<lambda>_ w. w\<rparr>"

definition demo_run :: "(unit, demo) runner" where
  "demo_run cb ev s = (case s of (c, q, l, t, i) \<Rightarrow> returns (c, q, l @ [ev], t, i))"

definition demo_note :: "callback_event \<Rightarrow> demo \<Rightarrow> demo" where
  "demo_note ev w = (case w of (q, l, t, i) \<Rightarrow> (q, l @ [ev], t, i))"

lemma demo_observing: "observing demo_run demo_note"
  by (auto simp: observing_def demo_run_def demo_note_def)

lemma demo_facts:
  "scripted demo_env fst (fst \<circ> snd)" "recording demo_run fst (fst \<circ> snd)" "mild demo_run" "orderly demo_run"
  "stream_env demo_env (fst \<circ> snd \<circ> snd) (snd \<circ> snd \<circ> snd)" "socket_ok (env_sock demo_env)"
proof -
  show "recording demo_run fst (fst \<circ> snd)"
    unfolding recording_def by (rule exI[of _ demo_note]) (auto simp: demo_observing demo_note_def)
qed (auto simp: scripted_def demo_env_def mild_def orderly_def demo_run_def stream_env_def socket_ok_def split: list.split)

definition demo_handshake :: HandshakeMsg where
  "demo_handshake = \<lparr>reserved = replicate 8 0, hs_info_hash = replicate 20 1, hs_peer_id = replicate 20 2\<rparr>"

definition demo_peer :: "unit PeerConnection" where
  "demo_peer = (peer_connection [] 6881 (replicate 20 1) (replicate 20 3))
     \<lparr>on_handshake_cb := Some (), on_message_cb := Some (), on_disconnect_cb := Some ()\<rparr>"

definition demo_batches :: "bytes list list" where
  "demo_batches = [[[19], protocol_name @ replicate 8 0 @ replicate 20 1 @ replicate 20 2 @ [0, 0]], [[0, 1, 1, 0, 0], [0, 0]]]"

theorem received_stream_witness:
  "\<exists>w'. read_events demo_run demo_env 2 (demo_peer\<lparr>pc_state := Handshaking\<rparr>, entries demo_batches, [], [], 0) =
      returns (demo_peer\<lparr>pc_state := Active, peer_choking := False\<rparr>, w') \<and>
    fst (snd w') = [CbHandshake demo_handshake, CbMessage UnchokeMsg, CbMessage KeepAliveMsg]"
proof -
  let ?bs = "19 # protocol_name @ replicate 8 0 @ replicate 20 1 @ replicate 20 2 :: bytes"
  let ?c = "demo_peer\<lparr>pc_state := Handshaking\<rparr>"
  have h: "handshake_wf demo_handshake" by (simp add: handshake_wf_def demo_handshake_def)
  have bs: "handshake_serialize demo_handshake = Inr ?bs"
    using handshake_wire[OF h] by (simp add: demo_handshake_def)
  have "wire UnchokeMsg = [0, 0, 0, 1, 1]" "wire KeepAliveMsg = [0, 0, 0, 0]"
    by (simp_all add: wire_simps) (code_simp+)
  then have stream: "concat (concat demo_batches) = ?bs @ concat (map wire [UnchokeMsg, KeepAliveMsg])"
    by (simp add: demo_batches_def)
  have seg: "\<forall>ps\<in>set demo_batches. segments ps" "length demo_batches = 2"
    by (simp_all add: demo_batches_def protocol_name_def)
  have sel: "pc_state ?c = Handshaking" "on_handshake_cb ?c \<noteq> None" "on_message_cb ?c \<noteq> None" "rx_buffer ?c = []"
    and fin: "(fold note_received [UnchokeMsg, KeepAliveMsg] (?c\<lparr>pc_state := Active\<rparr>))\<lparr>rx_buffer := []\<rparr> =
      demo_peer\<lparr>pc_state := Active, peer_choking := False\<rparr>"
    by (simp_all add: demo_peer_def peer_connection_def)
  have fits: "\<forall>m\<in>set [UnchokeMsg, KeepAliveMsg]. msg_fits m" by simp
  show ?thesis
    using received_stream[OF demo_facts(1,2) h bs fits sel seg(1) stream, of "(entries demo_batches, [], [], 0)"]
    unfolding fin seg(2) by simp
qed

text \<open>C13: sending messages on an active connection returns, and what the system has been given is always
  a prefix of the concatenation of the serialised messages, in order and with nothing lost or
  repeated; as long as the connection lives, the rest of that concatenation is in the transmit buffer, and write
  readiness is requested exactly when this buffer is not empty.\<close>

theorem transmitted_stream:
  assumes "stream_env env sent interest" "observing run f" "\<forall>ev w. sent (f ev w) = sent w"
    "\<forall>m\<in>set ms. msg_fits m" "pc_state c = Active" "tx_buffer c = []" "interest w AND EPOLLOUT = 0"
  shows "\<exists>c' w'. send_all run env ms (c, w) = returns (c', w') \<and>
      prefix (sent w') (sent w @ concat (map wire ms)) \<and>
      (pc_state c' = Disconnected \<or>
       pc_state c' = Active \<and> sent w' @ tx_buffer c' = sent w @ concat (map wire ms) \<and>
       (interest w' AND EPOLLOUT \<noteq> 0 \<longleftrightarrow> tx_buffer c' \<noteq> []))"
  using send_all_stream[OF assms(1-5), of w] assms(6,7) by simp

theorem transmitted_stream_witness:
  "\<exists>c' w'. send_all demo_run demo_env [InterestedMsg, HaveMsg 7, UnchokeMsg] (demo_peer\<lparr>pc_state := Active\<rparr>, [], [], [], 0) =
      returns (c', w') \<and> prefix (fst (snd (snd w'))) ([0, 0, 0, 1, 2] @ [0, 0, 0, 5, 4, 0, 0, 0, 7] @ [0, 0, 0, 1, 1])"
proof -
  let ?ms = "[InterestedMsg, HaveMsg 7, UnchokeMsg]"
  have "wire InterestedMsg = [0, 0, 0, 1, 2]" "wire (HaveMsg 7) = [0, 0, 0, 5, 4, 0, 0, 0, 7]" "wire UnchokeMsg = [0, 0, 0, 1, 1]"
    by (simp_all add: wire_simps) (code_simp+)
  then have w: "concat (map wire ?ms) = [0, 0, 0, 1, 2] @ [0, 0, 0, 5, 4, 0, 0, 0, 7] @ [0, 0, 0, 1, 1]" by simp
  have "\<forall>ev w. (fst \<circ> snd \<circ> snd) (demo_note ev w) = (fst \<circ> snd \<circ> snd) w" by (simp add: demo_note_def split: prod.split)
  from transmitted_stream[OF demo_facts(5) demo_observing this, of ?ms "demo_peer\<lparr>pc_state := Active\<rparr>" "([], [], [], 0)"]
  show ?thesis unfolding w by (auto simp: demo_peer_def peer_connection_def)
qed

text \<open>C15: processing the receive buffer always ends, whatever the peer sent, unless 4 GiB are
  buffered: every round of the loop that goes on consumes bytes, provided that the callbacks end and do not
  add to the buffer.\<close>

theorem process_rx_buffer_terminates:
  assumes "mild run" "length (rx_buffer c) < 2 ^ 32"
  shows "process_rx_buffer run env (c, w) \<noteq> None"
  using process_rx_buffer_returns[OF assms(1), of "(c, w)" env] assms(2) by auto

theorem process_rx_buffer_terminates_witness:
  "process_rx_buffer demo_run demo_env (demo_peer\<lparr>pc_state := Active, rx_buffer := replicate 200 9\<rparr>, [], [], [], 0) \<noteq> None"
  by (rule process_rx_buffer_terminates[OF demo_facts(3)]) simp

text \<open>C14: whatever sequence of connecting, sending, events and disconnecting a connection goes through, its
  state only moves forward, from idle over connecting, handshaking and active to disconnected, where it stays, and
  its socket is open exactly while it is connecting, handshaking or active, provided that the callbacks do
  not break this.\<close>

theorem connection_life_cycle:
  assumes "orderly run" "socket_ok (env_sock env)" "(pc_step run env)\<^sup>*\<^sup>* (c, w) (c', w')" "fd_matches c"
  shows "pc_state c \<le> pc_state c' \<and> (is_open (pc_conn c') \<longleftrightarrow> pc_state c' \<in> {Connecting, Handshaking, Active}) \<and>
    (pc_state c = Disconnected \<longrightarrow> pc_state c' = Disconnected)"
  using pc_run_onward[OF assms(1-3)] assms(4)
  by (cases "pc_state c'") (auto simp: onward_def fd_matches_def less_eq_ConnectionState_def)

theorem connection_life_cycle_witness:
  "\<exists>c w. connect demo_run demo_env (demo_peer, [], [], [], 0) = returns (c, w) \<and>
     pc_state c = Connecting \<and> is_open (pc_conn c)"
proof -
  obtain c w where r: "connect demo_run demo_env (demo_peer, [], [], [], 0) = returns (c, w)" "pc_state c = Connecting"
    by (simp add: connect_def demo_peer_def peer_connection_def demo_env_def connect_async_def tcp_close_def
        tcp_connection_def update_epoll_interests_def)
  have "(pc_step demo_run demo_env)\<^sup>*\<^sup>* (demo_peer, [], [], [], 0) (c, w)"
    using pc_step.Connect[OF r(1)] by (rule r_into_rtranclp)
  moreover have "fd_matches demo_peer"
    by (simp add: fd_matches_def demo_peer_def peer_connection_def is_open_def tcp_connection_def)
  ultimately have "is_open (pc_conn c) \<longleftrightarrow> pc_state c \<in> {Connecting, Handshaking, Active}"
    using connection_life_cycle[OF demo_facts(4,6)] by blast
  then show ?thesis using r by (intro exI[of _ c] exI[of _ w]) simp
qed

end
