(* ===== verification/Download_Coordinator.thy ===== *)
theory Download_Coordinator
  imports Piece_Manager Piece_Picker Peer_Message
begin

text \<open>
  The download coordinator (\<^verbatim>\<open>include/download_coordinator.hpp\<close>, \<^verbatim>\<open>src/download_coordinator.cpp\<close>):
  for every registered peer its bitfield, its outstanding requests (at most five) and the piece
  it works on.  A peer is the address of its connection; the null pointer is 0.  What the
  coordinator uses of connections, the two callbacks that the program installs, the
  random choice and the iteration order of \<^verbatim>\<open>std::unordered_map\<close> are the fields of \<open>DcEnv\<close>.  Sending a
  message may disconnect the peer, whose disconnect callback then erases its entry: a later use of
  the entry through the reference that the caller holds is the error \<open>UseAfterFree\<close>.
\<close>

section \<open>State\<close>

type_synonym ptr = nat

record RequestedBlock =
  rq_piece :: nat
  rq_begin :: nat
  rq_length :: nat

record PeerState =
  ds_bitfield :: Bitfield
  outstanding :: "RequestedBlock list"
  active_piece :: "nat option"

record ('g, 'w) Coordinator =
  dc_pm :: PieceManager
  dc_picker :: "'g PiecePicker"
  dc_num_pieces :: nat
  dc_peers :: "ptr \<rightharpoonup> PeerState"
  dc_world :: 'w

record ('g, 'w) DcEnv =
  dc_sha1 :: "bytes \<Rightarrow> bytes"
  dc_draw :: "'g draw"
  dc_order :: "(ptr \<rightharpoonup> PeerState) \<Rightarrow> ptr list"
  is_peer_choking :: "ptr \<Rightarrow> 'w \<Rightarrow> bool"
  is_interested :: "ptr \<Rightarrow> 'w \<Rightarrow> bool"
  dc_send :: "ptr \<Rightarrow> PeerMessage \<Rightarrow> ('g, 'w) Coordinator \<Rightarrow> ('g, 'w) Coordinator effect"
  dc_set_callbacks :: "ptr \<Rightarrow> 'w \<Rightarrow> 'w"
  on_piece_completed_cb :: "(nat \<Rightarrow> bytes \<Rightarrow> 'w \<Rightarrow> 'w) option"
  on_peer_corrupted_cb :: "(ptr \<Rightarrow> ('g, 'w) Coordinator \<Rightarrow> ('g, 'w) Coordinator effect) option"

definition download_coordinator :: "PieceManager \<Rightarrow> 'g PiecePicker \<Rightarrow> nat \<Rightarrow> 'w \<Rightarrow> ('g, 'w) Coordinator" where
  "download_coordinator pm pp n w = \<lparr>dc_pm = pm, dc_picker = pp, dc_num_pieces = n, dc_peers = Map.empty, dc_world = w\<rparr>"

text \<open>Reading an entry of \<^verbatim>\<open>peers_\<close> through a reference, and writing it.\<close>

definition dc_entry :: "('g, 'w) Coordinator \<Rightarrow> ptr \<Rightarrow> PeerState effect" where
  "dc_entry s p = lift_mem (case dc_peers s p of None \<Rightarrow> Inl UseAfterFree | Some st \<Rightarrow> Inr st)"

definition dc_put :: "('g, 'w) Coordinator \<Rightarrow> ptr \<Rightarrow> PeerState \<Rightarrow> ('g, 'w) Coordinator" where
  "dc_put s p st = s\<lparr>dc_peers := (dc_peers s)(p \<mapsto> st)\<rparr>"

section \<open>Registration\<close>

definition register_peer :: "('g, 'w) DcEnv \<Rightarrow> ptr \<Rightarrow> ('g, 'w) Coordinator \<Rightarrow> ('g, 'w) Coordinator" where
  "register_peer env p s =
     (if p = 0 then s
      else let s = dc_put s p \<lparr>ds_bitfield = bitfield_empty (dc_num_pieces s), outstanding = [], active_piece = None\<rparr> in
        s\<lparr>dc_world := dc_set_callbacks env p (dc_world s)\<rparr>)"

definition release_requests :: "RequestedBlock list \<Rightarrow> PieceManager \<Rightarrow> PieceManager" where
  "release_requests rs pm = fold (\<lambda>r pm. block_request_failed pm (rq_piece r) (rq_begin r)) rs pm"

definition unregister_peer :: "ptr \<Rightarrow> ('g, 'w) Coordinator \<Rightarrow> ('g, 'w) Coordinator" where
  "unregister_peer p s =
     (if p = 0 then s
      else case dc_peers s p of
        None \<Rightarrow> s
      | Some st \<Rightarrow>
          s\<lparr>dc_picker := remove_peer_bitfield (dc_picker s) (ds_bitfield st),
            dc_pm := release_requests (outstanding st) (dc_pm s),
            dc_peers := (dc_peers s)(p := None)\<rparr>)"

section \<open>The request pipeline\<close>

definition completed_or_full :: "('g, 'w) Coordinator \<Rightarrow> Bitfield" where
  "completed_or_full s =
     fold (\<lambda>i b. if \<not> has_pending_blocks (dc_pm s) i then bf_set b i True else b)
       [0..<dc_num_pieces s] (pm_bitfield (dc_pm s))"

text \<open>The piece to request from: the active one, or a newly picked one.\<close>

definition choose_piece :: "('g, 'w) DcEnv \<Rightarrow> PeerState \<Rightarrow> ('g, 'w) Coordinator \<Rightarrow> nat option \<times> ('g, 'w) Coordinator" where
  "choose_piece env st s =
     (case active_piece st of
        Some i \<Rightarrow> (Some i, s)
      | None \<Rightarrow>
          let (picked, pp) = pick_piece (dc_draw env) (dc_picker s) (ds_bitfield st) (completed_or_full s) in
          (picked, s\<lparr>dc_picker := pp\<rparr>))"

text \<open>One round of the loop, and whether the loop goes on.\<close>

definition pipeline_round ::
  "('g, 'w) DcEnv \<Rightarrow> ptr \<Rightarrow> ('g, 'w) Coordinator \<Rightarrow> (bool \<times> ('g, 'w) Coordinator) effect" where
  "pipeline_round env p s =
     bindR (dc_entry s p) (\<lambda>st.
     if length (outstanding st) < 5 then
       (let (piece, s) = choose_piece env st s in
        case piece of
          None \<Rightarrow> returns (False, s)
        | Some i \<Rightarrow>
            let (block_opt, pm) = get_next_block (dc_pm s) i; s = s\<lparr>dc_pm := pm\<rparr> in
            (case block_opt of
               None \<Rightarrow> returns (True, dc_put s p (st\<lparr>active_piece := None\<rparr>))
             | Some b \<Rightarrow>
                 let req = \<lparr>rq_piece = blk_piece b, rq_begin = blk_begin b, rq_length = blk_length b\<rparr>;
                     s = dc_put s p (st\<lparr>active_piece := Some i, outstanding := outstanding st @ [req]\<rparr>) in
                 bindR (dc_send env p (RequestMsg (of_nat (blk_piece b)) (of_nat (blk_begin b)) (of_nat (blk_length b))) s)
                   (\<lambda>s. returns (True, s))))
     else returns (False, s))"

definition fill_request_pipeline ::
  "('g, 'w) DcEnv \<Rightarrow> ptr \<Rightarrow> ('g, 'w) Coordinator \<Rightarrow> ('g, 'w) Coordinator effect" where
  "fill_request_pipeline env p s =
     (if p = 0 \<or> is_peer_choking env p (dc_world s) \<or> dc_peers s p = None then returns s
      else repeat_while (pipeline_round env p) s)"

section \<open>Messages\<close>

definition delete_at :: "nat \<Rightarrow> 'a list \<Rightarrow> 'a list" where
  "delete_at k xs = take k xs @ drop (Suc k) xs"

text \<open>One round of the loop over the outstanding requests of one peer, at position \<open>k\<close>.\<close>

definition cancel_round ::
  "('g, 'w) DcEnv \<Rightarrow> ptr \<Rightarrow> nat \<Rightarrow> nat \<times> ('g, 'w) Coordinator \<Rightarrow> (bool \<times> nat \<times> ('g, 'w) Coordinator) effect" where
  "cancel_round env p piece ks =
     (let (k, s) = ks in
      bindR (dc_entry s p) (\<lambda>st.
      if k < length (outstanding st) then
        (let r = outstanding st ! k in
         if rq_piece r = piece then
           bindR (dc_send env p (CancelMsg (of_nat (rq_piece r)) (of_nat (rq_begin r)) (of_nat (rq_length r))) s) (\<lambda>s.
           bindR (dc_entry s p) (\<lambda>st.
           returns (True, k, dc_put s p (st\<lparr>outstanding := delete_at k (outstanding st)\<rparr>))))
         else returns (True, k + 1, s))
      else returns (False, k, s)))"

fun cancel_peers ::
  "('g, 'w) DcEnv \<Rightarrow> nat \<Rightarrow> ptr list \<Rightarrow> ('g, 'w) Coordinator \<Rightarrow> ('g, 'w) Coordinator effect" where
  "cancel_peers env piece [] s = returns s"
| "cancel_peers env piece (p # ps) s =
     bindR (repeat_while (cancel_round env p piece) (0, s)) (\<lambda>(_, s).
     bindR (dc_entry s p) (\<lambda>st.
     cancel_peers env piece ps
       (if active_piece st = Some piece then dc_put s p (st\<lparr>active_piece := None\<rparr>) else s)))"

definition cancel_piece_requests ::
  "('g, 'w) DcEnv \<Rightarrow> nat \<Rightarrow> ('g, 'w) Coordinator \<Rightarrow> ('g, 'w) Coordinator effect" where
  "cancel_piece_requests env piece s = cancel_peers env piece (dc_order env (dc_peers s)) s"

text \<open>Going on to the next entry needs the current one.\<close>

fun broadcast :: "('g, 'w) DcEnv \<Rightarrow> PeerMessage \<Rightarrow> ptr list \<Rightarrow> ('g, 'w) Coordinator \<Rightarrow> ('g, 'w) Coordinator effect" where
  "broadcast env msg [] s = returns s"
| "broadcast env msg (p # ps) s =
     bindR (dc_send env p msg s) (\<lambda>s. bindR (dc_entry s p) (\<lambda>_. broadcast env msg ps s))"

definition on_choke :: "ptr \<Rightarrow> PeerState \<Rightarrow> ('g, 'w) Coordinator \<Rightarrow> ('g, 'w) Coordinator" where
  "on_choke p st s =
     dc_put (s\<lparr>dc_pm := release_requests (outstanding st) (dc_pm s)\<rparr>) p (st\<lparr>outstanding := [], active_piece := None\<rparr>)"

definition on_bitfield ::
  "('g, 'w) DcEnv \<Rightarrow> ptr \<Rightarrow> PeerState \<Rightarrow> bytes \<Rightarrow> ('g, 'w) Coordinator \<Rightarrow> ('g, 'w) Coordinator effect" where
  "on_bitfield env p st field s =
     (let pp = remove_peer_bitfield (dc_picker s) (ds_bitfield st);
          b = bitfield_of_bytes field (dc_num_pieces s);
          s = dc_put (s\<lparr>dc_picker := add_peer_bitfield pp b\<rparr>) p (st\<lparr>ds_bitfield := b\<rparr>);
          interested = list_ex (\<lambda>i. bf_has b i \<and> \<not> has_piece (dc_pm s) i) [0..<dc_num_pieces s] in
      bindR (if interested \<and> \<not> is_interested env p (dc_world s) then dc_send env p InterestedMsg s else returns s) (\<lambda>s.
      if \<not> is_peer_choking env p (dc_world s) then fill_request_pipeline env p s else returns s))"

definition on_have ::
  "('g, 'w) DcEnv \<Rightarrow> ptr \<Rightarrow> PeerState \<Rightarrow> nat \<Rightarrow> ('g, 'w) Coordinator \<Rightarrow> ('g, 'w) Coordinator effect" where
  "on_have env p st idx s =
     (if idx < dc_num_pieces s then
        (let s = (if \<not> bf_has (ds_bitfield st) idx
                  then dc_put (s\<lparr>dc_picker := add_availability (dc_picker s) idx\<rparr>) p
                         (st\<lparr>ds_bitfield := bf_set (ds_bitfield st) idx True\<rparr>)
                  else s) in
         if \<not> has_piece (dc_pm s) idx \<and> \<not> is_interested env p (dc_world s) then dc_send env p InterestedMsg s
         else returns s)
      else returns s)"

text \<open>\<^verbatim>\<open>std::find_if\<close> and \<^verbatim>\<open>erase\<close>: the first matching request goes.\<close>

fun drop_request :: "nat \<Rightarrow> nat \<Rightarrow> RequestedBlock list \<Rightarrow> RequestedBlock list" where
  "drop_request piece bgn [] = []"
| "drop_request piece bgn (r # rs) =
     (if rq_piece r = piece \<and> rq_begin r = bgn then rs else r # drop_request piece bgn rs)"

definition finish_piece ::
  "('g, 'w) DcEnv \<Rightarrow> ptr \<Rightarrow> nat \<Rightarrow> ('g, 'w) Coordinator \<Rightarrow> ('g, 'w) Coordinator effect" where
  "finish_piece env p i s =
     bindR (lift_mem (validate_piece (dc_sha1 env) (dc_pm s) i)) (\<lambda>ok.
     if ok then
       (let s = (case on_piece_completed_cb env of
                   None \<Rightarrow> s
                 | Some cb \<Rightarrow> s\<lparr>dc_world := cb i (get_piece_data (dc_pm s) i) (dc_world s)\<rparr>);
            s = s\<lparr>dc_pm := piece_completed (dc_pm s) i\<rparr> in
        bindR (cancel_piece_requests env i s) (\<lambda>s.
        broadcast env (HaveMsg (of_nat i)) (dc_order env (dc_peers s)) s))
     else
       (let s = s\<lparr>dc_pm := piece_failed (dc_pm s) i\<rparr> in
        case on_peer_corrupted_cb env of None \<Rightarrow> returns s | Some cb \<Rightarrow> cb p s))"

definition on_piece ::
  "('g, 'w) DcEnv \<Rightarrow> ptr \<Rightarrow> PeerState \<Rightarrow> nat \<Rightarrow> nat \<Rightarrow> bytes \<Rightarrow> ('g, 'w) Coordinator \<Rightarrow> ('g, 'w) Coordinator effect" where
  "on_piece env p st i bgn block s =
     (let s = dc_put s p (st\<lparr>outstanding := drop_request i bgn (outstanding st)\<rparr>);
          (completed, pm) = block_received (dc_pm s) i bgn block;
          s = s\<lparr>dc_pm := pm\<rparr> in
      bindR (if completed
             then bindR (finish_piece env p i s) (\<lambda>s.
                  bindR (dc_entry s p) (\<lambda>st.
                  returns (if active_piece st = Some i then dc_put s p (st\<lparr>active_piece := None\<rparr>) else s)))
             else returns s) (\<lambda>s.
      if \<not> is_peer_choking env p (dc_world s) then fill_request_pipeline env p s else returns s))"

definition handle_peer_message ::
  "('g, 'w) DcEnv \<Rightarrow> ptr \<Rightarrow> PeerMessage \<Rightarrow> ('g, 'w) Coordinator \<Rightarrow> ('g, 'w) Coordinator effect" where
  "handle_peer_message env p msg s =
     (case dc_peers s p of
        None \<Rightarrow> returns s
      | Some st \<Rightarrow>
          (case msg of
             ChokeMsg \<Rightarrow> returns (on_choke p st s)
           | UnchokeMsg \<Rightarrow> fill_request_pipeline env p s
           | BitfieldMsg field \<Rightarrow> on_bitfield env p st field s
           | HaveMsg idx \<Rightarrow> on_have env p st (unat idx) s
           | PieceMsg idx bgn block \<Rightarrow> on_piece env p st (unat idx) (unat bgn) block s
           | _ \<Rightarrow> returns s))"

section \<open>Queries\<close>

definition outstanding_request_count :: "('g, 'w) Coordinator \<Rightarrow> ptr \<Rightarrow> nat" where
  "outstanding_request_count s p =
     (if p = 0 then 0 else case dc_peers s p of None \<Rightarrow> 0 | Some st \<Rightarrow> length (outstanding st))"

definition dc_active_piece :: "('g, 'w) Coordinator \<Rightarrow> ptr \<Rightarrow> nat option" where
  "dc_active_piece s p = (if p = 0 then None else case dc_peers s p of None \<Rightarrow> None | Some st \<Rightarrow> active_piece st)"

definition get_peer_bitfield :: "('g, 'w) Coordinator \<Rightarrow> ptr \<Rightarrow> Bitfield option" where
  "get_peer_bitfield s p = (if p = 0 then None else map_option ds_bitfield (dc_peers s p))"

end
