(* ===== verification/Coordinator_Invariant.thy ===== *)
theory Coordinator_Invariant
  imports Download_Coordinator "HOL-Library.Multiset"
begin

text \<open>
  Correctness of the download coordinator: an invariant that ties the piece manager, the
  piece picker and the table of peers together, kept by every operation, and the termination
  of the request pipeline.  The interface to connections is the locale \<open>peer_link\<close>: sending a message to a
  peer leaves the coordinator alone or unregisters that peer.
\<close>

section \<open>Requested blocks\<close>

text \<open>The blocks that the piece manager holds to be requested, as piece and offset.\<close>

definition requested_in :: "nat \<Rightarrow> Piece_Manager.PieceState \<Rightarrow> (nat \<times> nat) set" where
  "requested_in i st = {(i, blk_begin b) |b. b \<in> set (ps_blocks st) \<and> blk_state b = Requested}"

definition requested :: "PieceManager \<Rightarrow> (nat \<times> nat) set" where
  "requested pm = (\<Union>i\<in>dom (in_progress pm). requested_in i (the (in_progress pm i)))"

lemma requested_iff:
  "(i, bgn) \<in> requested pm \<longleftrightarrow>
     (\<exists>st b. in_progress pm i = Some st \<and> b \<in> set (ps_blocks st) \<and> blk_state b = Requested \<and> blk_begin b = bgn)"
  by (auto simp: requested_def requested_in_def)

lemma requested_update:
  "in_progress pm' = (in_progress pm)(i \<mapsto> st) \<Longrightarrow>
   requested pm' = {x \<in> requested pm. fst x \<noteq> i} \<union> requested_in i st"
  by (auto simp: requested_iff requested_in_def split: if_splits)

lemma requested_erase:
  "in_progress pm' = (in_progress pm)(i := None) \<Longrightarrow> requested pm' = {x \<in> requested pm. fst x \<noteq> i}"
  by (auto simp: requested_iff split: if_splits)

lemma initial_not_requested: "requested_in i (initial_piece md i) = {}"
  by (auto simp: requested_in_def initial_piece_def Let_def make_blocks_map)

lemma requested_entered: "requested_in i (entered pm i) = {x \<in> requested pm. fst x = i}"
  by (auto simp: entered_def initial_not_requested requested_iff split: option.split)
    (auto simp: requested_in_def)

lemma requested_in_restate:
  assumes "k < length (ps_blocks st)" "bs = set_block_state (ps_blocks st) k s"
  shows "requested_in i (st\<lparr>ps_blocks := bs\<rparr>) \<subseteq>
      requested_in i st \<union> (if s = Requested then {(i, blk_begin (ps_blocks st ! k))} else {})"
  using assms
  by (auto simp: requested_in_def set_block_state_def in_set_conv_nth nth_list_update split: if_splits)

lemma requested_in_nth:
  "x \<in> requested_in i st \<longleftrightarrow>
     (\<exists>j < length (ps_blocks st). blk_state (ps_blocks st ! j) = Requested \<and> x = (i, blk_begin (ps_blocks st ! j)))"
  by (auto simp: requested_in_def in_set_conv_nth)

lemma tiled_begin_inj: "tiled p l bs \<Longrightarrow> j < length bs \<Longrightarrow> k < length bs \<Longrightarrow> blk_begin (bs ! j) = blk_begin (bs ! k) \<Longrightarrow> j = k"
  by (auto simp: tiled_def)

lemma requested_in_clear:
  assumes "tiled p l (ps_blocks st)" "find_block bgn (ps_blocks st) = Some k" "s \<noteq> Requested"
  shows "requested_in i (st\<lparr>ps_blocks := set_block_state (ps_blocks st) k s\<rparr>) \<subseteq> requested_in i st - {(i, bgn)}"
proof -
  have k: "k < length (ps_blocks st)" "blk_begin (ps_blocks st ! k) = bgn" using find_block_less[OF assms(2)] by auto
  then have other: "blk_begin (ps_blocks st ! j) = bgn \<Longrightarrow> j < length (ps_blocks st) \<Longrightarrow> j = k" for j
    using tiled_begin_inj[OF assms(1), of j k] by auto
  show ?thesis
    using k(1) assms(3) other by (auto simp: requested_in_nth set_block_state_def nth_list_update split: if_splits)
qed

lemma requested_in_unknown:
  "find_block bgn (ps_blocks st) = None \<Longrightarrow> (i, bgn) \<notin> requested_in i st"
  by (auto simp: requested_in_def find_block_None)

lemma requested_in_found:
  assumes "tiled p l (ps_blocks st)" "find_block bgn (ps_blocks st) = Some k"
  shows "(i, bgn) \<in> requested_in i st \<longleftrightarrow> blk_state (ps_blocks st ! k) = Requested"
  using find_block_less[OF assms(2)] tiled_begin_inj[OF assms(1), of k] by (auto simp: requested_in_nth)

lemma requested_release_block:
  assumes "tiled p l (ps_blocks st)"
  shows "requested_in i (release_block st bgn) \<subseteq> requested_in i st - {(i, bgn)}"
proof (cases "find_block bgn (ps_blocks st)")
  case None
  then show ?thesis using requested_in_unknown[OF None] by (auto simp: release_block_def)
next
  case (Some k)
  show ?thesis
  proof (cases "blk_state (ps_blocks st ! k) = Requested")
    case True
    then show ?thesis using requested_in_clear[OF assms Some, of Pending i] by (simp add: release_block_def Some)
  next
    case False
    then have "(i, bgn) \<notin> requested_in i st" using requested_in_found[OF assms Some] by simp
    with False show ?thesis by (auto simp: release_block_def Some)
  qed
qed

lemma requested_store_block:
  assumes "tiled p l (ps_blocks st)"
  shows "requested_in i (store_block st bgn d) \<subseteq> requested_in i st - {(i, bgn)}"
proof (cases "find_block bgn (ps_blocks st)")
  case None
  then show ?thesis using requested_in_unknown[OF None] by (auto simp: store_block_def)
next
  case (Some k)
  have blocks: "ps_blocks (store_block st bgn d) =
      (if blk_state (ps_blocks st ! k) \<noteq> Received then set_block_state (ps_blocks st) k Received else ps_blocks st)"
    by (simp add: store_block_def Some Let_def)
  have only: "requested_in i st' = requested_in i (st\<lparr>ps_blocks := ps_blocks st'\<rparr>)" for st'
    by (simp add: requested_in_def)
  show ?thesis
  proof (cases "blk_state (ps_blocks st ! k) = Received")
    case False
    then show ?thesis using requested_in_clear[OF assms Some, of Received i] only[of "store_block st bgn d"] blocks by simp
  next
    case True
    then have "(i, bgn) \<notin> requested_in i st" using requested_in_found[OF assms Some] by simp
    with True show ?thesis using only[of "store_block st bgn d"] blocks by auto
  qed
qed

section \<open>Requested blocks under the operations of the piece manager\<close>

text \<open>A completed piece is not in progress any more.\<close>

definition settled :: "PieceManager \<Rightarrow> bool" where
  "settled pm \<longleftrightarrow> (\<forall>i. has_piece pm i \<longrightarrow> in_progress pm i = None)"

definition pm_good :: "TorrentMetadata \<Rightarrow> PieceManager \<Rightarrow> bool" where
  "pm_good md pm \<longleftrightarrow> pm_inv pm \<and> settled pm \<and> pm_metadata pm = md"

lemma settled_not_requested: "settled pm \<Longrightarrow> has_piece pm i \<Longrightarrow> (i, bgn) \<notin> requested pm"
  by (auto simp: settled_def requested_iff)

lemma pm_good_step:
  assumes "pm_good md pm" "\<forall>i. e \<noteq> MarkCompleted i"
  shows "pm_good md (pm_step pm e)"
proof -
  have inv: "pm_inv pm" and st: "settled pm" and md: "pm_metadata pm = md" using assms(1) by (auto simp: pm_good_def)
  have "settled (pm_step pm e)"
  proof (unfold settled_def, intro allI impI)
    fix i
    assume h: "has_piece (pm_step pm e) i"
    show "in_progress (pm_step pm e) i = None"
    proof (cases "has_piece pm i")
      case True
      then have "in_progress pm i = None" using st by (simp add: settled_def)
      with True show ?thesis unfolding pm_step_in_progress[OF inv]
        by (cases e) (auto simp: apply_change_def split: option.split)
    next
      case False
      have "bf_inv (pm_bitfield pm)" using inv by (simp add: pm_inv_def)
      from bitset.mem_add[OF this] False h assms(2) have "e = PieceCompleted i"
        unfolding has_piece_def pm_step_bitfield by (cases e) auto
      then show ?thesis by (simp add: piece_completed_def erase_piece_def)
    qed
  qed
  then show ?thesis using inv md by (simp add: pm_good_def pm_step_inv)
qed

lemma pm_good_ops:
  assumes "pm_good md pm"
  shows "pm_good md (snd (get_next_block pm i))" "pm_good md (snd (block_received pm i bgn d))"
    "pm_good md (piece_completed pm i)" "pm_good md (piece_failed pm i)" "pm_good md (block_request_failed pm i bgn)"
  using pm_good_step[OF assms, of "NextBlock i"] pm_good_step[OF assms, of "BlockReceived i bgn d"]
    pm_good_step[OF assms, of "PieceCompleted i"] pm_good_step[OF assms, of "PieceFailed i"]
    pm_good_step[OF assms, of "BlockRequestFailed i bgn"]
  by simp_all

lemma pm_good_tiled: "pm_good md pm \<Longrightarrow> tiled (i mod 2 ^ 32) (get_piece_length md i) (ps_blocks (entered pm i))"
  using entered_ok[of pm i] by (auto simp: pm_good_def piece_ok_def)

lemma requested_request_failed:
  assumes "pm_good md pm"
  shows "requested (block_request_failed pm i bgn) \<subseteq> requested pm - {(i, bgn)}"
proof (cases "in_progress pm i")
  case None
  then have "block_request_failed pm i bgn = pm" by (simp add: block_request_failed_def)
  with None show ?thesis by (auto simp: requested_iff)
next
  case (Some st)
  have inv: "pm_inv pm" using assms by (simp add: pm_good_def)
  have e: "entered pm i = st" using Some by (simp add: entered_def)
  have "in_progress (block_request_failed pm i bgn) = (in_progress pm)(i \<mapsto> release_block st bgn)"
    using pm_step_in_progress[OF inv, of "BlockRequestFailed i bgn"] Some by (simp add: apply_change_def)
  then have "requested (block_request_failed pm i bgn) = {x \<in> requested pm. fst x \<noteq> i} \<union> requested_in i (release_block st bgn)"
    by (rule requested_update)
  moreover have "requested_in i st = {x \<in> requested pm. fst x = i}" using requested_entered[of i pm] e by simp
  ultimately show ?thesis using requested_release_block[of _ _ st i bgn] pm_good_tiled[OF assms, of i] e by fastforce
qed

lemma requested_block_received:
  assumes "pm_good md pm"
  shows "requested (snd (block_received pm i bgn d)) \<subseteq> requested pm - {(i, bgn)}"
proof (cases "has_piece pm i")
  case True
  then have "snd (block_received pm i bgn d) = pm" by (simp add: block_received_def)
  with True assms settled_not_requested show ?thesis by (auto simp: pm_good_def)
next
  case False
  have inv: "pm_inv pm" using assms by (simp add: pm_good_def)
  have "in_progress (snd (block_received pm i bgn d)) = (in_progress pm)(i \<mapsto> store_block (entered pm i) bgn d)"
    using pm_step_in_progress[OF inv, of "BlockReceived i bgn d"] False by (simp add: apply_change_def)
  then have "requested (snd (block_received pm i bgn d)) =
      {x \<in> requested pm. fst x \<noteq> i} \<union> requested_in i (store_block (entered pm i) bgn d)"
    by (rule requested_update)
  then show ?thesis
    using requested_store_block[OF pm_good_tiled[OF assms, of i], of i bgn d] requested_entered[of i pm] by fastforce
qed

lemma requested_next_block:
  assumes "pm_good md pm" "get_next_block pm i = (r, pm')"
  shows "requested pm' \<subseteq> requested pm \<union> (case r of None \<Rightarrow> {} | Some b \<Rightarrow> {(i, blk_begin b)})"
proof (cases "has_piece pm i")
  case True
  then show ?thesis using assms(2) by (auto simp: get_next_block_def)
next
  case False
  have inv: "pm_inv pm" using assms(1) by (simp add: pm_good_def)
  let ?st = "entered pm i"
  have same: "requested (set_piece pm i st) = {x \<in> requested pm. fst x \<noteq> i} \<union> requested_in i st" for st
    by (rule requested_update) simp
  show ?thesis
  proof (cases "next_pending (ps_blocks ?st)")
    case None
    then show ?thesis using assms(2) False same requested_entered[of i pm]
      by (auto simp: get_next_block_entered[OF inv])
  next
    case (Some x)
    then obtain b bs where x: "next_pending (ps_blocks ?st) = Some (b, bs)" by (cases x) auto
    then obtain k where k: "k < length (ps_blocks ?st)" "blk_begin b = blk_begin (ps_blocks ?st ! k)"
      "bs = set_block_state (ps_blocks ?st) k Requested" by (auto simp: next_pending_Some)
    have r: "r = Some b" "pm' = set_piece pm i (?st\<lparr>ps_blocks := bs\<rparr>)"
      using assms(2) False x by (auto simp: get_next_block_entered[OF inv])
    show ?thesis
      using requested_in_restate[OF k(1,3), of i] requested_entered[of i pm] k(2)
      by (auto simp: r same)
  qed
qed

lemma requested_completed: "requested (piece_completed pm i) = {x \<in> requested pm. fst x \<noteq> i}"
  by (rule requested_erase) (simp add: piece_completed_def erase_piece_def)

lemma requested_failed: "requested (piece_failed pm i) = {x \<in> requested pm. fst x \<noteq> i}"
  by (rule requested_erase) (simp add: piece_failed_def erase_piece_def)

lemma release_requests_good: "pm_good md pm \<Longrightarrow> pm_good md (release_requests rs pm)"
  unfolding release_requests_def by (induction rs arbitrary: pm) (simp_all add: pm_good_ops)

lemma requested_release:
  "pm_good md pm \<Longrightarrow> requested (release_requests rs pm) \<subseteq> requested pm - {(rq_piece r, rq_begin r) |r. r \<in> set rs}"
proof (induction rs arbitrary: pm)
  case (Cons r rs)
  let ?pm = "block_request_failed pm (rq_piece r) (rq_begin r)"
  have "requested (release_requests rs ?pm) \<subseteq> requested ?pm - {(rq_piece r, rq_begin r) |r. r \<in> set rs}"
    using Cons.prems by (intro Cons.IH) (rule pm_good_ops)
  moreover have "release_requests (r # rs) pm = release_requests rs ?pm" by (simp add: release_requests_def)
  ultimately show ?case using requested_request_failed[OF Cons.prems, of "rq_piece r" "rq_begin r"] by auto
qed (simp add: release_requests_def)

section \<open>Peers\<close>

text \<open>The requests that are outstanding with some peer, and how many peers have a piece.\<close>

definition owed :: "(ptr \<rightharpoonup> PeerState) \<Rightarrow> (nat \<times> nat) set" where
  "owed peers = {(rq_piece r, rq_begin r) |p st r. peers p = Some st \<and> r \<in> set (outstanding st)}"

definition keys :: "RequestedBlock list \<Rightarrow> (nat \<times> nat) set" where
  "keys rs = {(rq_piece r, rq_begin r) |r. r \<in> set rs}"

lemma owed_update: "owed (peers(p \<mapsto> st)) = owed (peers(p := None)) \<union> keys (outstanding st)"
  by (auto simp: owed_def keys_def split: if_splits)

lemma owed_split: "peers p = Some st \<Longrightarrow> owed peers = owed (peers(p := None)) \<union> keys (outstanding st)"
  using owed_update[of peers p st] by (simp add: fun_upd_idem)

lemma keys_simps [simp]:
  "keys [] = {}" "keys (r # rs) = insert (rq_piece r, rq_begin r) (keys rs)" "keys (rs @ rs') = keys rs \<union> keys rs'"
  by (auto simp: keys_def)

lemma keys_drop_request: "keys rs \<subseteq> insert (i, bgn) (keys (drop_request i bgn rs))"
  by (induction rs) auto

lemma length_drop_request: "length (drop_request i bgn rs) \<le> length rs"
  by (induction rs) auto

lemma keys_delete_at: "k < length rs \<Longrightarrow> keys rs = insert (rq_piece (rs ! k), rq_begin (rs ! k)) (keys (delete_at k rs))"
  by (subst id_take_nth_drop[of k rs]) (auto simp: delete_at_def)

lemma length_delete_at: "k < length xs \<Longrightarrow> length (delete_at k xs) = length xs - 1"
  by (simp add: delete_at_def)

definition peer_fields :: "(ptr \<rightharpoonup> PeerState) \<Rightarrow> ptr list \<Rightarrow> Bitfield list" where
  "peer_fields peers ps = map (\<lambda>p. ds_bitfield (the (peers p))) ps"

text \<open>The histogram of the picker counts the peers of the table.\<close>

definition tallied :: "nat \<Rightarrow> 'g PiecePicker \<Rightarrow> (ptr \<rightharpoonup> PeerState) \<Rightarrow> bool" where
  "tallied n pp peers \<longleftrightarrow> (\<exists>ps. distinct ps \<and> set ps = dom peers \<and> counts n pp (peer_fields peers ps))"

lemma counts_cong:
  assumes "counts n pp bs" "\<And>i. holders bs' i = holders bs i" "length bs' < 2 ^ 32"
    "pp_num_pieces pp' = pp_num_pieces pp" "availability_histogram pp' = availability_histogram pp"
  shows "counts n pp' bs'"
  using assms by (simp add: counts_def)

lemma peer_fields_other: "p \<notin> set ps \<Longrightarrow> peer_fields (peers(p := x)) ps = peer_fields peers ps"
  by (auto simp: peer_fields_def)

lemma tallied_remove:
  assumes "tallied n pp peers" "peers p = Some st"
  shows "tallied n (remove_peer_bitfield pp (ds_bitfield st)) (peers(p := None))"
    and "finite (dom peers)" "card (dom peers) < 2 ^ 32"
proof -
  from assms(1) obtain ps where ps: "distinct ps" "set ps = dom peers" "counts n pp (peer_fields peers ps)"
    unfolding tallied_def by blast
  show "finite (dom peers)" by (metis List.finite_set ps(2))
  show "card (dom peers) < 2 ^ 32" using ps distinct_card[OF ps(1)] by (auto simp: counts_def peer_fields_def)
  have p: "p \<in> set ps" using assms(2) ps(2) by auto
  let ?b = "ds_bitfield st" and ?ps = "remove1 p ps"
  have b: "?b \<in> set (peer_fields peers ps)" using p assms(2) by (force simp: peer_fields_def)
  have "counts n (remove_peer_bitfield pp ?b) (remove1 ?b (peer_fields peers ps))" by (rule counts_leave[OF ps(3) b])
  moreover have "mset (remove1 ?b (peer_fields peers ps)) = mset (peer_fields peers ?ps)"
    using p assms(2) by (simp add: peer_fields_def image_mset_Diff)
  then have "holders (peer_fields peers ?ps) i = holders (remove1 ?b (peer_fields peers ps)) i"
    and "length (peer_fields peers ?ps) = length (remove1 ?b (peer_fields peers ps))" for i
    by (metis holders_def mset_filter size_mset, metis size_mset)
  moreover have "peer_fields (peers(p := None)) ?ps = peer_fields peers ?ps"
    using ps(1) by (intro peer_fields_other) simp
  ultimately have "counts n (remove_peer_bitfield pp ?b) (peer_fields (peers(p := None)) ?ps)"
    by (auto simp: counts_def)
  moreover have "set ?ps = dom (peers(p := None))" "distinct ?ps" using ps by (auto simp: distinct_remove1)
  ultimately show "tallied n (remove_peer_bitfield pp ?b) (peers(p := None))" unfolding tallied_def by blast
qed

lemma tallied_add:
  assumes "tallied n pp peers" "peers p = None" "card (dom peers) + 1 < 2 ^ 32"
  shows "tallied n (add_peer_bitfield pp (ds_bitfield st)) (peers(p \<mapsto> st))"
proof -
  from assms(1) obtain ps where ps: "distinct ps" "set ps = dom peers" "counts n pp (peer_fields peers ps)"
    unfolding tallied_def by blast
  have p: "p \<notin> set ps" using assms(2) ps(2) by auto
  have "length (peer_fields peers ps) = card (dom peers)" using distinct_card[OF ps(1)] ps(2) by (simp add: peer_fields_def)
  then have "counts n (add_peer_bitfield pp (ds_bitfield st)) (ds_bitfield st # peer_fields peers ps)"
    using counts_join[OF ps(3)] assms(3) by simp
  moreover have "peer_fields (peers(p \<mapsto> st)) (p # ps) = ds_bitfield st # peer_fields peers ps"
    using peer_fields_other[OF p] by (simp add: peer_fields_def)
  ultimately have "counts n (add_peer_bitfield pp (ds_bitfield st)) (peer_fields (peers(p \<mapsto> st)) (p # ps))" by simp
  then show ?thesis using ps p unfolding tallied_def by (intro exI[of _ "p # ps"]) auto
qed

lemma tallied_empty_field:
  assumes "tallied n pp peers" "peers p = None" "card (dom peers) + 1 < 2 ^ 32" "\<And>i. \<not> bf_has (ds_bitfield st) i"
  shows "tallied n pp (peers(p \<mapsto> st))"
proof -
  from assms(1) obtain ps where ps: "distinct ps" "set ps = dom peers" "counts n pp (peer_fields peers ps)"
    unfolding tallied_def by blast
  have p: "p \<notin> set ps" using assms(2) ps(2) by auto
  have "length (peer_fields peers ps) = card (dom peers)" using distinct_card[OF ps(1)] ps(2) by (simp add: peer_fields_def)
  moreover have "peer_fields (peers(p \<mapsto> st)) (p # ps) = ds_bitfield st # peer_fields peers ps"
    using peer_fields_other[OF p] by (simp add: peer_fields_def)
  ultimately have "counts n pp (peer_fields (peers(p \<mapsto> st)) (p # ps))"
    using counts_cong[OF ps(3), of "ds_bitfield st # peer_fields peers ps" pp] assms(3,4) by simp
  then show ?thesis using ps p unfolding tallied_def by (intro exI[of _ "p # ps"]) auto
qed

lemma tallied_same_field:
  assumes "tallied n pp peers" "peers p = Some st" "ds_bitfield st' = ds_bitfield st"
    "pp_num_pieces pp' = pp_num_pieces pp" "availability_histogram pp' = availability_histogram pp"
  shows "tallied n pp' (peers(p \<mapsto> st'))"
proof -
  from assms(1) obtain ps where ps: "distinct ps" "set ps = dom peers" "counts n pp (peer_fields peers ps)"
    unfolding tallied_def by blast
  have "peer_fields (peers(p \<mapsto> st')) ps = peer_fields peers ps" using assms(2,3) by (simp add: peer_fields_def)
  then have "counts n pp' (peer_fields (peers(p \<mapsto> st')) ps)" using ps(3) assms(4,5) by (simp add: counts_def)
  then show ?thesis using ps assms(2) unfolding tallied_def by (intro exI[of _ ps]) auto
qed

lemma tallied_have:
  assumes "tallied n pp peers" "peers p = Some st" "bf_inv (ds_bitfield st)" "i < num_bits (ds_bitfield st)"
    "\<not> bf_has (ds_bitfield st) i"
  shows "tallied n (add_availability pp i) (peers(p \<mapsto> st\<lparr>ds_bitfield := bf_set (ds_bitfield st) i True\<rparr>))"
proof -
  from assms(1) obtain ps where ps: "distinct ps" "set ps = dom peers" "counts n pp (peer_fields peers ps)"
    unfolding tallied_def by blast
  obtain k where k: "k < length ps" "ps ! k = p" using assms(2) ps(2) by (metis domI in_set_conv_nth)
  let ?st = "st\<lparr>ds_bitfield := bf_set (ds_bitfield st) i True\<rparr>"
  have nth: "peer_fields peers ps ! k = ds_bitfield st" using k assms(2) by (simp add: peer_fields_def)
  have "counts n (add_availability pp i) ((peer_fields peers ps)[k := bf_set (ds_bitfield st) i True])"
    using counts_have[OF ps(3), of k i] k(1) nth assms(3-5) by (simp add: peer_fields_def)
  moreover have "(peer_fields peers ps)[k := bf_set (ds_bitfield st) i True] = peer_fields (peers(p \<mapsto> ?st)) ps"
    using k ps(1) by (auto simp: peer_fields_def list_eq_iff_nth_eq nth_list_update nth_eq_iff_index_eq)
  ultimately show ?thesis using ps assms(2) unfolding tallied_def by (intro exI[of _ ps]) auto
qed

lemma tallied_card:
  assumes "tallied n pp peers" "i < n"
  shows "unat (availability_histogram pp ! i) = card {p. \<exists>st. peers p = Some st \<and> bf_has (ds_bitfield st) i}"
proof -
  from assms(1) obtain ps where ps: "distinct ps" "set ps = dom peers" "counts n pp (peer_fields peers ps)"
    unfolding tallied_def by blast
  have "holders (peer_fields peers ps) i = length (filter (\<lambda>p. bf_has (ds_bitfield (the (peers p))) i) ps)"
    by (simp add: holders_def peer_fields_def filter_map comp_def)
  also have "\<dots> = card (set (filter (\<lambda>p. bf_has (ds_bitfield (the (peers p))) i) ps))"
    by (metis distinct_card distinct_filter ps(1))
  also have "set (filter (\<lambda>p. bf_has (ds_bitfield (the (peers p))) i) ps) = {p. \<exists>st. peers p = Some st \<and> bf_has (ds_bitfield st) i}"
    using ps(2) by auto
  finally show ?thesis using ps(3) assms(2) by (simp add: counts_def)
qed

section \<open>The invariant\<close>

definition peer_ok :: "nat \<Rightarrow> PeerState \<Rightarrow> bool" where
  "peer_ok n st \<longleftrightarrow> length (outstanding st) \<le> 5 \<and> bf_inv (ds_bitfield st) \<and> num_bits (ds_bitfield st) = n"

definition dc_inv :: "TorrentMetadata \<Rightarrow> nat \<Rightarrow> ('g, 'w) Coordinator \<Rightarrow> bool" where
  "dc_inv md n s \<longleftrightarrow> n = cast_size (num_pieces md) \<and> n \<le> 2 ^ 32 \<and> dc_num_pieces s = n \<and> pm_good md (dc_pm s) \<and>
     tallied n (dc_picker s) (dc_peers s) \<and> requested (dc_pm s) \<subseteq> owed (dc_peers s) \<and>
     (\<forall>p st. dc_peers s p = Some st \<longrightarrow> p \<noteq> 0 \<and> peer_ok n st)"

definition same_core :: "('g, 'w) Coordinator \<Rightarrow> ('g, 'w) Coordinator \<Rightarrow> bool" where
  "same_core s s' \<longleftrightarrow> dc_pm s' = dc_pm s \<and> dc_picker s' = dc_picker s \<and> dc_num_pieces s' = dc_num_pieces s \<and>
     dc_peers s' = dc_peers s"

lemma inv_core: "same_core s s' \<Longrightarrow> dc_inv md n s \<Longrightarrow> dc_inv md n s'"
  unfolding dc_inv_def same_core_def by auto

lemma dc_put_sel [simp]:
  "dc_pm (dc_put s p st) = dc_pm s" "dc_picker (dc_put s p st) = dc_picker s"
  "dc_num_pieces (dc_put s p st) = dc_num_pieces s" "dc_peers (dc_put s p st) = (dc_peers s)(p \<mapsto> st)"
  "dc_world (dc_put s p st) = dc_world s"
  by (simp_all add: dc_put_def)

text \<open>A change of the entry of one peer, of the piece manager and of the picker.\<close>

lemma inv_update:
  assumes "dc_inv md n s" "p \<noteq> 0" "dc_num_pieces s' = n" "dc_peers s' = (dc_peers s)(p \<mapsto> st')" "peer_ok n st'"
    "pm_good md (dc_pm s')" "tallied n (dc_picker s') ((dc_peers s)(p \<mapsto> st'))"
    "requested (dc_pm s') \<subseteq> owed ((dc_peers s)(p := None)) \<union> keys (outstanding st')"
  shows "dc_inv md n s'"
  using assms by (auto simp: dc_inv_def owed_update)

lemma inv_entry:
  assumes "dc_inv md n s" "dc_peers s p = Some st"
  shows "p \<noteq> 0" "peer_ok n st" "requested (dc_pm s) \<subseteq> owed ((dc_peers s)(p := None)) \<union> keys (outstanding st)"
  using assms owed_split[of "dc_peers s" p st] by (auto simp: dc_inv_def)

lemma inv_sel:
  assumes "dc_inv md n s"
  shows "dc_num_pieces s = n" "pm_good md (dc_pm s)" "tallied n (dc_picker s) (dc_peers s)" "n = cast_size (num_pieces md)"
    "n \<le> 2 ^ 32" "requested (dc_pm s) \<subseteq> owed (dc_peers s)"
  using assms by (auto simp: dc_inv_def)

text \<open>An update that keeps the bitfield of the peer, the piece manager and the histogram.\<close>

lemma inv_put:
  assumes "dc_inv md n s" "dc_peers s p = Some st" "ds_bitfield st' = ds_bitfield st" "length (outstanding st') \<le> 5"
    "requested (dc_pm s) \<subseteq> owed ((dc_peers s)(p := None)) \<union> keys (outstanding st')"
  shows "dc_inv md n (dc_put s p st')"
  using inv_entry(1,2)[OF assms(1,2)] inv_sel[OF assms(1)] assms(3-5) tallied_same_field[of n "dc_picker s" "dc_peers s" p st st' "dc_picker s"] assms(2)
  by (intro inv_update[OF assms(1), of p _ st']) (auto simp: peer_ok_def)

lemma inv_put_active: "dc_inv md n s \<Longrightarrow> dc_peers s p = Some st \<Longrightarrow> dc_inv md n (dc_put s p (st\<lparr>active_piece := a\<rparr>))"
  using inv_entry[of md n s p st] by (intro inv_put) (auto simp: peer_ok_def)

lemma unregister_sel:
  "dc_num_pieces (unregister_peer p s) = dc_num_pieces s"
  "p \<noteq> 0 \<Longrightarrow> dc_peers (unregister_peer p s) = (dc_peers s)(p := None)"
  by (auto simp: unregister_peer_def split: option.split)

lemma inv_unregister:
  assumes "dc_inv md n s"
  shows "dc_inv md n (unregister_peer p s)"
    and "requested (dc_pm (unregister_peer p s)) \<subseteq> requested (dc_pm s)"
proof -
  have "dc_inv md n (unregister_peer p s) \<and> requested (dc_pm (unregister_peer p s)) \<subseteq> requested (dc_pm s)"
  proof (cases "dc_peers s p")
    case None
    then have "unregister_peer p s = s" by (simp add: unregister_peer_def)
    with assms show ?thesis by simp
  next
    case (Some st)
    note sel = inv_sel[OF assms] and e = inv_entry[OF assms Some]
    have r: "requested (release_requests (outstanding st) (dc_pm s)) \<subseteq> requested (dc_pm s) - keys (outstanding st)"
      using requested_release[OF sel(2)] by (simp add: keys_def)
    show ?thesis
      using e r sel tallied_remove(1)[OF sel(3) Some] release_requests_good[OF sel(2)] assms Some
      by (auto simp: dc_inv_def unregister_peer_def split: if_splits)
  qed
  then show "dc_inv md n (unregister_peer p s)" "requested (dc_pm (unregister_peer p s)) \<subseteq> requested (dc_pm s)" by auto
qed

lemma inv_register:
  assumes "dc_inv md n s" "dc_peers s p = None" "card (dom (dc_peers s)) + 1 < 2 ^ 32"
  shows "dc_inv md n (register_peer env p s)"
proof (cases "p = 0")
  case False
  let ?st = "\<lparr>ds_bitfield = bitfield_empty n, outstanding = [], active_piece = None\<rparr>"
  have "tallied n (dc_picker s) ((dc_peers s)(p \<mapsto> ?st))"
    by (rule tallied_empty_field[OF inv_sel(3)[OF assms(1)] assms(2,3)]) (simp add: bitset.mem_empty)
  moreover have "(dc_peers s)(p := None) = dc_peers s" using assms(2) by (simp add: fun_upd_idem)
  ultimately show ?thesis
    using False inv_sel[OF assms(1)]
    by (intro inv_update[OF assms(1) False, of _ ?st]) (auto simp: register_peer_def Let_def peer_ok_def bf_inv_empty)
qed (use assms(1) in \<open>simp add: register_peer_def\<close>)

lemma inv_choke:
  assumes "dc_inv md n s" "dc_peers s p = Some st"
  shows "dc_inv md n (on_choke p st s)"
proof -
  note sel = inv_sel[OF assms(1)] and e = inv_entry[OF assms]
  let ?st = "st\<lparr>outstanding := [], active_piece := None\<rparr>"
  have "requested (release_requests (outstanding st) (dc_pm s)) \<subseteq> requested (dc_pm s) - keys (outstanding st)"
    using requested_release[OF sel(2)] by (simp add: keys_def)
  moreover have "tallied n (dc_picker s) ((dc_peers s)(p \<mapsto> ?st))"
    by (rule tallied_same_field[OF sel(3) assms(2)]) simp_all
  ultimately show ?thesis
    using e sel release_requests_good[OF sel(2)]
    by (intro inv_update[OF assms(1) e(1), of _ ?st]) (auto simp: on_choke_def peer_ok_def)
qed

lemma block_stored_inv:
  assumes "dc_inv md n s" "dc_peers s p = Some st" "block_received (dc_pm s) i bgn block = (completed, pm)"
  shows "dc_inv md n ((dc_put s p (st\<lparr>outstanding := drop_request i bgn (outstanding st)\<rparr>))\<lparr>dc_pm := pm\<rparr>)"
proof -
  note sel = inv_sel[OF assms(1)] and e = inv_entry[OF assms(1,2)]
  let ?st = "st\<lparr>outstanding := drop_request i bgn (outstanding st)\<rparr>"
  have "requested pm \<subseteq> requested (dc_pm s) - {(i, bgn)}" "pm_good md pm"
    using requested_block_received[OF sel(2), of i bgn block] pm_good_ops(2)[OF sel(2), of i bgn block] assms(3) by simp_all
  then show ?thesis
    using e sel keys_drop_request[of "outstanding st" i bgn] length_drop_request[of i bgn "outstanding st"]
      tallied_same_field[OF sel(3) assms(2), of ?st "dc_picker s"]
    by (intro inv_update[OF assms(1) e(1), of _ ?st]) (auto simp: peer_ok_def)
qed

text \<open>A block that is handed out belongs to a piece of the torrent.\<close>

lemma next_block_piece:
  assumes "pm_good md pm" "get_next_block pm i = (Some b, pm')" "cast_size (num_pieces md) \<le> 2 ^ 32"
  shows "blk_piece b = i" "i < cast_size (num_pieces md)"
proof -
  have inv: "pm_inv pm" using assms(1) by (simp add: pm_good_def)
  obtain bs where np: "next_pending (ps_blocks (entered pm i)) = Some (b, bs)"
    using assms(2) by (auto simp: get_next_block_entered[OF inv] split: if_splits option.splits)
  then obtain k where k: "k < length (ps_blocks (entered pm i))" "b = (ps_blocks (entered pm i) ! k)\<lparr>blk_state := Requested\<rparr>"
    by (auto simp: next_pending_Some)
  note t = pm_good_tiled[OF assms(1), of i]
  then have "length (ps_blocks (entered pm i)) = n_blocks (get_piece_length md i)" by (simp add: tiled_def)
  then have "get_piece_length md i \<noteq> 0" using k(1) by (metis n_blocks_0(1) not_less_zero)
  then show i: "i < cast_size (num_pieces md)" by (auto simp: get_piece_length_def split: if_splits)
  have "blk_piece b = i mod 2 ^ 32" using t k by (auto simp: tiled_def)
  also have "\<dots> = i" using i assms(3) by simp
  finally show "blk_piece b = i" .
qed

text \<open>The invariant, with no block of the piece \<open>i\<close> requested.\<close>

definition free_of :: "TorrentMetadata \<Rightarrow> nat \<Rightarrow> nat \<Rightarrow> ('g, 'w) Coordinator \<Rightarrow> bool" where
  "free_of md n i s \<longleftrightarrow> dc_inv md n s \<and> (\<forall>x\<in>requested (dc_pm s). fst x \<noteq> i)"

lemma free_core: "same_core s s' \<Longrightarrow> free_of md n i s \<Longrightarrow> free_of md n i s'"
  using inv_core[of s s'] by (simp add: free_of_def) (simp add: same_core_def)

lemma free_unregister: "free_of md n i s \<Longrightarrow> free_of md n i (unregister_peer p s)"
  using inv_unregister[of md n s p] by (auto simp: free_of_def)

lemma yields_entry [simp]: "yields Q (dc_entry s p) \<longleftrightarrow> (\<forall>st. dc_peers s p = Some st \<longrightarrow> Q st)"
  by (auto simp: dc_entry_def split: option.split)

lemma settles_entry [simp]: "settles Q (dc_entry s p) \<longleftrightarrow> (\<forall>st. dc_peers s p = Some st \<longrightarrow> Q st)"
  by (auto simp: dc_entry_def split: option.split)

lemma entry_inv: "(\<And>st. dc_peers s p = Some st \<Longrightarrow> yields Q (f st)) \<Longrightarrow> yields Q (bindR (dc_entry s p) f)"
  by simp

lemma unregister_lookup: "dc_peers (unregister_peer p s) p = (if p = 0 then dc_peers s p else None)"
  by (simp add: unregister_peer_def split: option.split)

section \<open>The interface to connections\<close>

text \<open>Sending to a peer leaves the coordinator alone or unregisters the peer, and so does the callback
  for corrupt data, for some peer.\<close>

locale peer_link =
  fixes env :: "('g, 'w) DcEnv"
  assumes send_law: "yields (\<lambda>s'. same_core s s' \<or> same_core (unregister_peer p s) s') (dc_send env p m s)"
    and corrupted_law: "on_peer_corrupted_cb env = Some cb \<Longrightarrow>
      yields (\<lambda>s'. same_core s s' \<or> (\<exists>q. same_core (unregister_peer q s) s')) (cb p s)"
begin

lemma send_inv: "dc_inv md n s \<Longrightarrow> yields (dc_inv md n) (dc_send env p m s)"
  by (rule yields_mono[OF send_law]) (auto intro: inv_core inv_unregister(1))

lemma send_free: "free_of md n i s \<Longrightarrow> yields (free_of md n i) (dc_send env p m s)"
  by (rule yields_mono[OF send_law]) (auto intro: free_core free_unregister)

lemma corrupted_inv:
  "dc_inv md n s \<Longrightarrow> on_peer_corrupted_cb env = Some cb \<Longrightarrow> yields (dc_inv md n) (cb p s)"
  by (rule yields_mono[OF corrupted_law]) (auto intro: inv_core inv_unregister(1))

lemma choose_piece_inv:
  assumes "dc_inv md n s" "choose_piece env st s = (i, s')"
  shows "dc_inv md n s'" "dc_peers s' = dc_peers s" "dc_pm s' = dc_pm s"
  using assms pick_piece_frame[of "dc_draw env" "dc_picker s" "ds_bitfield st" "completed_or_full s"]
  by (auto simp: choose_piece_def dc_inv_def tallied_def counts_def split: option.splits prod.splits)

lemma round_inv:
  assumes "dc_inv md n s"
  shows "yields (\<lambda>(continue, s'). dc_inv md n s') (pipeline_round env p s)"
  unfolding pipeline_round_def
proof (rule entry_inv)
  fix st
  assume st: "dc_peers s p = Some st"
  obtain piece s1 where ch: "choose_piece env st s = (piece, s1)" by fastforce
  note s1 = choose_piece_inv[OF assms ch]
  obtain b pm where nb: "get_next_block (dc_pm s1) (the piece) = (b, pm)" by fastforce
  have st1: "dc_peers s1 p = Some st" using st s1(2) by simp
  note sel = inv_sel[OF s1(1)] and e = inv_entry[OF s1(1) st1]
  have pm: "pm_good md pm" using pm_good_ops(1)[OF sel(2), of "the piece"] nb by simp
  have req: "requested pm \<subseteq> requested (dc_pm s1) \<union> (case b of None \<Rightarrow> {} | Some b \<Rightarrow> {(the piece, blk_begin b)})"
    by (rule requested_next_block[OF sel(2) nb])
  have put: "dc_inv md n (dc_put (s1\<lparr>dc_pm := pm\<rparr>) p st')"
    if "ds_bitfield st' = ds_bitfield st" "length (outstanding st') \<le> 5" "requested pm \<subseteq> owed ((dc_peers s1)(p := None)) \<union> keys (outstanding st')" for st'
    using that e sel pm tallied_same_field[OF sel(3) st1, of st' "dc_picker s1"]
    by (intro inv_update[OF s1(1) e(1), of _ st']) (auto simp: peer_ok_def)
  show "yields (\<lambda>(continue, s'). dc_inv md n s') (if length (outstanding st) < 5 then
      let (piece, s) = choose_piece env st s in
      case piece of None \<Rightarrow> returns (False, s)
      | Some i \<Rightarrow> let (block_opt, pm) = get_next_block (dc_pm s) i; s = s\<lparr>dc_pm := pm\<rparr> in
          (case block_opt of None \<Rightarrow> returns (True, dc_put s p (st\<lparr>active_piece := None\<rparr>))
           | Some b \<Rightarrow> let req = \<lparr>rq_piece = blk_piece b, rq_begin = blk_begin b, rq_length = blk_length b\<rparr>;
               s = dc_put s p (st\<lparr>active_piece := Some i, outstanding := outstanding st @ [req]\<rparr>) in
               bindR (dc_send env p (RequestMsg (of_nat (blk_piece b)) (of_nat (blk_begin b)) (of_nat (blk_length b))) s)
                 (\<lambda>s. returns (True, s)))
      else returns (False, s))"
  proof (cases "length (outstanding st) < 5 \<and> piece \<noteq> None")
    case True
    then obtain i where i: "piece = Some i" by auto
    show ?thesis
    proof (cases b)
      case None
      then have "dc_inv md n (dc_put (s1\<lparr>dc_pm := pm\<rparr>) p (st\<lparr>active_piece := None\<rparr>))"
        using e req by (intro put) (auto simp: peer_ok_def)
      then show ?thesis using True nb None by (simp add: ch i)
    next
      case (Some b)
      let ?st = "st\<lparr>active_piece := Some i,
        outstanding := outstanding st @ [\<lparr>rq_piece = blk_piece b, rq_begin = blk_begin b, rq_length = blk_length b\<rparr>]\<rparr>"
      have "blk_piece b = i"
        using next_block_piece(1)[OF sel(2), of i b pm] nb Some i sel(4,5) by simp
      then have "dc_inv md n (dc_put (s1\<lparr>dc_pm := pm\<rparr>) p ?st)"
        using e(3) req Some True i by (intro put) auto
      from send_inv[OF this] show ?thesis using True nb Some by (simp add: ch i)
    qed
  qed (use assms s1(1) ch in \<open>auto split: option.split\<close>)
qed

lemma fill_inv: "dc_inv md n s \<Longrightarrow> yields (dc_inv md n) (fill_request_pipeline env p s)"
  by (auto simp: fill_request_pipeline_def intro: repeat_while_yields round_inv)

lemma cancel_round_free:
  assumes "free_of md n i (snd ks)"
  shows "yields (\<lambda>(continue, ks'). free_of md n i (snd ks')) (cancel_round env p i ks)"
proof -
  obtain k s where ks: "ks = (k, s)" by fastforce
  have put: "free_of md n i (dc_put s p (st\<lparr>outstanding := delete_at k (outstanding st)\<rparr>))"
    if "free_of md n i s" "dc_peers s p = Some st" "k < length (outstanding st)" "rq_piece (outstanding st ! k) = i" for s :: "('g, 'w) Coordinator" and st
  proof -
    have inv: "dc_inv md n s" and free: "\<forall>x\<in>requested (dc_pm s). fst x \<noteq> i" using that(1) by (auto simp: free_of_def)
    note e = inv_entry[OF inv that(2)]
    have "requested (dc_pm s) \<subseteq> owed ((dc_peers s)(p := None)) \<union> keys (delete_at k (outstanding st))"
      using e(3) keys_delete_at[OF that(3)] that(4) free by fastforce
    with inv_put[OF inv that(2), of "st\<lparr>outstanding := delete_at k (outstanding st)\<rparr>"] e(2) that(3) free show ?thesis
      by (auto simp: free_of_def peer_ok_def length_delete_at)
  qed
  have law: "yields (\<lambda>s'. free_of md n i s' \<and> (dc_peers s' p = dc_peers s p \<or> dc_peers s' p = None)) (dc_send env p m s)" for m
    using send_free[of md n i s p m] assms ks
    by (intro yields_conj) (auto intro!: yields_mono[OF send_law] simp: same_core_def unregister_lookup split: if_splits)
  show ?thesis
    unfolding cancel_round_def ks Let_def prod.case
  proof (rule entry_inv)
    fix st
    assume st: "dc_peers s p = Some st"
    let ?r = "outstanding st ! k"
    have "yields (\<lambda>s'. yields (\<lambda>(continue, ks'). free_of md n i (snd ks')) (bindR (dc_entry s' p) (\<lambda>st.
        returns (True, k, dc_put s' p (st\<lparr>outstanding := delete_at k (outstanding st)\<rparr>))))) (dc_send env p m s)"
      if "k < length (outstanding st)" "rq_piece ?r = i" for m
      by (rule yields_mono[OF law]) (use that st put in \<open>auto intro!: entry_inv\<close>)
    then show "yields (\<lambda>(continue, ks'). free_of md n i (snd ks')) (if k < length (outstanding st) then
        if rq_piece ?r = i then
          bindR (dc_send env p (CancelMsg (of_nat (rq_piece ?r)) (of_nat (rq_begin ?r)) (of_nat (rq_length ?r))) s) (\<lambda>s.
          bindR (dc_entry s p) (\<lambda>st. returns (True, k, dc_put s p (st\<lparr>outstanding := delete_at k (outstanding st)\<rparr>))))
        else returns (True, k + 1, s) else returns (False, k, s))"
      using assms ks by simp
  qed
qed

lemma cancel_peers_free: "free_of md n i s \<Longrightarrow> yields (free_of md n i) (cancel_peers env i ps s)"
proof (induction ps arbitrary: s)
  case (Cons p ps)
  have "yields (\<lambda>ks. free_of md n i (snd ks)) (repeat_while (cancel_round env p i) (0, s))"
    by (rule repeat_while_yields) (use Cons.prems cancel_round_free in auto)
  moreover have "yields (free_of md n i) (bindR (dc_entry s p) (\<lambda>st. cancel_peers env i ps
      (if active_piece st = Some i then dc_put s p (st\<lparr>active_piece := None\<rparr>) else s)))" if "free_of md n i s" for s
    using that by (intro entry_inv Cons.IH) (auto simp: free_of_def inv_put_active)
  ultimately show ?case by (auto elim!: yields_mono)
qed simp

lemma broadcast_inv: "dc_inv md n s \<Longrightarrow> yields (dc_inv md n) (broadcast env m ps s)"
proof (induction ps arbitrary: s)
  case (Cons p ps)
  have "yields (dc_inv md n) (bindR (dc_entry s p) (\<lambda>_. broadcast env m ps s))" if "dc_inv md n s" for s
    using Cons.IH[OF that] by simp
  then show ?case unfolding broadcast.simps by (rule yields_bindI[OF send_inv[OF Cons.prems]])
qed simp

lemma inv_pm:
  assumes "dc_inv md n s" "pm_good md pm" "requested pm \<subseteq> requested (dc_pm s)"
  shows "dc_inv md n (s\<lparr>dc_pm := pm\<rparr>)"
  using assms by (auto simp: dc_inv_def)

lemma finish_piece_inv:
  assumes "dc_inv md n s"
  shows "yields (dc_inv md n) (finish_piece env p i s)"
proof -
  note good = inv_sel(2)[OF assms]
  define s1 where "s1 = (case on_piece_completed_cb env of None \<Rightarrow> s
    | Some cb \<Rightarrow> s\<lparr>dc_world := cb i (get_piece_data (dc_pm s) i) (dc_world s)\<rparr>)"
  have "same_core s s1" by (simp add: s1_def same_core_def split: option.split)
  then have s1: "dc_inv md n s1" "dc_pm s1 = dc_pm s" using inv_core assms by (auto simp: same_core_def)
  have "free_of md n i (s1\<lparr>dc_pm := piece_completed (dc_pm s1) i\<rparr>)"
    using inv_pm[OF s1(1), of "piece_completed (dc_pm s1) i"] pm_good_ops(3)[OF good, of i]
    by (auto simp: free_of_def s1(2) requested_completed)
  from cancel_peers_free[OF this] have fin: "yields (dc_inv md n)
      (bindR (cancel_piece_requests env i (s1\<lparr>dc_pm := piece_completed (dc_pm s1) i\<rparr>)) (\<lambda>s.
        broadcast env (HaveMsg (of_nat i)) (dc_order env (dc_peers s)) s))"
    unfolding cancel_piece_requests_def by (rule yields_bindI) (auto simp: free_of_def intro: broadcast_inv)
  have "dc_inv md n (s\<lparr>dc_pm := piece_failed (dc_pm s) i\<rparr>)"
    by (rule inv_pm[OF assms pm_good_ops(4)[OF good]]) (auto simp: requested_failed)
  then have "yields (dc_inv md n) (case on_peer_corrupted_cb env of None \<Rightarrow> returns (s\<lparr>dc_pm := piece_failed (dc_pm s) i\<rparr>)
      | Some cb \<Rightarrow> cb p (s\<lparr>dc_pm := piece_failed (dc_pm s) i\<rparr>))"
    using corrupted_inv by (simp split: option.split)
  with fin show ?thesis unfolding finish_piece_def s1_def Let_def by simp
qed

lemma refill_inv:
  "dc_inv md n s \<Longrightarrow> yields (dc_inv md n) (if \<not> is_peer_choking env p (dc_world s) then fill_request_pipeline env p s else returns s)"
  by (simp add: fill_inv)

lemma on_piece_inv:
  assumes "dc_inv md n s" "dc_peers s p = Some st"
  shows "yields (dc_inv md n) (on_piece env p st i bgn block s)"
proof -
  let ?st = "st\<lparr>outstanding := drop_request i bgn (outstanding st)\<rparr>"
  obtain completed pm where br: "block_received (dc_pm s) i bgn block = (completed, pm)" by fastforce
  let ?s = "(dc_put s p ?st)\<lparr>dc_pm := pm\<rparr>"
  note s1 = block_stored_inv[OF assms br]
  have "yields (dc_inv md n) (bindR (finish_piece env p i ?s) (\<lambda>s. bindR (dc_entry s p) (\<lambda>st.
      returns (if active_piece st = Some i then dc_put s p (st\<lparr>active_piece := None\<rparr>) else s))))"
    by (rule yields_bindI[OF finish_piece_inv[OF s1]]) (auto intro: inv_put_active)
  with s1 have "yields (dc_inv md n) (if completed then bindR (finish_piece env p i ?s) (\<lambda>s. bindR (dc_entry s p) (\<lambda>st.
      returns (if active_piece st = Some i then dc_put s p (st\<lparr>active_piece := None\<rparr>) else s))) else returns ?s)" by simp
  then show ?thesis
    unfolding on_piece_def Let_def dc_put_sel br prod.case
    by (rule yields_bindI) (rule refill_inv)
qed

lemma on_bitfield_inv:
  assumes "dc_inv md n s" "dc_peers s p = Some st"
  shows "yields (dc_inv md n) (on_bitfield env p st field s)"
proof -
  note sel = inv_sel[OF assms(1)] and e = inv_entry[OF assms]
  let ?b = "bitfield_of_bytes field n"
  let ?st = "st\<lparr>ds_bitfield := ?b\<rparr>"
  let ?pp = "add_peer_bitfield (remove_peer_bitfield (dc_picker s) (ds_bitfield st)) ?b"
  have field_bits: "num_bits ?b = n" by (simp add: bitfield_of_bytes_def Let_def)
  note t = tallied_remove[OF sel(3) assms(2)]
  have "card (dom ((dc_peers s)(p := None))) + 1 < 2 ^ 32" using t(2,3) assms(2) by (auto simp: card_Diff_singleton domIff)
  from tallied_add[OF t(1) _ this, where p = p and st = ?st] have "tallied n ?pp ((dc_peers s)(p \<mapsto> ?st))" by simp
  then have s1: "dc_inv md n (dc_put (s\<lparr>dc_picker := ?pp\<rparr>) p ?st)"
    using e sel(1,2) field_bits
    by (intro inv_update[OF assms(1) e(1), of _ ?st]) (auto simp: peer_ok_def bf_inv_of_bytes)
  then have "yields (dc_inv md n) (if c then dc_send env p InterestedMsg (dc_put (s\<lparr>dc_picker := ?pp\<rparr>) p ?st)
      else returns (dc_put (s\<lparr>dc_picker := ?pp\<rparr>) p ?st))" for c
    using send_inv by simp
  from yields_bindI[OF this refill_inv] show ?thesis unfolding on_bitfield_def Let_def sel(1) by simp
qed

lemma on_have_inv:
  assumes "dc_inv md n s" "dc_peers s p = Some st"
  shows "yields (dc_inv md n) (on_have env p st i s)"
proof -
  note sel = inv_sel[OF assms(1)] and e = inv_entry[OF assms]
  let ?st = "st\<lparr>ds_bitfield := bf_set (ds_bitfield st) i True\<rparr>"
  let ?s = "dc_put (s\<lparr>dc_picker := add_availability (dc_picker s) i\<rparr>) p ?st"
  have "dc_inv md n ?s" if "i < n" "\<not> bf_has (ds_bitfield st) i"
    using e sel(1,2) tallied_have[OF sel(3) assms(2)] that
    by (intro inv_update[OF assms(1) e(1), of _ ?st]) (auto simp: peer_ok_def bf_inv_set)
  with assms(1) send_inv show ?thesis by (simp add: on_have_def Let_def sel(1))
qed

lemma handle_inv: "dc_inv md n s \<Longrightarrow> yields (dc_inv md n) (handle_peer_message env p msg s)"
  by (auto simp: handle_peer_message_def inv_choke fill_inv on_bitfield_inv on_have_inv on_piece_inv
      split: option.split PeerMessage.split)

end

section \<open>Histories\<close>

text \<open>What happens to a coordinator: peers that are not in the table register, peers unregister, messages arrive,
  and the rest of the program runs.\<close>

inductive dc_step :: "('g, 'w) DcEnv \<Rightarrow> ('g, 'w) Coordinator \<Rightarrow> ('g, 'w) Coordinator \<Rightarrow> bool" for env where
  Register: "dc_peers s p = None \<Longrightarrow> card (dom (dc_peers s)) + 1 < 2 ^ 32 \<Longrightarrow> dc_step env s (register_peer env p s)"
| Unregister: "dc_step env s (unregister_peer p s)"
| Message: "handle_peer_message env p msg s = returns s' \<Longrightarrow> dc_step env s s'"
| Elsewhere: "dc_step env s (s\<lparr>dc_world := w\<rparr>)"

context peer_link
begin

lemma step_inv: "dc_step env s s' \<Longrightarrow> dc_inv md n s \<Longrightarrow> dc_inv md n s'"
proof (induction rule: dc_step.induct)
  case (Message p msg s s')
  then show ?case using handle_inv[of md n s p msg] by simp
next
  case (Elsewhere s w)
  then show ?case by (rule inv_core[rotated]) (simp add: same_core_def)
qed (simp_all add: inv_register inv_unregister)

lemma run_inv: "(dc_step env)\<^sup>*\<^sup>* s s' \<Longrightarrow> dc_inv md n s \<Longrightarrow> dc_inv md n s'"
  by (induction rule: rtranclp_induct) (auto intro: step_inv)

end

lemma dc_inv_start:
  assumes "n = cast_size (num_pieces md)" "n \<le> 2 ^ 32"
  shows "dc_inv md n (download_coordinator (piece_manager md) (piece_picker n seed) n w)"
proof -
  have "tallied n (piece_picker n seed) Map.empty"
    unfolding tallied_def by (rule exI[of _ "[]"]) (simp add: peer_fields_def counts_def piece_picker_def)
  moreover have "requested (piece_manager md) = {}" by (simp add: requested_def)
  moreover have "pm_good md (piece_manager md)" by (simp add: pm_good_def pm_inv_init settled_def)
  ultimately show ?thesis using assms by (simp add: dc_inv_def download_coordinator_def)
qed

section \<open>Termination of the pipeline\<close>

definition open_pieces :: "nat \<Rightarrow> PieceManager \<Rightarrow> nat set" where
  "open_pieces n pm = {i. i < n \<and> has_pending_blocks pm i}"

lemma finite_open_pieces [simp]: "finite (open_pieces n pm)"
  by (simp add: open_pieces_def)

lemma next_block_none:
  assumes "pm_inv pm" "get_next_block pm i = (None, pm')"
  shows "open_pieces n pm' \<subseteq> open_pieces n pm - {i}"
proof (cases "has_piece pm i")
  case True
  then show ?thesis using assms(2) by (auto simp: get_next_block_def open_pieces_def has_pending_blocks_def)
next
  case False
  then have "next_pending (ps_blocks (entered pm i)) = None" "pm' = set_piece pm i (entered pm i)"
    using assms(2) by (auto simp: get_next_block_entered[OF assms(1)] split: option.splits)
  then show ?thesis
    by (auto simp: open_pieces_def has_pending_blocks_def has_piece_def next_pending_None list_ex_iff split: if_splits option.splits)
qed

lemma completed_or_full_has:
  assumes "dc_inv md n s"
  shows "bf_has (completed_or_full s) i \<longleftrightarrow> i < n \<and> \<not> has_pending_blocks (dc_pm s) i"
proof -
  let ?f = "\<lambda>i b. if \<not> has_pending_blocks (dc_pm s) i then bf_set b i True else b"
  have inv: "bf_inv (pm_bitfield (dc_pm s))" "num_bits (pm_bitfield (dc_pm s)) = n"
    using inv_sel[OF assms] by (auto simp: pm_good_def pm_inv_def)
  have "bf_inv (fold ?f [0..<m] (pm_bitfield (dc_pm s))) \<and> num_bits (fold ?f [0..<m] (pm_bitfield (dc_pm s))) = n \<and>
      (bf_has (fold ?f [0..<m] (pm_bitfield (dc_pm s))) i \<longleftrightarrow>
        has_piece (dc_pm s) i \<or> i < n \<and> i < m \<and> \<not> has_pending_blocks (dc_pm s) i)" for m
    by (induction m) (use inv in \<open>auto simp: has_piece_def bf_inv_set bitset.mem_add less_Suc_eq\<close>)
  moreover have "has_piece (dc_pm s) i \<Longrightarrow> i < n \<and> \<not> has_pending_blocks (dc_pm s) i"
    using bitset.mem_bound[OF inv(1), of i] inv(2) by (simp add: has_piece_def has_pending_blocks_def)
  ultimately show ?thesis by (auto simp: completed_or_full_def inv_sel(1)[OF assms])
qed

lemma pick_piece_candidates:
  assumes "draw_in_range draw" "pick_piece draw pp p q = (r, pp')"
  shows "case r of None \<Rightarrow> candidates (pp_num_pieces pp) p q = [] | Some i \<Rightarrow> i \<in> set (candidates (pp_num_pieces pp) p q)"
proof -
  let ?cs = "candidates (pp_num_pieces pp) p q" and ?h = "availability_histogram pp"
  have "set (rarest_loop ?h ?cs 0xFFFFFFFF []) \<subseteq> set ?cs" by (auto simp: rarest_loop_spec)
  then show ?thesis
    using assms(2) random_choice_in[OF assms(1), of ?cs pp] rarest_loop_neq_Nil[of ?cs ?h]
      random_choice_in[OF assms(1), of "rarest_loop ?h ?cs 0xFFFFFFFF []" pp]
    by (cases "?cs = []") (auto simp: pick_piece_def Let_def split: if_splits option.split)
qed

definition dc_measure :: "nat \<Rightarrow> ptr \<Rightarrow> ('g, 'w) Coordinator \<Rightarrow> nat \<times> nat \<times> nat" where
  "dc_measure n p s =
     (case dc_peers s p of
        None \<Rightarrow> (0, 0, 0)
      | Some st \<Rightarrow> (6 - length (outstanding st), card (open_pieces n (dc_pm s)), if active_piece st = None then 0 else 1))"

definition dc_less :: "nat \<Rightarrow> ptr \<Rightarrow> (('g, 'w) Coordinator \<times> ('g, 'w) Coordinator) set" where
  "dc_less n p = inv_image (less_than <*lex*> less_than <*lex*> less_than) (dc_measure n p)"

lemma wf_dc_less: "wf (dc_less n p)"
  unfolding dc_less_def by (intro wf_inv_image wf_lex_prod wf_less_than)

text \<open>What the pipeline ends with: five outstanding requests, or nothing more to request from this peer.\<close>

definition saturated :: "nat \<Rightarrow> ptr \<Rightarrow> ('g, 'w) Coordinator \<Rightarrow> bool" where
  "saturated n p s \<longleftrightarrow> (\<exists>st. dc_peers s p = Some st \<and>
     (length (outstanding st) = 5 \<or> (\<forall>i<n. bf_has (ds_bitfield st) i \<longrightarrow> \<not> has_pending_blocks (dc_pm s) i)))"

lemma choose_piece_cases:
  assumes "dc_inv md n s" "draw_in_range (dc_draw env)" "choose_piece env st s = (piece, s1)"
  shows "piece = None \<Longrightarrow> \<forall>i<n. bf_has (ds_bitfield st) i \<longrightarrow> \<not> has_pending_blocks (dc_pm s) i"
    and "piece = Some i \<Longrightarrow> active_piece st = Some i \<or> active_piece st = None \<and> i \<in> open_pieces n (dc_pm s)"
proof -
  have n: "pp_num_pieces (dc_picker s) = n" using inv_sel(3)[OF assms(1)] by (auto simp: tallied_def counts_def)
  note pick = pick_piece_candidates[OF assms(2), of "dc_picker s" "ds_bitfield st" "completed_or_full s"]
  show "piece = None \<Longrightarrow> \<forall>i<n. bf_has (ds_bitfield st) i \<longrightarrow> \<not> has_pending_blocks (dc_pm s) i"
    using assms(3) pick[of None] set_candidates[of n "ds_bitfield st" "completed_or_full s"]
    by (auto simp: choose_piece_def n completed_or_full_has[OF assms(1)] split: option.splits prod.splits)
  show "piece = Some i \<Longrightarrow> active_piece st = Some i \<or> active_piece st = None \<and> i \<in> open_pieces n (dc_pm s)"
    using assms(3) pick[of "Some i"] set_candidates[of n "ds_bitfield st" "completed_or_full s"]
    by (auto simp: choose_piece_def n completed_or_full_has[OF assms(1)] open_pieces_def split: option.splits prod.splits)
qed

context peer_link
begin

lemma round_progress:
  assumes inv: "dc_inv md n s" and draw: "draw_in_range (dc_draw env)"
  shows "yields (\<lambda>(continue, s'). if continue then (s', s) \<in> dc_less n p else saturated n p s') (pipeline_round env p s)"
  unfolding pipeline_round_def
proof (rule entry_inv)
  fix st
  assume st: "dc_peers s p = Some st"
  obtain piece s1 where ch: "choose_piece env st s = (piece, s1)" by fastforce
  note s1 = choose_piece_inv[OF inv ch] and cases = choose_piece_cases[OF inv draw ch]
  obtain b pm where nb: "get_next_block (dc_pm s) (the piece) = (b, pm)" by fastforce
  have pm: "pm_inv (dc_pm s)" using inv_sel(2)[OF inv] by (simp add: pm_good_def)
  have five: "length (outstanding st) \<le> 5" using inv_entry(2)[OF inv st] by (simp add: peer_ok_def)
  let ?loop = "if length (outstanding st) < 5 then
      let (piece, s) = choose_piece env st s in
      case piece of None \<Rightarrow> returns (False, s)
      | Some i \<Rightarrow> let (block_opt, pm) = get_next_block (dc_pm s) i; s = s\<lparr>dc_pm := pm\<rparr> in
          (case block_opt of None \<Rightarrow> returns (True, dc_put s p (st\<lparr>active_piece := None\<rparr>))
           | Some b \<Rightarrow> let req = \<lparr>rq_piece = blk_piece b, rq_begin = blk_begin b, rq_length = blk_length b\<rparr>;
               s = dc_put s p (st\<lparr>active_piece := Some i, outstanding := outstanding st @ [req]\<rparr>) in
               bindR (dc_send env p (RequestMsg (of_nat (blk_piece b)) (of_nat (blk_begin b)) (of_nat (blk_length b))) s)
                 (\<lambda>s. returns (True, s)))
      else returns (False, s)"
  show "yields (\<lambda>(continue, s'). if continue then (s', s) \<in> dc_less n p else saturated n p s') ?loop"
  proof (cases "length (outstanding st) < 5 \<and> piece \<noteq> None")
    case False
    then show ?thesis using five st s1 cases(1) by (auto simp: ch saturated_def split: option.split)
  next
    case True
    then obtain i where i: "piece = Some i" by auto
    show ?thesis
    proof (cases b)
      case None
      let ?s = "dc_put (s1\<lparr>dc_pm := pm\<rparr>) p (st\<lparr>active_piece := None\<rparr>)"
      have sub: "open_pieces n pm \<subseteq> open_pieces n (dc_pm s) - {i}" using next_block_none[OF pm] nb None i by auto
      then have le: "card (open_pieces n pm) \<le> card (open_pieces n (dc_pm s))" by (intro card_mono) auto
      have "card (open_pieces n pm) < card (open_pieces n (dc_pm s))" if "i \<in> open_pieces n (dc_pm s)"
        using sub that by (intro psubset_card_mono) auto
      with le cases(2)[OF i] st have "(?s, s) \<in> dc_less n p"
        by (auto simp: dc_less_def dc_measure_def)
      then show ?thesis using True nb None by (simp add: ch i s1(3))
    next
      case (Some b)
      let ?st = "st\<lparr>active_piece := Some i,
        outstanding := outstanding st @ [\<lparr>rq_piece = blk_piece b, rq_begin = blk_begin b, rq_length = blk_length b\<rparr>]\<rparr>"
      let ?s = "dc_put (s1\<lparr>dc_pm := pm\<rparr>) p ?st"
      have "(s', s) \<in> dc_less n p" if "same_core ?s s' \<or> same_core (unregister_peer p ?s) s'" for s'
        using that st five inv_entry(1)[OF inv st]
        by (auto simp: dc_less_def dc_measure_def same_core_def unregister_lookup)
      then have "yields (\<lambda>s'. (s', s) \<in> dc_less n p) (dc_send env p m ?s)" for m
        by (rule yields_mono[OF send_law])
      then show ?thesis using True nb Some by (simp add: ch i s1(3))
    qed
  qed
qed

text \<open>If sending always ends, so does filling the pipeline.\<close>

lemma fill_settles:
  assumes ends: "\<And>p m s. dc_send env p m s \<noteq> None" and draw: "draw_in_range (dc_draw env)" and inv: "dc_inv md n s"
  shows "settles (\<lambda>s'. dc_inv md n s' \<and>
    (p \<noteq> 0 \<longrightarrow> \<not> is_peer_choking env p (dc_world s) \<longrightarrow> dc_peers s p \<noteq> None \<longrightarrow> saturated n p s')) (fill_request_pipeline env p s)"
proof -
  have "settles (\<lambda>_. True) (dc_send env p m s)" for p m s by (simp add: settles_iff ends yields_True)
  then have "settles (\<lambda>_. True) (pipeline_round env p s)" for s
    by (auto simp: pipeline_round_def Let_def split: option.split prod.split)
  then have total: "pipeline_round env p s \<noteq> None" for s by (simp add: settles_iff)
  have "settles (\<lambda>(continue, s'). if continue then dc_inv md n s' \<and> (s', s) \<in> dc_less n p else dc_inv md n s' \<and> saturated n p s')
      (pipeline_round env p s)" if "dc_inv md n s" for s
    using total[of s] yields_conj[OF round_inv[OF that, of p] round_progress[OF that draw, of p]]
    by (auto simp: settles_iff elim!: yields_mono)
  then have "settles (\<lambda>s'. dc_inv md n s' \<and> saturated n p s') (repeat_while (pipeline_round env p) s)"
    by (rule repeat_while_settles[where I = "dc_inv md n" and R = "dc_less n p"]) (simp_all add: wf_dc_less inv)
  with inv show ?thesis by (auto simp: fill_request_pipeline_def elim!: settles_mono)
qed

end

end
