(* ===== verification/Coordinator_World.thy ===== *)
theory Coordinator_World
  imports Coordinator_Invariant
begin

text \<open>
  A second interface of the coordinator: properties \<open>G\<close> of the coordinator and the rest of the program that
  depend on the registered peers and the completed pieces only, and that the calls out of the coordinator
  keep, are kept by the handling of messages.
\<close>

lemma block_request_failed_bitfield: "pm_bitfield (block_request_failed pm i bgn) = pm_bitfield pm"
  using pm_step_bitfield[of pm "BlockRequestFailed i bgn"] by simp

lemma release_requests_bitfield [simp]: "pm_bitfield (release_requests rs pm) = pm_bitfield pm"
  unfolding release_requests_def by (induction rs arbitrary: pm) (simp_all add: block_request_failed_bitfield)

lemma get_next_block_bitfield: "get_next_block pm i = (r, pm') \<Longrightarrow> pm_bitfield pm' = pm_bitfield pm"
  using pm_step_bitfield[of pm "NextBlock i"] by simp

lemma block_received_bitfield: "block_received pm i bgn d = (r, pm') \<Longrightarrow> pm_bitfield pm' = pm_bitfield pm"
  using pm_step_bitfield[of pm "BlockReceived i bgn d"] by simp

lemma piece_failed_bitfield [simp]: "pm_bitfield (piece_failed pm i) = pm_bitfield pm"
  by (simp add: piece_failed_def erase_piece_def)

definition completed_cb :: "('g, 'w) DcEnv \<Rightarrow> nat \<Rightarrow> ('g, 'w) Coordinator \<Rightarrow> ('g, 'w) Coordinator" where
  "completed_cb env i s =
     (case on_piece_completed_cb env of
        None \<Rightarrow> s
      | Some cb \<Rightarrow> s\<lparr>dc_world := cb i (get_piece_data (dc_pm s) i) (dc_world s)\<rparr>)"

locale world_link = peer_link env for env :: "('g, 'w) DcEnv" +
  fixes md :: TorrentMetadata and n :: nat and G :: "('g, 'w) Coordinator \<Rightarrow> bool"
  assumes G_shrink: "G s \<Longrightarrow> dom (dc_peers s') \<subseteq> dom (dc_peers s) \<Longrightarrow> pm_bitfield (dc_pm s') = pm_bitfield (dc_pm s) \<Longrightarrow>
      dc_world s' = dc_world s \<Longrightarrow> G s'"
    and G_send: "G s \<Longrightarrow> yields G (dc_send env p m s)"
    and G_corrupted: "G s \<Longrightarrow> on_peer_corrupted_cb env = Some cb \<Longrightarrow> yields G (cb p s)"
    and G_completed: "dc_inv md n s \<Longrightarrow> G s \<Longrightarrow> validate_piece (dc_sha1 env) (dc_pm s) i = Inr True \<Longrightarrow>
      G ((completed_cb env i s)\<lparr>dc_pm := piece_completed (dc_pm s) i\<rparr>)"
begin

lemma G_put: "G s \<Longrightarrow> dc_peers s p = Some st \<Longrightarrow> G (dc_put s p st')"
  by (erule G_shrink) auto

lemma round_G:
  assumes "G s"
  shows "yields (\<lambda>(continue, s'). G s') (pipeline_round env p s)"
  unfolding pipeline_round_def
proof (rule entry_inv)
  fix st
  assume st: "dc_peers s p = Some st"
  obtain piece s1 where ch: "choose_piece env st s = (piece, s1)" by fastforce
  have s1: "dc_peers s1 = dc_peers s" "dc_pm s1 = dc_pm s" "dc_world s1 = dc_world s"
    using ch by (auto simp: choose_piece_def split: option.splits prod.splits)
  have G1: "G s1" by (rule G_shrink[OF assms]) (simp_all add: s1)
  obtain b pm where nb: "get_next_block (dc_pm s1) (the piece) = (b, pm)" by fastforce
  have put: "G (dc_put (s1\<lparr>dc_pm := pm\<rparr>) p st')" for st'
    by (rule G_shrink[OF G1]) (use st s1 get_next_block_bitfield[OF nb] in auto)
  show "yields (\<lambda>(continue, s'). G s') (if length (outstanding st) < 5 then
      let (piece, s) = choose_piece env st s in
      case piece of None \<Rightarrow> returns (False, s)
      | Some i \<Rightarrow> let (block_opt, pm) = get_next_block (dc_pm s) i; s = s\<lparr>dc_pm := pm\<rparr> in
          (case block_opt of None \<Rightarrow> returns (True, dc_put s p (st\<lparr>active_piece := None\<rparr>))
           | Some b \<Rightarrow> let req = \<lparr>rq_piece = blk_piece b, rq_begin = blk_begin b, rq_length = blk_length b\<rparr>;
               s = dc_put s p (st\<lparr>active_piece := Some i, outstanding := outstanding st @ [req]\<rparr>) in
               bindR (dc_send env p (RequestMsg (of_nat (blk_piece b)) (of_nat (blk_begin b)) (of_nat (blk_length b))) s)
                 (\<lambda>s. returns (True, s)))
      else returns (False, s))"
    using assms G1 put G_send[OF put] nb by (cases piece; cases b) (simp_all add: ch)
qed

lemma fill_G: "G s \<Longrightarrow> yields G (fill_request_pipeline env p s)"
  by (auto simp: fill_request_pipeline_def intro: repeat_while_yields round_G)

lemma cancel_round_G:
  assumes "G (snd ks)"
  shows "yields (\<lambda>(continue, ks'). G (snd ks')) (cancel_round env p i ks)"
proof -
  obtain k s where ks: "ks = (k, s)" by fastforce
  have "yields (\<lambda>s. yields (\<lambda>(continue, ks'). G (snd ks')) (bindR (dc_entry s p) (\<lambda>st.
      returns (True, k, dc_put s p (st\<lparr>outstanding := delete_at k (outstanding st)\<rparr>))))) (dc_send env p m s)" for m
    by (rule yields_mono[OF G_send]) (use assms ks in \<open>auto intro: G_put\<close>)
  then show ?thesis using assms by (simp add: cancel_round_def ks Let_def)
qed

lemma cancel_peers_G: "G s \<Longrightarrow> yields G (cancel_peers env i ps s)"
proof (induction ps arbitrary: s)
  case (Cons p ps)
  have "yields (\<lambda>ks. G (snd ks)) (repeat_while (cancel_round env p i) (0, s))"
    by (rule repeat_while_yields) (use Cons.prems cancel_round_G in auto)
  then show ?case unfolding cancel_peers.simps
    by (rule yields_bindI) (auto intro!: Cons.IH intro: G_put)
qed simp

lemma broadcast_G: "G s \<Longrightarrow> yields G (broadcast env m ps s)"
proof (induction ps arbitrary: s)
  case (Cons p ps)
  then show ?case unfolding broadcast.simps by (intro yields_bindI[OF G_send]) auto
qed simp

lemma finish_piece_G:
  assumes "dc_inv md n s" "G s"
  shows "yields G (finish_piece env p i s)"
proof -
  let ?s = "(completed_cb env i s)\<lparr>dc_pm := piece_completed (dc_pm s) i\<rparr>"
  have pm: "dc_pm (completed_cb env i s) = dc_pm s" by (simp add: completed_cb_def split: option.split)
  have fin: "yields G (bindR (cancel_piece_requests env i ?s) (\<lambda>s. broadcast env (HaveMsg (of_nat i)) (dc_order env (dc_peers s)) s))"
    if "validate_piece (dc_sha1 env) (dc_pm s) i = Inr True"
    unfolding cancel_piece_requests_def
    by (rule yields_bindI[OF cancel_peers_G[OF G_completed[OF assms that]] broadcast_G])
  have "G (s\<lparr>dc_pm := piece_failed (dc_pm s) i\<rparr>)" by (rule G_shrink[OF assms(2)]) simp_all
  then have "yields G (case on_peer_corrupted_cb env of None \<Rightarrow> returns (s\<lparr>dc_pm := piece_failed (dc_pm s) i\<rparr>)
      | Some cb \<Rightarrow> cb p (s\<lparr>dc_pm := piece_failed (dc_pm s) i\<rparr>))"
    using G_corrupted by (simp split: option.split)
  with fin show ?thesis unfolding finish_piece_def completed_cb_def[symmetric] Let_def pm by auto
qed

lemma refill_G: "G s \<Longrightarrow> yields G (if \<not> is_peer_choking env p (dc_world s) then fill_request_pipeline env p s else returns s)"
  by (simp add: fill_G)

lemma on_piece_G:
  assumes "dc_inv md n s" "G s" "dc_peers s p = Some st"
  shows "yields G (on_piece env p st i bgn block s)"
proof -
  let ?st = "st\<lparr>outstanding := drop_request i bgn (outstanding st)\<rparr>"
  obtain completed pm where br: "block_received (dc_pm s) i bgn block = (completed, pm)" by fastforce
  let ?s = "(dc_put s p ?st)\<lparr>dc_pm := pm\<rparr>"
  have inv: "dc_inv md n ?s" by (rule block_stored_inv[OF assms(1,3) br])
  have G: "G ?s" by (rule G_shrink[OF assms(2)]) (use assms(3) block_received_bitfield[OF br] in auto)
  have "yields G (bindR (finish_piece env p i ?s) (\<lambda>s. bindR (dc_entry s p) (\<lambda>st.
      returns (if active_piece st = Some i then dc_put s p (st\<lparr>active_piece := None\<rparr>) else s))))"
    by (rule yields_bindI[OF finish_piece_G[OF inv G]]) (auto intro: G_put)
  with G have "yields G (if completed then bindR (finish_piece env p i ?s) (\<lambda>s. bindR (dc_entry s p) (\<lambda>st.
      returns (if active_piece st = Some i then dc_put s p (st\<lparr>active_piece := None\<rparr>) else s))) else returns ?s)" by simp
  then show ?thesis
    unfolding on_piece_def Let_def dc_put_sel br prod.case by (rule yields_bindI) (rule refill_G)
qed

lemma handle_G:
  assumes "dc_inv md n s" "G s"
  shows "yields G (handle_peer_message env p msg s)"
proof (cases "dc_peers s p")
  case (Some st)
  have put: "G (dc_put (s\<lparr>dc_picker := pp, dc_pm := pm\<rparr>) p st')" if "pm_bitfield pm = pm_bitfield (dc_pm s)" for pp pm st'
    by (rule G_shrink[OF assms(2)]) (use Some that in auto)
  have "G (dc_put (s\<lparr>dc_picker := pp\<rparr>) p st')" for pp st' using put[of "dc_pm s" pp st'] by simp
  then have "yields G (on_bitfield env p st field s)" "yields G (on_have env p st j s)" for field j
    unfolding on_bitfield_def on_have_def Let_def using assms(2) G_send fill_G by (auto intro!: yields_bindI[OF _ refill_G] simp del: yields_simps(6))
  moreover have "G (on_choke p st s)"
    using put[of "release_requests (outstanding st) (dc_pm s)" "dc_picker s"] by (simp add: on_choke_def)
  ultimately show ?thesis
    using on_piece_G[OF assms Some] assms(2) fill_G
    by (auto simp: handle_peer_message_def Some split: PeerMessage.split)
qed (simp add: handle_peer_message_def assms)

end

end
