(* ===== verification/Peer_Manager.thy ===== *)
theory Peer_Manager
  imports Download_Coordinator Connection_Client Event_Loop Disk_IO Tracker_Client
begin

text \<open>
  The peer manager (\<^verbatim>\<open>include/peer_manager.hpp\<close>, \<^verbatim>\<open>src/peer_manager.cpp\<close>) and the state of the running
  program, in which connections, peer manager, coordinator, event loop and disk call each other
  through the callbacks that \<^verbatim>\<open>src/main.cpp\<close> installs.  Connections live in a heap of addresses and are
  not freed while the program runs: their reference counts are not modelled.  A callback is the name of the closure that
  was installed; each captures only its own connection, so the runner of a connection gets its address.
  While an operation of a connection runs, the connection is held apart from the heap and is put back for
  every callback that works on the whole program.
\<close>

section \<open>State\<close>

datatype engine_cb = PmHandshake | PmDisconnect bytes | DcMessage | DcDisconnect

datatype engine_timer = CheckShutdown | RenderProgress

text \<open>What the program prints: completed pieces, bytes of the last second, active peers and the estimated
  minutes and seconds; the verdict of the final validation; and the percentiles of the latencies when the loop has ended.\<close>

datatype Output =
    ProgressLine nat nat nat "(nat \<times> nat) option"
  | DiskValidation bool
  | LatencyReport "(int \<times> int \<times> int) option"

record PeerManager =
  pmg_info_hash :: bytes
  pmg_our_peer_id :: bytes
  max_connections :: nat
  active_peers :: "bytes \<rightharpoonup> ptr"
  blacklist :: "bytes set"

record ('i, 'o) World =
  connections :: "ptr \<rightharpoonup> engine_cb PeerConnection"
  next_ptr :: ptr
  manager :: PeerManager
  loop :: "(ptr, engine_timer) EventLoop"
  files :: "'i fs"
  last_bytes :: nat
  printed :: "Output list"
  os :: 'o

type_synonym ('g, 'i, 'o) engine = "('g, ('i, 'o) World) Coordinator"

text \<open>The system, the third-party hash and the choices that the language leaves open.\<close>

record ('g, 'i, 'o) Platform =
  pf_sock :: "'o Sockets"
  pf_epoll :: "'o Epoll"
  pf_sha1 :: "bytes \<Rightarrow> bytes"
  pf_draw :: "'g draw"
  pf_order :: "(ptr \<rightharpoonup> PeerState) \<Rightarrow> ptr list"
  pf_manager_order :: "(bytes \<rightharpoonup> ptr) \<Rightarrow> bytes list"
  pf_resolve :: "bytes \<Rightarrow> 'i"
  pf_disk :: DiskIOManager

definition peer_manager :: "bytes \<Rightarrow> bytes \<Rightarrow> nat \<Rightarrow> PeerManager" where
  "peer_manager ih our_id mx =
     \<lparr>pmg_info_hash = ih, pmg_our_peer_id = our_id, max_connections = mx, active_peers = Map.empty, blacklist = {}\<rparr>"

definition make_peer_key :: "bytes \<Rightarrow> u16 \<Rightarrow> bytes" where
  "make_peer_key ip port = ip @ [58] @ to_string_nat (unat port)"

definition upd_world :: "(('i, 'o) World \<Rightarrow> ('i, 'o) World) \<Rightarrow> ('g, 'i, 'o) engine \<Rightarrow> ('g, 'i, 'o) engine" where
  "upd_world f s = s\<lparr>dc_world := f (dc_world s)\<rparr>"

definition upd_manager :: "(PeerManager \<Rightarrow> PeerManager) \<Rightarrow> ('g, 'i, 'o) engine \<Rightarrow> ('g, 'i, 'o) engine" where
  "upd_manager f s = upd_world (\<lambda>w. w\<lparr>manager := f (manager w)\<rparr>) s"

definition put_conn :: "ptr \<Rightarrow> engine_cb PeerConnection \<Rightarrow> ('g, 'i, 'o) engine \<Rightarrow> ('g, 'i, 'o) engine" where
  "put_conn p c s = upd_world (\<lambda>w. w\<lparr>connections := (connections w)(p \<mapsto> c)\<rparr>) s"

section \<open>The system calls of a connection\<close>

definition with_os :: "('o \<Rightarrow> 'a \<times> 'o) \<Rightarrow> ('g, 'i, 'o) engine \<Rightarrow> 'a \<times> ('g, 'i, 'o) engine" where
  "with_os f s = (let (a, x) = f (os (dc_world s)) in (a, upd_world (\<lambda>w. w\<lparr>os := x\<rparr>) s))"

definition peer_env :: "('g, 'i, 'o) Platform \<Rightarrow> ptr \<Rightarrow> ('g, 'i, 'o) engine PeerEnv" where
  "peer_env pf p =
     \<lparr>env_sock =
       \<lparr>sys_socket = with_os (sys_socket (pf_sock pf)),
        sys_getfl = \<lambda>fd. with_os (sys_getfl (pf_sock pf) fd),
        sys_setfl = \<lambda>fd. with_os (sys_setfl (pf_sock pf) fd),
        sys_inet_pton = sys_inet_pton (pf_sock pf),
        sys_connect = \<lambda>fd ip port. with_os (sys_connect (pf_sock pf) fd ip port),
        sys_send = \<lambda>fd bs. with_os (sys_send (pf_sock pf) fd bs),
        sys_recv = \<lambda>fd n. with_os (sys_recv (pf_sock pf) fd n),
        sys_so_error = \<lambda>fd. with_os (sys_so_error (pf_sock pf) fd),
        sys_close = \<lambda>fd s. snd (with_os (\<lambda>x. ((), sys_close (pf_sock pf) fd x)) s)\<rparr>,
      env_register = \<lambda>fd ev s.
        (let (ok, l, x) = register_fd (pf_epoll pf) (loop (dc_world s)) fd ev (Some p) (os (dc_world s)) in
         (ok, upd_world (\<lambda>w. w\<lparr>loop := l, os := x\<rparr>) s)),
      env_modify = \<lambda>fd ev s. snd (with_os (modify_fd (pf_epoll pf) (loop (dc_world s)) fd ev) s),
      env_unregister = \<lambda>fd s.
        (let (_, l, x) = unregister_fd (pf_epoll pf) (loop (dc_world s)) fd (os (dc_world s)) in
         upd_world (\<lambda>w. w\<lparr>loop := l, os := x\<rparr>) s)\<rparr>"

section \<open>Callbacks\<close>

text \<open>The disconnect callbacks: of the coordinator, and of the peer manager, which first tells the
  coordinator (\<^verbatim>\<open>on_peer_disconnected\<close> in \<^verbatim>\<open>main.cpp\<close>).  They are the only ones that run inside
  \<^verbatim>\<open>send_message\<close> and \<^verbatim>\<open>disconnect\<close>.\<close>

fun run_disconnect :: "ptr \<Rightarrow> (engine_cb, ('g, 'i, 'o) engine) runner" where
  "run_disconnect p DcDisconnect CbDisconnect (c, s) = returns (c, unregister_peer p s)"
| "run_disconnect p (PmDisconnect key) CbDisconnect (c, s) =
     returns (c, upd_manager (\<lambda>m. m\<lparr>active_peers := (active_peers m)(key := None)\<rparr>) (unregister_peer p s))"
| "run_disconnect p _ _ s = returns s"

definition with_conn ::
  "ptr \<Rightarrow> (engine_cb PeerConnection \<times> ('g, 'i, 'o) engine \<Rightarrow> (engine_cb PeerConnection \<times> ('g, 'i, 'o) engine) effect) \<Rightarrow>
     ('g, 'i, 'o) engine \<Rightarrow> ('g, 'i, 'o) engine effect" where
  "with_conn p f s =
     (case connections (dc_world s) p of
        None \<Rightarrow> Some (Inl UseAfterFree)
      | Some c \<Rightarrow> bindR (f (c, s)) (\<lambda>(c, s). returns (put_conn p c s)))"

definition engine_send ::
  "('g, 'i, 'o) Platform \<Rightarrow> ptr \<Rightarrow> PeerMessage \<Rightarrow> ('g, 'i, 'o) engine \<Rightarrow> ('g, 'i, 'o) engine effect" where
  "engine_send pf p m s = with_conn p (send_message (run_disconnect p) (peer_env pf p) m) s"

definition engine_disconnect :: "('g, 'i, 'o) Platform \<Rightarrow> ptr \<Rightarrow> ('g, 'i, 'o) engine \<Rightarrow> ('g, 'i, 'o) engine effect" where
  "engine_disconnect pf p s = with_conn p (disconnect (run_disconnect p) (peer_env pf p)) s"

definition is_blacklisted :: "PeerManager \<Rightarrow> bytes \<Rightarrow> u16 \<Rightarrow> bool" where
  "is_blacklisted m ip port = (make_peer_key ip port \<in> blacklist m)"

definition blacklist_peer ::
  "('g, 'i, 'o) Platform \<Rightarrow> bytes \<Rightarrow> u16 \<Rightarrow> ('g, 'i, 'o) engine \<Rightarrow> ('g, 'i, 'o) engine effect" where
  "blacklist_peer pf ip port s =
     (let key = make_peer_key ip port;
          s = upd_manager (\<lambda>m. m\<lparr>blacklist := insert key (blacklist m)\<rparr>) s in
      case active_peers (manager (dc_world s)) key of
        None \<Rightarrow> returns s
      | Some q \<Rightarrow> engine_disconnect pf q s)"

text \<open>The callbacks of \<^verbatim>\<open>main.cpp\<close>: a validated piece is written to disk, where an error is only logged,
  and the peer whose block completed a corrupt piece is blacklisted.\<close>

definition save_piece :: "('g, 'i, 'o) Platform \<Rightarrow> nat \<Rightarrow> bytes \<Rightarrow> ('i, 'o) World \<Rightarrow> ('i, 'o) World" where
  "save_piece pf i data w =
     (case write_piece (pf_resolve pf) (pf_disk pf) (files w) i data of Inl _ \<Rightarrow> w | Inr fs \<Rightarrow> w\<lparr>files := fs\<rparr>)"

definition peer_corrupted ::
  "('g, 'i, 'o) Platform \<Rightarrow> ptr \<Rightarrow> ('g, 'i, 'o) engine \<Rightarrow> ('g, 'i, 'o) engine effect" where
  "peer_corrupted pf p s =
     (case connections (dc_world s) p of
        None \<Rightarrow> Some (Inl UseAfterFree)
      | Some c \<Rightarrow> blacklist_peer pf (pc_ip c) (pc_port c) s)"

definition dc_env :: "('g, 'i, 'o) Platform \<Rightarrow> ('g, ('i, 'o) World) DcEnv" where
  "dc_env pf =
     \<lparr>dc_sha1 = pf_sha1 pf, dc_draw = pf_draw pf, dc_order = pf_order pf,
      is_peer_choking = \<lambda>p w. (case connections w p of None \<Rightarrow> True | Some c \<Rightarrow> peer_choking c),
      is_interested = \<lambda>p w. (case connections w p of None \<Rightarrow> False | Some c \<Rightarrow> am_interested c),
      dc_send = engine_send pf,
      dc_set_callbacks = \<lambda>p w.
        (case connections w p of
           None \<Rightarrow> w
         | Some c \<Rightarrow> w\<lparr>connections := (connections w)
             (p \<mapsto> c\<lparr>on_message_cb := Some DcMessage, on_disconnect_cb := Some DcDisconnect\<rparr>)\<rparr>),
      on_piece_completed_cb = Some (save_piece pf),
      on_peer_corrupted_cb = Some (peer_corrupted pf)\<rparr>"

text \<open>A callback that works on the whole program.\<close>

definition in_program ::
  "ptr \<Rightarrow> (('g, 'i, 'o) engine \<Rightarrow> ('g, 'i, 'o) engine effect) \<Rightarrow>
     engine_cb PeerConnection \<times> ('g, 'i, 'o) engine \<Rightarrow> (engine_cb PeerConnection \<times> ('g, 'i, 'o) engine) effect" where
  "in_program p f cs =
     bindR (f (put_conn p (fst cs) (snd cs))) (\<lambda>s.
       case connections (dc_world s) p of None \<Rightarrow> Some (Inl UseAfterFree) | Some c \<Rightarrow> returns (c, s))"

fun run_callbacks :: "('g, 'i, 'o) Platform \<Rightarrow> ptr \<Rightarrow> (engine_cb, ('g, 'i, 'o) engine) runner" where
  "run_callbacks pf p PmHandshake (CbHandshake h) cs =
     in_program p (\<lambda>s. engine_send pf p InterestedMsg (register_peer (dc_env pf) p s)) cs"
| "run_callbacks pf p DcMessage (CbMessage m) cs = in_program p (handle_peer_message (dc_env pf) p m) cs"
| "run_callbacks pf p cb ev cs = run_disconnect p cb ev cs"

section \<open>Operations\<close>

text \<open>Creating a connection and registering its callbacks.\<close>

definition new_connection ::
  "bytes \<Rightarrow> u16 \<Rightarrow> ('g, 'i, 'o) engine \<Rightarrow> ptr \<times> ('g, 'i, 'o) engine" where
  "new_connection ip port s =
     (let w = dc_world s; m = manager w; key = make_peer_key ip port; p = next_ptr w;
          c = (peer_connection ip port (pmg_info_hash m) (pmg_our_peer_id m))
            \<lparr>on_handshake_cb := Some PmHandshake, on_disconnect_cb := Some (PmDisconnect key)\<rparr> in
      (p, s\<lparr>dc_world := w\<lparr>connections := (connections w)(p \<mapsto> c), next_ptr := p + 1,
              manager := m\<lparr>active_peers := (active_peers m)(key \<mapsto> p)\<rparr>\<rparr>\<rparr>))"

definition connect_to_peer ::
  "('g, 'i, 'o) Platform \<Rightarrow> bytes \<Rightarrow> u16 \<Rightarrow> ('g, 'i, 'o) engine \<Rightarrow> ('g, 'i, 'o) engine effect" where
  "connect_to_peer pf ip port s =
     (let m = manager (dc_world s) in
      if card (dom (active_peers m)) \<ge> max_connections m then returns s
      else if is_blacklisted m ip port then returns s
      else if active_peers m (make_peer_key ip port) \<noteq> None then returns s
      else let (p, s) = new_connection ip port s in
        with_conn p (connect (run_callbacks pf p) (peer_env pf p)) s)"

text \<open>The port of a peer may be uninitialised, see the tracker client.\<close>

primrec add_peers ::
  "('g, 'i, 'o) Platform \<Rightarrow> PeerInfo list \<Rightarrow> ('g, 'i, 'o) engine \<Rightarrow> ('g, 'i, 'o) engine effect" where
  "add_peers pf [] s = returns s"
| "add_peers pf (peer_info # infos) s =
     (let m = manager (dc_world s) in
      if card (dom (active_peers m)) \<ge> max_connections m then returns s
      else case pi_port peer_info of
        None \<Rightarrow> Some (Inl Uninitialised)
      | Some port \<Rightarrow>
          if is_blacklisted m (pi_ip peer_info) port then add_peers pf infos s
          else if active_peers m (make_peer_key (pi_ip peer_info) port) \<noteq> None then add_peers pf infos s
          else bindR (connect_to_peer pf (pi_ip peer_info) port s) (add_peers pf infos))"

text \<open>The callback that a connection registers for the events of its descriptor.\<close>

definition peer_events ::
  "('g, 'i, 'o) Platform \<Rightarrow> ptr \<Rightarrow> u32 \<Rightarrow> ('g, 'i, 'o) engine \<Rightarrow> ('g, 'i, 'o) engine effect" where
  "peer_events pf p evs s = with_conn p (handle_events (run_callbacks pf p) (peer_env pf p) evs) s"

definition get_active_peers :: "('g, 'i, 'o) Platform \<Rightarrow> ('i, 'o) World \<Rightarrow> (bytes \<times> u16) list" where
  "get_active_peers pf w =
     List.map_filter (\<lambda>key. Option.bind (active_peers (manager w) key) (\<lambda>p.
       map_option (\<lambda>c. (pc_ip c, pc_port c)) (connections w p))) (pf_manager_order pf (active_peers (manager w)))"

definition established_connection_count :: "('g, 'i, 'o) Platform \<Rightarrow> ('i, 'o) World \<Rightarrow> nat" where
  "established_connection_count pf w =
     length (filter (\<lambda>key.
         (case Option.bind (active_peers (manager w) key) (connections w) of None \<Rightarrow> False | Some c \<Rightarrow> pc_state c = Active))
       (pf_manager_order pf (active_peers (manager w))))"

text \<open>The destructor: every connection loses the callbacks of the manager and is disconnected.\<close>

primrec close_peers ::
  "('g, 'i, 'o) Platform \<Rightarrow> ptr list \<Rightarrow> ('g, 'i, 'o) engine \<Rightarrow> ('g, 'i, 'o) engine effect" where
  "close_peers pf [] s = returns s"
| "close_peers pf (p # ps) s =
     bindR (with_conn p (\<lambda>(c, s). disconnect (run_disconnect p) (peer_env pf p)
       (c\<lparr>on_handshake_cb := None, on_disconnect_cb := None\<rparr>, s)) s) (close_peers pf ps)"

definition destroy_peer_manager :: "('g, 'i, 'o) Platform \<Rightarrow> ('g, 'i, 'o) engine \<Rightarrow> ('g, 'i, 'o) engine effect" where
  "destroy_peer_manager pf s =
     (let peers = active_peers (manager (dc_world s)) in
      close_peers pf (List.map_filter peers (pf_manager_order pf peers))
        (upd_manager (\<lambda>m. m\<lparr>active_peers := Map.empty\<rparr>) s))"

text \<open>When the destructor ends, its copy of the table goes, and the connections in it with it.  By then the callbacks of
  a connection refer to objects that do not exist any more: running one would be a use after free.\<close>

definition dead_callback :: "(engine_cb, ('g, 'i, 'o) engine) runner" where
  "dead_callback cb ev cs = Some (Inl UseAfterFree)"

primrec destroy_connections ::
  "('g, 'i, 'o) Platform \<Rightarrow> ptr list \<Rightarrow> ('g, 'i, 'o) engine \<Rightarrow> ('g, 'i, 'o) engine effect" where
  "destroy_connections pf [] s = returns s"
| "destroy_connections pf (p # ps) s =
     bindR (with_conn p (destroy_connection dead_callback (peer_env pf p)) s) (destroy_connections pf ps)"

end
