(* ===== verification/Engine.thy ===== *)
theory Engine
  imports Peer_Manager Coordinator_World Peer_Stream
begin

text \<open>
  Correctness of the running program: the coordinator, the connections, the peer manager, the
  event loop and the disk together.  The interface \<open>peer_link\<close> of the coordinator is interpreted on the
  connections of the program, and an invariant of the whole program is kept by every event.
\<close>

section \<open>What system calls change\<close>

definition sys_only :: "('g, 'i, 'o) engine \<Rightarrow> ('g, 'i, 'o) engine \<Rightarrow> bool" where
  "sys_only s s' \<longleftrightarrow> (\<exists>l x. s' = upd_world (\<lambda>w. w\<lparr>loop := l, os := x\<rparr>) s)"

lemma sys_only_refl [simp]: "sys_only s s"
  unfolding sys_only_def upd_world_def by (intro exI[of _ "loop (dc_world s)"] exI[of _ "os (dc_world s)"]) simp

lemma sys_only_trans: "sys_only s s1 \<Longrightarrow> sys_only s1 s2 \<Longrightarrow> sys_only s s2"
  unfolding sys_only_def upd_world_def by (elim exE) (rule exI, rule exI, simp)

lemma sys_only_os: "sys_only s (upd_world (\<lambda>w. w\<lparr>os := x\<rparr>) s)"
  unfolding sys_only_def upd_world_def by (intro exI[of _ "loop (dc_world s)"] exI[of _ x]) simp

lemma with_os_sys [simp]: "sys_only s (snd (with_os f s))"
  by (simp add: with_os_def sys_only_os split: prod.split)

lemma peer_env_sys [simp]:
  "sys_only s (snd (sys_socket (env_sock (peer_env pf p)) s))"
  "sys_only s (snd (sys_getfl (env_sock (peer_env pf p)) fd s))"
  "sys_only s (snd (sys_setfl (env_sock (peer_env pf p)) fd s))"
  "sys_only s (snd (sys_connect (env_sock (peer_env pf p)) fd ip port s))"
  "sys_only s (snd (sys_send (env_sock (peer_env pf p)) fd bs s))"
  "sys_only s (snd (sys_recv (env_sock (peer_env pf p)) fd k s))"
  "sys_only s (snd (sys_so_error (env_sock (peer_env pf p)) fd s))"
  "sys_only s (sys_close (env_sock (peer_env pf p)) fd s)"
  "sys_only s (snd (env_register (peer_env pf p) fd ev s))"
  "sys_only s (env_modify (peer_env pf p) fd ev s)"
  "sys_only s (env_unregister (peer_env pf p) fd s)"
  by (auto simp: peer_env_def sys_only_def split: prod.split) (auto simp: sys_only_def[symmetric])

text \<open>A connection attempt makes only these calls.\<close>

lemma connect_async_sys:
  assumes "connect_async (env_sock (peer_env pf p)) c ip port s = (status, conn, s')"
  shows "sys_only s s'"
proof -
  let ?os = "env_sock (peer_env pf p)"
  have close: "sys_only s (snd (tcp_close ?os c s))" for c s by (simp add: tcp_close_def)
  obtain c1 s1 where 1: "tcp_close ?os c s = (c1, s1)" by fastforce
  obtain fd s2 where 2: "sys_socket ?os s1 = (fd, s2)" by fastforce
  obtain got s3 where 3: "sys_getfl ?os fd s2 = (got, s3)" by fastforce
  obtain set s4 where 4: "sys_setfl ?os fd s3 = (set, s4)" by fastforce
  obtain ret s5 where 5: "sys_connect ?os fd ip port s4 = (ret, s5)" by fastforce
  have s1: "sys_only s s1" using close[of s c] 1 by simp
  have s2: "sys_only s s2" using sys_only_trans[OF s1] peer_env_sys(1)[of s1 pf p] 2 by simp
  have s3: "sys_only s s3" using sys_only_trans[OF s2] peer_env_sys(2)[of s2 pf p fd] 3 by simp
  have s4: "sys_only s s4" using sys_only_trans[OF s3] peer_env_sys(3)[of s3 pf p fd] 4 by simp
  have s5: "sys_only s s5" using sys_only_trans[OF s4] peer_env_sys(4)[of s4 pf p fd ip port] 5 by simp
  have closed: "sys_only s (snd (tcp_close ?os c1 s'))" if "sys_only s s'" for c1 s' by (rule sys_only_trans[OF that close])
  have "s' \<in> {s2, snd (tcp_close ?os (c1\<lparr>tcp_fd := fd\<rparr>) s3), snd (tcp_close ?os (c1\<lparr>tcp_fd := fd\<rparr>) s4),
      snd (tcp_close ?os (c1\<lparr>tcp_fd := fd\<rparr>) s5), s5}"
    using assms by (auto simp: connect_async_def Let_def 1 2 3 4 5 split_beta split: if_splits option.splits)
  then show ?thesis using s2 s5 closed[OF s3] closed[OF s4] closed[OF s5] by auto
qed

section \<open>Connections as the coordinator sees them\<close>

lemma same_core_refl [simp]: "same_core s s"
  by (simp add: same_core_def)

lemma same_core_trans: "same_core s s1 \<Longrightarrow> same_core s1 s2 \<Longrightarrow> same_core s s2"
  by (simp add: same_core_def)

lemma same_core_world [simp]:
  "same_core s (upd_world f s') = same_core s s'" "same_core s (upd_manager g s') = same_core s s'"
  "same_core s (put_conn p c s') = same_core s s'"
  by (simp_all add: same_core_def upd_world_def upd_manager_def put_conn_def)

lemma same_core_sys: "same_core s s1 \<Longrightarrow> sys_only s1 s2 \<Longrightarrow> same_core s s2"
  by (auto simp: sys_only_def)

lemma same_core_unregister: "same_core s s' \<Longrightarrow> same_core (unregister_peer p s) (unregister_peer p s')"
  by (simp add: same_core_def unregister_peer_def split: option.split)

text \<open>While it is not disconnected, a connection has left the coordinator alone; its disconnection may have
  unregistered the peer.\<close>

definition left_alone :: "ptr \<Rightarrow> ('g, 'i, 'o) engine \<Rightarrow> engine_cb PeerConnection \<times> ('g, 'i, 'o) engine \<Rightarrow> bool" where
  "left_alone p s0 cs \<longleftrightarrow> same_core s0 (snd cs) \<or>
     pc_state (fst cs) = Disconnected \<and> same_core (unregister_peer p s0) (snd cs)"

lemma left_alone_sys: "left_alone p s0 (c, s) \<Longrightarrow> sys_only s s' \<Longrightarrow> left_alone p s0 (c, s')"
  by (auto simp: left_alone_def intro: same_core_sys)

lemma run_disconnect_alone:
  assumes "same_core s0 s" "pc_state c = Disconnected"
  shows "yields (left_alone p s0) (run_callback (run_disconnect p) cb CbDisconnect (c, s))"
  using assms same_core_unregister[OF assms(1), of p]
  by (cases cb; cases "the cb") (auto simp: run_callback_def left_alone_def)

lemma run_disconnect_other: "run_callback (run_disconnect p) cb (CbMessage m) cs = returns cs"
  "run_callback (run_disconnect p) cb (CbHandshake h) cs = returns cs"
  by (cases cb; cases "the cb"; simp add: run_callback_def)+

interpretation alone: connection_client "run_disconnect p" "peer_env pf p" "left_alone p s0"
  for p and pf :: "('g, 'i, 'o) Platform" and s0 :: "('g, 'i, 'o) engine"
proof
  fix c :: "engine_cb PeerConnection" and s :: "('g, 'i, 'o) engine" and status conn s'
  assume a: "left_alone p s0 (c, s)" and idle: "pc_state c = Idle"
  { assume "connect_async (env_sock (peer_env pf p)) (pc_conn c) (pc_ip c) (pc_port c) s = (status, conn, s')"
    from connect_async_sys[OF this] show "left_alone p s0 (c\<lparr>pc_state := Connecting, pc_conn := conn\<rparr>, s')"
      using a idle by (auto simp: left_alone_def intro: same_core_sys) }
  { assume "connect_async (env_sock (peer_env pf p)) (pc_conn c) (pc_ip c) (pc_port c) s = (ConnectError, conn, s')"
    from connect_async_sys[OF this] show "yields (left_alone p s0) (run_callback (run_disconnect p) (on_disconnect_cb c) CbDisconnect
        (c\<lparr>pc_conn := conn, pc_state := Disconnected\<rparr>, s'))"
      using a idle by (intro run_disconnect_alone) (auto simp: left_alone_def intro: same_core_sys) }
next
  fix c :: "engine_cb PeerConnection" and s :: "('g, 'i, 'o) engine" and m
  assume "left_alone p s0 (c, s)"
  then show "left_alone p s0 (note_sent m c, s)" "left_alone p s0 (note_received m c, s)"
    by (cases m; simp add: left_alone_def)+
qed (auto intro!: run_disconnect_alone simp: run_disconnect_other left_alone_def
    intro: same_core_sys)

lemma engine_send_law: "yields (\<lambda>s'. same_core s s' \<or> same_core (unregister_peer p s) s') (engine_send pf p m s)"
proof (cases "connections (dc_world s) p")
  case (Some c)
  have "left_alone p s (c, s)" by (simp add: left_alone_def)
  from alone.send_message_J[OF this, of pf m] show ?thesis
    unfolding engine_send_def with_conn_def Some option.case
    by (rule yields_bindI) (auto simp: left_alone_def)
qed (simp add: engine_send_def with_conn_def)

lemma engine_disconnect_law: "yields (\<lambda>s'. same_core s s' \<or> same_core (unregister_peer p s) s') (engine_disconnect pf p s)"
proof (cases "connections (dc_world s) p")
  case (Some c)
  have "left_alone p s (c, s)" by (simp add: left_alone_def)
  from alone.disconnect_J[OF this, of pf] show ?thesis
    unfolding engine_disconnect_def with_conn_def Some option.case
    by (rule yields_bindI) (auto simp: left_alone_def)
qed (simp add: engine_disconnect_def with_conn_def)

lemma blacklist_peer_law:
  "yields (\<lambda>s'. same_core s s' \<or> (\<exists>q. same_core (unregister_peer q s) s')) (blacklist_peer pf ip port s)"
proof -
  let ?s = "upd_manager (\<lambda>m. m\<lparr>blacklist := insert (make_peer_key ip port) (blacklist m)\<rparr>) s"
  have core: "same_core s ?s" by simp
  have "yields (\<lambda>s'. same_core s s' \<or> (\<exists>q. same_core (unregister_peer q s) s')) (engine_disconnect pf q ?s)" for q
    by (rule yields_mono[OF engine_disconnect_law])
      (use core same_core_unregister[OF core] same_core_trans in blast)
  then show ?thesis by (simp add: blacklist_peer_def Let_def split: option.split)
qed

interpretation eng: peer_link "dc_env pf"
proof
  show "yields (\<lambda>s'. same_core s s' \<or> same_core (unregister_peer p s) s') (dc_send (dc_env pf) p m s)" for p m s
    by (simp add: dc_env_def engine_send_law)
  show "yields (\<lambda>s'. same_core s s' \<or> (\<exists>q. same_core (unregister_peer q s) s')) (cb p s)"
    if "on_peer_corrupted_cb (dc_env pf) = Some cb" for cb p s
    using that blacklist_peer_law by (auto simp: dc_env_def peer_corrupted_def split: option.split)
qed

section \<open>The invariant of the program\<close>

definition key_of :: "engine_cb PeerConnection \<Rightarrow> bytes" where
  "key_of c = make_peer_key (pc_ip c) (pc_port c)"

text \<open>Addresses are handed out in order; a registered peer is active and its messages and its
  disconnection reach the coordinator; the slots of the peer manager are bounded, and a connection that is not disconnected holds the slot of its address; the
  disconnect callback of the peer manager knows this address.\<close>

definition attached :: "engine_cb PeerConnection \<Rightarrow> bool" where
  "attached c \<longleftrightarrow> pc_state c = Active \<and> on_message_cb c = Some DcMessage \<and> on_disconnect_cb c = Some DcDisconnect"

definition heap_ok :: "('g, 'i, 'o) engine \<Rightarrow> bool" where
  "heap_ok s \<longleftrightarrow> 0 < next_ptr (dc_world s) \<and> dom (connections (dc_world s)) \<subseteq> {0<..<next_ptr (dc_world s)} \<and>
     (\<forall>p st. dc_peers s p = Some st \<longrightarrow> (\<exists>c. connections (dc_world s) p = Some c \<and> attached c))"

definition slots_ok :: "nat \<Rightarrow> ('g, 'i, 'o) engine \<Rightarrow> bool" where
  "slots_ok mx s \<longleftrightarrow> finite (dom (active_peers (manager (dc_world s)))) \<and>
     card (dom (active_peers (manager (dc_world s)))) \<le> max_connections (manager (dc_world s)) \<and>
     max_connections (manager (dc_world s)) = mx \<and> mx + 1 < 2 ^ 32 \<and>
     (\<forall>key p. active_peers (manager (dc_world s)) key = Some p \<longrightarrow> (\<exists>c. connections (dc_world s) p = Some c \<and> key_of c = key)) \<and>
     (\<forall>p c. connections (dc_world s) p = Some c \<longrightarrow>
        (pc_state c \<noteq> Disconnected \<longrightarrow> active_peers (manager (dc_world s)) (key_of c) = Some p) \<and>
        (\<forall>key. on_disconnect_cb c = Some (PmDisconnect key) \<longrightarrow> key = key_of c))"

text \<open>Blacklisted peers are disconnected, apart from the connections in \<open>X\<close>.\<close>

definition quarantined :: "ptr set \<Rightarrow> ('g, 'i, 'o) engine \<Rightarrow> bool" where
  "quarantined X s \<longleftrightarrow> (\<forall>p c. connections (dc_world s) p = Some c \<longrightarrow> p \<notin> X \<longrightarrow>
     key_of c \<in> blacklist (manager (dc_world s)) \<longrightarrow> pc_state c = Disconnected)"

text \<open>The completed pieces are on disk, with the right hashes, and the program has not said otherwise.\<close>

definition saved :: "('g, 'i, 'o) Platform \<Rightarrow> TorrentMetadata \<Rightarrow> ('g, 'i, 'o) engine \<Rightarrow> bool" where
  "saved pf md s \<longleftrightarrow> dio_metadata (pf_disk pf) = md \<and> piece_length md < 2 ^ 32 \<and>
     disk_ok (pf_resolve pf) (pf_disk pf) (files (dc_world s)) \<and>
     (\<forall>i. has_piece (dc_pm s) i \<longrightarrow>
        verify_piece (pf_sha1 pf) (pf_resolve pf) (pf_disk pf) (files (dc_world s)) i = Inr True) \<and>
     DiskValidation False \<notin> set (printed (dc_world s))"

definition program_ok :: "nat \<Rightarrow> ('g, 'i, 'o) Platform \<Rightarrow> TorrentMetadata \<Rightarrow> ptr set \<Rightarrow> ('g, 'i, 'o) engine \<Rightarrow> bool" where
  "program_ok mx pf md X s \<longleftrightarrow> heap_ok s \<and> slots_ok mx s \<and> quarantined X s \<and> saved pf md s"

lemmas program_defs = program_ok_def heap_ok_def slots_ok_def quarantined_def saved_def

lemma put_conn_sel [simp]:
  "dc_pm (put_conn p c s) = dc_pm s" "dc_picker (put_conn p c s) = dc_picker s"
  "dc_num_pieces (put_conn p c s) = dc_num_pieces s" "dc_peers (put_conn p c s) = dc_peers s"
  "connections (dc_world (put_conn p c s)) = (connections (dc_world s))(p \<mapsto> c)"
  "next_ptr (dc_world (put_conn p c s)) = next_ptr (dc_world s)" "manager (dc_world (put_conn p c s)) = manager (dc_world s)"
  "files (dc_world (put_conn p c s)) = files (dc_world s)" "printed (dc_world (put_conn p c s)) = printed (dc_world s)"
  by (simp_all add: put_conn_def upd_world_def)

lemma put_conn_same: "connections (dc_world s) p = Some c \<Longrightarrow> put_conn p c s = s"
  by (simp add: put_conn_def upd_world_def fun_upd_idem)

lemma put_conn_put [simp]: "put_conn p c (put_conn p c' s) = put_conn p c s"
  by (simp add: put_conn_def upd_world_def)

lemma sys_only_sel:
  assumes "sys_only s s'"
  shows "dc_pm s' = dc_pm s" "dc_peers s' = dc_peers s" "connections (dc_world s') = connections (dc_world s)"
    "next_ptr (dc_world s') = next_ptr (dc_world s)" "manager (dc_world s') = manager (dc_world s)"
    "files (dc_world s') = files (dc_world s)" "printed (dc_world s') = printed (dc_world s)"
  using assms by (auto simp: sys_only_def upd_world_def)

definition slot_ok :: "PeerManager \<Rightarrow> ptr \<Rightarrow> engine_cb PeerConnection \<Rightarrow> bool" where
  "slot_ok m p c \<longleftrightarrow> (pc_state c \<noteq> Disconnected \<longrightarrow> active_peers m (key_of c) = Some p) \<and>
     (\<forall>key. on_disconnect_cb c = Some (PmDisconnect key) \<longrightarrow> key = key_of c)"

lemma slots_put:
  "slots_ok mx (put_conn p c s) \<longleftrightarrow> finite (dom (active_peers (manager (dc_world s)))) \<and>
     card (dom (active_peers (manager (dc_world s)))) \<le> max_connections (manager (dc_world s)) \<and>
     max_connections (manager (dc_world s)) = mx \<and> mx + 1 < 2 ^ 32 \<and>
     (\<forall>key. active_peers (manager (dc_world s)) key = Some p \<longrightarrow> key_of c = key) \<and>
     (\<forall>key q. active_peers (manager (dc_world s)) key = Some q \<longrightarrow> q \<noteq> p \<longrightarrow>
        (\<exists>d. connections (dc_world s) q = Some d \<and> key_of d = key)) \<and>
     slot_ok (manager (dc_world s)) p c \<and>
     (\<forall>q d. connections (dc_world s) q = Some d \<longrightarrow> q \<noteq> p \<longrightarrow> slot_ok (manager (dc_world s)) q d)"
proof -
  have a: "(\<forall>key q. active_peers (manager (dc_world s)) key = Some q \<longrightarrow>
        (\<exists>d. ((connections (dc_world s))(p \<mapsto> c)) q = Some d \<and> key_of d = key)) \<longleftrightarrow>
      (\<forall>key. active_peers (manager (dc_world s)) key = Some p \<longrightarrow> key_of c = key) \<and>
      (\<forall>key q. active_peers (manager (dc_world s)) key = Some q \<longrightarrow> q \<noteq> p \<longrightarrow>
        (\<exists>d. connections (dc_world s) q = Some d \<and> key_of d = key))"
    (is "?l \<longleftrightarrow> ?r1 \<and> ?r2")
  proof (intro iffI conjI allI impI; (elim conjE)?)
    fix key assume "?l" "active_peers (manager (dc_world s)) key = Some p"
    then show "key_of c = key" by fastforce
  next
    fix key q assume "?l" "active_peers (manager (dc_world s)) key = Some q" "q \<noteq> p"
    then show "\<exists>d. connections (dc_world s) q = Some d \<and> key_of d = key" by fastforce
  next
    fix key q assume "?r1" "?r2" "active_peers (manager (dc_world s)) key = Some q"
    then show "\<exists>d. ((connections (dc_world s))(p \<mapsto> c)) q = Some d \<and> key_of d = key" by (cases "q = p") auto
  qed
  have b: "(\<forall>q d. ((connections (dc_world s))(p \<mapsto> c)) q = Some d \<longrightarrow> slot_ok (manager (dc_world s)) q d) \<longleftrightarrow>
      slot_ok (manager (dc_world s)) p c \<and>
      (\<forall>q d. connections (dc_world s) q = Some d \<longrightarrow> q \<noteq> p \<longrightarrow> slot_ok (manager (dc_world s)) q d)"
    by (auto simp: split: if_splits)
  show ?thesis unfolding slots_ok_def slot_ok_def[symmetric] put_conn_sel a b by blast
qed

lemma heap_put:
  "heap_ok (put_conn p c s) \<longleftrightarrow> 0 < next_ptr (dc_world s) \<and> 0 < p \<and> p < next_ptr (dc_world s) \<and>
     dom (connections (dc_world s)) \<subseteq> {0<..<next_ptr (dc_world s)} \<and> (p \<in> dom (dc_peers s) \<longrightarrow> attached c) \<and>
     (\<forall>q st. dc_peers s q = Some st \<longrightarrow> q \<noteq> p \<longrightarrow> (\<exists>d. connections (dc_world s) q = Some d \<and> attached d))"
  (is "_ \<longleftrightarrow> ?r")
proof
  assume h: "heap_ok (put_conn p c s)"
  have "\<exists>d. ((connections (dc_world s))(p \<mapsto> c)) q = Some d \<and> attached d" if "dc_peers s q = Some st" for q st
    using h that by (auto simp: heap_ok_def simp del: fun_upd_apply)
  from this[of p] this have "p \<in> dom (dc_peers s) \<Longrightarrow> attached c"
    "\<And>q st. dc_peers s q = Some st \<Longrightarrow> q \<noteq> p \<Longrightarrow> \<exists>d. connections (dc_world s) q = Some d \<and> attached d"
    by fastforce+
  with h show ?r by (simp add: heap_ok_def)
qed (auto simp: heap_ok_def)

lemma quarantined_put:
  "quarantined X (put_conn p c s) \<longleftrightarrow> (p \<notin> X \<longrightarrow> key_of c \<in> blacklist (manager (dc_world s)) \<longrightarrow> pc_state c = Disconnected) \<and>
     quarantined (insert p X) s"
  by (auto simp: quarantined_def split: if_splits)

text \<open>What the invariant depends on.\<close>

lemma program_ok_cong:
  assumes "program_ok mx pf md X s" "dom (dc_peers s') \<subseteq> dom (dc_peers s)" "pm_bitfield (dc_pm s') = pm_bitfield (dc_pm s)"
    "connections (dc_world s') = connections (dc_world s)" "next_ptr (dc_world s') = next_ptr (dc_world s)"
    "manager (dc_world s') = manager (dc_world s)" "files (dc_world s') = files (dc_world s)"
    "printed (dc_world s') = printed (dc_world s)"
  shows "program_ok mx pf md X s'"
  using assms by (auto simp: program_defs has_piece_def)

text \<open>A connection may change as long as it keeps its address and callback and moves onward, but the state of
  a registered one stays.\<close>

lemma program_ok_conn:
  assumes "program_ok mx pf md X (put_conn p c s)" "key_of c' = key_of c" "pc_state c \<le> pc_state c'"
    "on_disconnect_cb c' = on_disconnect_cb c" "sys_only s s'"
    "pc_state c' = pc_state c \<and> on_message_cb c' = on_message_cb c \<or> p \<notin> dom (dc_peers s)"
  shows "program_ok mx pf md X (put_conn p c' s')"
proof -
  have st: "p \<in> dom (dc_peers s) \<Longrightarrow> attached c \<Longrightarrow> attached c'" "pc_state c = Disconnected \<Longrightarrow> pc_state c' = Disconnected"
    using assms(3,4,6) by (auto simp: antisym attached_def)
  note sel = sys_only_sel[OF assms(5)]
  have ok: "heap_ok (put_conn p c s)" "slots_ok mx (put_conn p c s)" "quarantined X (put_conn p c s)" "saved pf md (put_conn p c s)"
    using assms(1) by (simp_all add: program_ok_def)
  have "heap_ok (put_conn p c' s')"
    using ok(1) st(1) unfolding heap_put sel by blast
  moreover have "slots_ok mx (put_conn p c' s')"
  proof -
    have "slot_ok (manager (dc_world s)) p c" using ok(2) by (simp add: slots_put)
    then have "slot_ok (manager (dc_world s)) p c'" using st(2) assms(2,4) by (auto simp: slot_ok_def)
    with ok(2) show ?thesis unfolding slots_put sel assms(2) by blast
  qed
  moreover have "quarantined X (put_conn p c' s')"
    using ok(3) st(2) assms(2) unfolding quarantined_put quarantined_def[of "insert p X"] sel by auto
  moreover have "saved pf md (put_conn p c' s')" using ok(4) by (simp add: saved_def sel)
  ultimately show ?thesis by (simp add: program_ok_def)
qed

text \<open>The disconnect callbacks keep the invariant.\<close>

lemma unregister_world [simp]: "dc_world (unregister_peer p s) = dc_world s"
  "pm_bitfield (dc_pm (unregister_peer p s)) = pm_bitfield (dc_pm s)"
  by (auto simp: unregister_peer_def split: option.split)

lemma unregister_dom: "dom (dc_peers (unregister_peer p s)) \<subseteq> dom (dc_peers s)"
  by (auto simp: unregister_peer_def split: option.splits if_splits)

lemma program_ok_unregister: "program_ok mx pf md X (put_conn p c s) \<Longrightarrow> program_ok mx pf md X (put_conn p c (unregister_peer q s))"
  by (erule program_ok_cong) (simp_all add: unregister_dom)

lemma upd_manager_sel [simp]:
  "dc_pm (upd_manager f s) = dc_pm s" "dc_peers (upd_manager f s) = dc_peers s"
  "connections (dc_world (upd_manager f s)) = connections (dc_world s)" "next_ptr (dc_world (upd_manager f s)) = next_ptr (dc_world s)"
  "manager (dc_world (upd_manager f s)) = f (manager (dc_world s))" "files (dc_world (upd_manager f s)) = files (dc_world s)"
  "printed (dc_world (upd_manager f s)) = printed (dc_world s)"
  by (simp_all add: upd_manager_def upd_world_def)

lemma program_ok_erase:
  assumes ok: "program_ok mx pf md X (put_conn p c s)" and st: "pc_state c = Disconnected"
    and slot: "active_peers (manager (dc_world s)) (key_of c) = Some p"
  shows "program_ok mx pf md X (put_conn p c (upd_manager (\<lambda>m. m\<lparr>active_peers := (active_peers m)(key_of c := None)\<rparr>) s))"
proof -
  let ?s = "upd_manager (\<lambda>m. m\<lparr>active_peers := (active_peers m)(key_of c := None)\<rparr>) s"
  let ?a = "active_peers (manager (dc_world s))"
  have slots: "slots_ok mx (put_conn p c s)" using ok by (simp add: program_ok_def)
  have "card (dom (?a(key_of c := None))) \<le> max_connections (manager (dc_world s))" "finite (dom (?a(key_of c := None)))"
    "max_connections (manager (dc_world s)) = mx" "mx + 1 < 2 ^ 32"
    using slots card_Diff1_le[of "dom ?a" "key_of c"] by (auto simp: slots_ok_def)
  then have "slots_ok mx (put_conn p c ?s)"
    unfolding slots_put upd_manager_sel
  proof (intro conjI allI impI)
    fix key q
    assume a: "active_peers ((manager (dc_world s))\<lparr>active_peers := ?a(key_of c := None)\<rparr>) key = Some q" and "q \<noteq> p"
    then show "\<exists>d. connections (dc_world s) q = Some d \<and> key_of d = key"
      using slots by (simp add: slots_put split: if_splits)
  next
    fix key
    assume "active_peers ((manager (dc_world s))\<lparr>active_peers := ?a(key_of c := None)\<rparr>) key = Some p"
    then show "key_of c = key" using slots by (simp add: slots_put split: if_splits)
  next
    fix q d
    assume d: "connections (dc_world s) q = Some d" "q \<noteq> p"
    then have "slot_ok (manager (dc_world s)) q d" using slots by (simp add: slots_put)
    then show "slot_ok ((manager (dc_world s))\<lparr>active_peers := ?a(key_of c := None)\<rparr>) q d"
      using slot d(2) by (auto simp: slot_ok_def)
  next
    show "slot_ok ((manager (dc_world s))\<lparr>active_peers := ?a(key_of c := None)\<rparr>) p c"
      using slots st by (simp add: slots_put slot_ok_def)
  qed simp_all
  then show ?thesis using ok by (auto simp: program_ok_def heap_ok_def quarantined_def saved_def)
qed

definition holds :: "nat \<Rightarrow> ('g, 'i, 'o) Platform \<Rightarrow> TorrentMetadata \<Rightarrow> ptr set \<Rightarrow> ptr \<Rightarrow> engine_cb PeerConnection \<times> ('g, 'i, 'o) engine \<Rightarrow> bool" where
  "holds mx pf md X p cs \<longleftrightarrow> program_ok mx pf md X (put_conn p (fst cs) (snd cs))"

lemma holds_conn:
  "holds mx pf md X p (c, s) \<Longrightarrow> key_of c' = key_of c \<Longrightarrow> pc_state c \<le> pc_state c' \<Longrightarrow> on_disconnect_cb c' = on_disconnect_cb c \<Longrightarrow>
   sys_only s s' \<Longrightarrow> pc_state c' = pc_state c \<and> on_message_cb c' = on_message_cb c \<or> \<not> attached c \<Longrightarrow> holds mx pf md X p (c', s')"
  unfolding holds_def fst_conv snd_conv
  by (rule program_ok_conn) (auto simp: program_ok_def heap_put)

lemma holds_slot:
  "holds mx pf md X p (c, s) \<Longrightarrow> pc_state c \<noteq> Disconnected \<Longrightarrow> active_peers (manager (dc_world s)) (key_of c) = Some p"
  by (simp add: holds_def program_ok_def slots_put slot_ok_def)

lemma holds_key: "holds mx pf md X p (c, s) \<Longrightarrow> on_disconnect_cb c = Some (PmDisconnect key) \<Longrightarrow> key = key_of c"
  by (simp add: holds_def program_ok_def slots_put slot_ok_def)

lemma holds_unregister: "holds mx pf md X p (c, s) \<Longrightarrow> holds mx pf md X p (c, unregister_peer q s)"
  by (simp add: holds_def program_ok_unregister)

lemma sys_only_unregister: "sys_only s s' \<Longrightarrow> sys_only (unregister_peer p s) (unregister_peer p s')"
  unfolding sys_only_def upd_world_def
  by (elim exE, intro exI) (auto simp: unregister_peer_def split: option.split)

lemma holds_disconnected:
  assumes h: "holds mx pf md X p (c, s)" and "pc_state c \<noteq> Disconnected" and sys: "sys_only s s'"
    and c': "key_of c' = key_of c" "pc_state c' = Disconnected" "on_disconnect_cb c' = on_disconnect_cb c"
  shows "yields (holds mx pf md X p) (run_callback (run_disconnect p) (on_disconnect_cb c) CbDisconnect (c', s'))"
proof -
  have "0 < p" using h by (simp add: holds_def program_ok_def heap_put)
  then have un: "p \<notin> dom (dc_peers (unregister_peer p s))" by (simp add: unregister_sel)
  have left: "holds mx pf md X p (c', unregister_peer p s')"
    using program_ok_conn[OF holds_unregister[OF h, where q = p, unfolded holds_def fst_conv snd_conv] c'(1) _ c'(3) sys_only_unregister[OF sys]]
      un c'(2) by (simp add: holds_def)
  have stays: "holds mx pf md X p (c', s')" if "on_disconnect_cb c \<noteq> Some DcDisconnect"
    by (rule holds_conn[OF h c'(1) _ c'(3) sys]) (use that c'(2) in \<open>simp_all add: attached_def\<close>)
  have slot: "active_peers (manager (dc_world s')) (key_of c') = Some p"
    using holds_slot[OF assms(1,2)] c'(1) sys_only_sel(5)[OF sys] by simp
  have erased: "holds mx pf md X p (c', upd_manager (\<lambda>m. m\<lparr>active_peers := (active_peers m)(key_of c' := None)\<rparr>) (unregister_peer p s'))"
    using program_ok_erase[of mx pf md X p c' "unregister_peer p s'"] left slot c'(2) by (simp add: holds_def)
  show ?thesis
  proof (cases "on_disconnect_cb c")
    case (Some cb)
    have "cb = PmDisconnect key \<Longrightarrow> key = key_of c'" for key using holds_key[OF h] Some c'(1) by simp
    with left stays erased Some show ?thesis by (cases cb) (auto simp: run_callback_def)
  qed (use stays in \<open>simp add: run_callback_def\<close>)
qed

lemma key_of_simps [simp]:
  "key_of (c\<lparr>rx_buffer := rx\<rparr>) = key_of c" "key_of (c\<lparr>tx_buffer := tx\<rparr>) = key_of c" "key_of (c\<lparr>pc_state := st\<rparr>) = key_of c"
  "key_of (c\<lparr>pc_conn := conn\<rparr>) = key_of c" "key_of (c\<lparr>on_message_cb := cb\<rparr>) = key_of c" "key_of (c\<lparr>on_disconnect_cb := cb\<rparr>) = key_of c"
  "key_of (c\<lparr>on_handshake_cb := cb\<rparr>) = key_of c" "key_of (note_sent m c) = key_of c" "key_of (note_received m c) = key_of c"
  by (simp_all add: key_of_def) (cases m; simp)+

lemma note_cb [simp]: "on_disconnect_cb (note_sent m c) = on_disconnect_cb c" "on_disconnect_cb (note_received m c) = on_disconnect_cb c"
  "on_message_cb (note_sent m c) = on_message_cb c"
  by (cases m; simp)+

lemma state_le_Connecting: "Idle \<le> Connecting" "Connecting \<le> Handshaking" "Handshaking \<le> Active"
  by simp_all

interpretation held: connection_client "run_disconnect p" "peer_env pf p" "holds mx pf md X p"
  for mx and pf :: "('g, 'i, 'o) Platform" and md X p
proof
  fix c s status conn s'
  assume h: "holds mx pf md X p (c, s)" and idle: "pc_state c = Idle"
  { assume "connect_async (env_sock (peer_env pf p)) (pc_conn c) (pc_ip c) (pc_port c) s = (status, conn, s')"
    from connect_async_sys[OF this] show "holds mx pf md X p (c\<lparr>pc_state := Connecting, pc_conn := conn\<rparr>, s')"
      by (rule holds_conn[OF h, rotated 3]) (use idle in \<open>simp_all add: attached_def\<close>) }
  { assume "connect_async (env_sock (peer_env pf p)) (pc_conn c) (pc_ip c) (pc_port c) s = (ConnectError, conn, s')"
    from connect_async_sys[OF this] show "yields (holds mx pf md X p) (run_callback (run_disconnect p) (on_disconnect_cb c) CbDisconnect
        (c\<lparr>pc_conn := conn, pc_state := Disconnected\<rparr>, s'))"
      by (intro holds_disconnected[OF h]) (use idle in simp_all) }
qed (auto simp: run_disconnect_other intro!: holds_disconnected[OF _ _ sys_only_refl] elim!: holds_conn simp: attached_def)

section \<open>Calls out of the coordinator keep the invariant\<close>

lemma holds_start: "program_ok mx pf md X s \<Longrightarrow> connections (dc_world s) p = Some c \<Longrightarrow> holds mx pf md X p (c, s)"
  by (simp add: holds_def put_conn_same)

lemma engine_send_ok: "program_ok mx pf md X s \<Longrightarrow> yields (program_ok mx pf md X) (engine_send pf p m s)"
proof (cases "connections (dc_world s) p")
  case (Some c)
  assume "program_ok mx pf md X s"
  from holds_start[OF this Some] have "holds mx pf md X p (c, s)" .
  from held.send_message_J[OF this, of m] show ?thesis
    unfolding engine_send_def with_conn_def Some option.case
    by (rule yields_bindI) (auto simp: holds_def)
qed (simp add: engine_send_def with_conn_def)

text \<open>The disconnect callbacks leave the connection itself alone, so that it ends up disconnected.\<close>

lemma run_disconnect_conn: "yields (\<lambda>cs'. fst cs' = fst cs) (run_callback (run_disconnect p) cb CbDisconnect cs)"
  by (cases cs; cases cb; cases "the cb") (simp_all add: run_callback_def)

lemma disconnect_state: "yields (\<lambda>cs'. pc_state (fst cs') = Disconnected) (disconnect (run_disconnect p) env (c, s))"
  unfolding disconnect_def Let_def prod.case
  by (auto split: prod.split intro!: yields_mono[OF run_disconnect_conn])

lemma engine_disconnect_ok:
  assumes "program_ok mx pf md {p} s"
  shows "yields (program_ok mx pf md {}) (engine_disconnect pf p s)"
proof (cases "connections (dc_world s) p")
  case (Some c)
  have "program_ok mx pf md {} (put_conn p c s)" if "program_ok mx pf md {p} (put_conn p c s)" "pc_state c = Disconnected" for c s
    using that by (auto simp: program_ok_def quarantined_put)
  then show ?thesis
    unfolding engine_disconnect_def with_conn_def Some option.case
    by (intro yields_bindI[OF yields_conj[OF held.disconnect_J[OF holds_start[OF assms Some]] disconnect_state]])
      (auto simp: holds_def)
qed (simp add: engine_disconnect_def with_conn_def)

lemma program_ok_blacklist:
  assumes "program_ok mx pf md {} s"
  shows "program_ok mx pf md (set_option (active_peers (manager (dc_world s)) key))
    (upd_manager (\<lambda>m. m\<lparr>blacklist := insert key (blacklist m)\<rparr>) s)"
proof -
  have slot: "pc_state c \<noteq> Disconnected \<Longrightarrow> active_peers (manager (dc_world s)) (key_of c) = Some p"
    if "connections (dc_world s) p = Some c" for p c
    using assms that by (simp add: program_ok_def slots_ok_def)
  then have "quarantined (set_option (active_peers (manager (dc_world s)) key)) (upd_manager (\<lambda>m. m\<lparr>blacklist := insert key (blacklist m)\<rparr>) s)"
    using assms by (auto simp: quarantined_def program_ok_def)
  then show ?thesis using assms by (simp add: program_ok_def heap_ok_def slots_ok_def saved_def)
qed

lemma blacklist_peer_ok:
  assumes "program_ok mx pf md {} s"
  shows "yields (program_ok mx pf md {}) (blacklist_peer pf ip port s)"
  using program_ok_blacklist[OF assms, of "make_peer_key ip port"] engine_disconnect_ok
  by (auto simp: blacklist_peer_def Let_def split: option.split)

section \<open>A validated piece goes to disk\<close>

lemma piece_lengths_agree:
  assumes "layout_ok md" "piece_length md < 2 ^ 32" "i < length (piece_hashes md)"
  shows "get_piece_length md i = nat (disk_piece_size md i)"
proof -
  have "0 < disk_piece_size md i" "disk_piece_size md i < 2 ^ 32"
    using disk_piece_size_bounds[OF assms(1,3)] assms(2) by simp_all
  then have "cast_uint32 (disk_piece_size md i) = nat (disk_piece_size md i)" by (simp add: cast_uint32_def)
  then show ?thesis using assms(3) layout_casts[OF assms(1)]
    by (auto simp: get_piece_length_def disk_piece_size_def Let_def not_less)
qed

lemma verify_read:
  assumes "disk_ok resolve d fs" "i < n_pieces d"
  shows "verify_piece sha1 resolve d fs i = Inr True \<longleftrightarrow> (\<exists>data. read_piece resolve d fs i = Inr data \<and> sha1 data = piece_hashes (dio_metadata d) ! i)"
  using assms layout_casts(1)[of "dio_metadata d"]
  by (auto simp: verify_piece_def disk_ok_def read_at_def split: sum.split)

lemma has_piece_completed:
  assumes "pm_inv pm" "has_piece (piece_completed pm i) j"
  shows "has_piece pm j \<or> j = i"
  using assms by (auto simp: has_piece_def piece_completed_def erase_piece_def bf_has_elems bf_inv_set bf_elems_set pm_inv_def split: if_splits)

lemma program_ok_completed:
  assumes inv: "dc_inv md n s" and ok: "program_ok mx pf md {} s"
    and valid: "validate_piece (pf_sha1 pf) (dc_pm s) i = Inr True"
  shows "program_ok mx pf md {} (s\<lparr>dc_world := save_piece pf i (get_piece_data (dc_pm s) i) (dc_world s),
    dc_pm := piece_completed (dc_pm s) i\<rparr>)"
proof -
  let ?d = "pf_disk pf" and ?r = "pf_resolve pf" and ?fs = "files (dc_world s)" and ?sha1 = "pf_sha1 pf"
  have pm: "pm_inv (dc_pm s)" "pm_metadata (dc_pm s) = md" and n: "n = cast_size (num_pieces md)"
    using inv by (simp_all add: dc_inv_def pm_good_def)
  have md: "dio_metadata ?d = md" and len: "piece_length md < 2 ^ 32" and disk: "disk_ok ?r ?d ?fs"
    and hash: "\<And>j. has_piece (dc_pm s) j \<Longrightarrow> verify_piece ?sha1 ?r ?d ?fs j = Inr True"
    using ok by (simp_all add: program_ok_def saved_def)
  have lay: "layout_ok md" using disk md by (simp add: disk_ok_def)
  obtain st where st: "in_progress (dc_pm s) i = Some st" "i < length (piece_hashes md)" "?sha1 (ps_data st) = piece_hashes md ! i"
    using valid pm(2) by (auto simp: validate_piece_def read_at_def split: option.splits if_splits)
  have "length (ps_data st) = get_piece_length md i" using pm st(1) by (auto simp: pm_inv_def piece_ok_def)
  then have size: "length (ps_data st) = nat (disk_piece_size (dio_metadata ?d) i)"
    using piece_lengths_agree[OF lay len st(2)] md by simp
  have i: "i < n_pieces ?d" using st(2) md by simp
  obtain fs' where w: "write_piece ?r ?d ?fs i (ps_data st) = Inr fs'" using disk.put_total[OF disk i size] by blast
  note ok' = disk.put_inv[OF disk i size w]
  have "verify_piece ?sha1 ?r ?d fs' j = Inr True" if j: "has_piece (piece_completed (dc_pm s) i) j" for j
  proof (cases "j = i")
    case True
    then show ?thesis using verify_read[OF ok' i] disk.get_same[OF disk i size w] st(3) md by auto
  next
    case False
    with has_piece_completed[OF pm(1) j] have old: "has_piece (dc_pm s) j" by simp
    then have jn: "j < n_pieces ?d" using pm layout_casts(1)[OF lay] md by (auto simp: has_piece_def bf_has_bit pm_inv_def)
    show ?thesis using hash[OF old] disk.get_other[OF disk i size w jn False] verify_read[OF disk jn] verify_read[OF ok' jn] by simp
  qed
  moreover have "save_piece pf i (get_piece_data (dc_pm s) i) (dc_world s) = (dc_world s)\<lparr>files := fs'\<rparr>"
    by (simp add: save_piece_def get_piece_data_def st(1) w)
  ultimately show ?thesis using ok ok' md len by (simp add: program_ok_def heap_ok_def slots_ok_def quarantined_def saved_def)
qed

interpretation world: world_link "dc_env pf" md n "program_ok mx pf md {}"
  for mx and pf :: "('g, 'i, 'o) Platform" and md n
proof
  fix s s' :: "('g, 'i, 'o) engine" and p m cb i
  show "program_ok mx pf md {} s \<Longrightarrow> dom (dc_peers s') \<subseteq> dom (dc_peers s) \<Longrightarrow> pm_bitfield (dc_pm s') = pm_bitfield (dc_pm s) \<Longrightarrow>
      dc_world s' = dc_world s \<Longrightarrow> program_ok mx pf md {} s'"
    by (erule program_ok_cong) simp_all
  show "program_ok mx pf md {} s \<Longrightarrow> yields (program_ok mx pf md {}) (dc_send (dc_env pf) p m s)"
    by (simp add: dc_env_def engine_send_ok)
  show "program_ok mx pf md {} s \<Longrightarrow> on_peer_corrupted_cb (dc_env pf) = Some cb \<Longrightarrow> yields (program_ok mx pf md {}) (cb p s)"
    by (auto simp: dc_env_def peer_corrupted_def blacklist_peer_ok split: option.split)
  show "dc_inv md n s \<Longrightarrow> program_ok mx pf md {} s \<Longrightarrow> validate_piece (dc_sha1 (dc_env pf)) (dc_pm s) i = Inr True \<Longrightarrow>
      program_ok mx pf md {} ((completed_cb (dc_env pf) i s)\<lparr>dc_pm := piece_completed (dc_pm s) i\<rparr>)"
    using program_ok_completed[of md n s mx pf i] by (simp add: dc_env_def completed_cb_def)
qed

section \<open>Events of connections\<close>

definition engine_ok :: "nat \<Rightarrow> ('g, 'i, 'o) Platform \<Rightarrow> TorrentMetadata \<Rightarrow> nat \<Rightarrow> ('g, 'i, 'o) engine \<Rightarrow> bool" where
  "engine_ok mx pf md n s \<longleftrightarrow> dc_inv md n s \<and> program_ok mx pf md {} s"

definition sound :: "nat \<Rightarrow> ('g, 'i, 'o) Platform \<Rightarrow> TorrentMetadata \<Rightarrow> nat \<Rightarrow> ptr \<Rightarrow> engine_cb PeerConnection \<times> ('g, 'i, 'o) engine \<Rightarrow> bool" where
  "sound mx pf md n p cs \<longleftrightarrow> engine_ok mx pf md n (put_conn p (fst cs) (snd cs))"

lemma dc_inv_put_conn [simp]: "dc_inv md n (put_conn p c s) = dc_inv md n s"
  by (simp add: dc_inv_def)

lemma sound_iff: "sound mx pf md n p cs \<longleftrightarrow> dc_inv md n (snd cs) \<and> holds mx pf md {} p cs"
  by (simp add: sound_def engine_ok_def holds_def)

lemma engine_ok_yields: "yields (dc_inv md n) m \<Longrightarrow> yields (program_ok mx pf md {}) m \<Longrightarrow> yields (engine_ok mx pf md n) m"
  by (auto simp: yields_def engine_ok_def split: option.splits sum.splits)

lemma sound_conn:
  "sound mx pf md n p (c, s) \<Longrightarrow> key_of c' = key_of c \<Longrightarrow> pc_state c \<le> pc_state c' \<Longrightarrow> on_disconnect_cb c' = on_disconnect_cb c \<Longrightarrow>
   sys_only s s' \<Longrightarrow> pc_state c' = pc_state c \<and> on_message_cb c' = on_message_cb c \<or> \<not> attached c \<Longrightarrow> sound mx pf md n p (c', s')"
  unfolding sound_iff fst_conv snd_conv using holds_conn inv_core same_core_sys same_core_refl by blast

lemma sound_disconnected:
  assumes "sound mx pf md n p (c, s)" "pc_state c \<noteq> Disconnected" "sys_only s s'"
    "key_of c' = key_of c" "pc_state c' = Disconnected" "on_disconnect_cb c' = on_disconnect_cb c"
  shows "yields (sound mx pf md n p) (run_callback (run_disconnect p) (on_disconnect_cb c) CbDisconnect (c', s'))"
proof -
  have inv: "dc_inv md n s" and h: "holds mx pf md {} p (c, s)" using assms(1) by (simp_all add: sound_iff)
  have "same_core s s'" using same_core_sys[OF same_core_refl assms(3)] .
  from yields_conj[OF holds_disconnected[OF h assms(2-)] run_disconnect_alone[OF this assms(5), of p "on_disconnect_cb c"]]
  show ?thesis
    by (rule yields_mono) (use inv in \<open>auto simp: sound_iff left_alone_def intro: inv_core[rotated] inv_unregister\<close>)
qed

text \<open>The callbacks on disconnection are those that run inside \<^verbatim>\<open>send_message\<close>.\<close>

lemma run_callbacks_disconnect: "run_callback (run_callbacks pf p) cb CbDisconnect cs = run_callback (run_disconnect p) cb CbDisconnect cs"
  by (cases cb; cases "the cb") (simp_all add: run_callback_def)

lemma in_program_sound:
  assumes "yields (engine_ok mx pf md n) (f (put_conn p c s))"
  shows "yields (sound mx pf md n p) (in_program p f (c, s))"
  unfolding in_program_def fst_conv snd_conv
  by (rule yields_bindI[OF assms]) (auto simp: sound_def put_conn_same split: option.split)

lemma registered_card:
  assumes "program_ok mx pf md X s"
  shows "card (dom (dc_peers s)) \<le> max_connections (manager (dc_world s))"
proof -
  let ?key = "\<lambda>p. key_of (the (connections (dc_world s) p))" and ?a = "active_peers (manager (dc_world s))"
  have slot: "?a (?key p) = Some p" if "p \<in> dom (dc_peers s)" for p
    using that assms by (force simp: program_ok_def heap_ok_def slots_ok_def attached_def)
  have "inj_on ?key (dom (dc_peers s))" by (rule inj_onI) (metis slot option.inject)
  moreover have "?key ` dom (dc_peers s) \<subseteq> dom ?a" using slot by blast
  ultimately have "card (dom (dc_peers s)) \<le> card (dom ?a)"
    using assms by (intro card_inj_on_le) (auto simp: program_ok_def slots_ok_def)
  then show ?thesis using assms by (simp add: program_ok_def slots_ok_def)
qed

lemma register_sel:
  "dc_peers (register_peer env p s) = (if p = 0 then dc_peers s else (dc_peers s)(p \<mapsto>
     \<lparr>ds_bitfield = bitfield_empty (dc_num_pieces s), outstanding = [], active_piece = None\<rparr>))"
  "dc_pm (register_peer env p s) = dc_pm s"
  "dc_world (register_peer env p s) = (if p = 0 then dc_world s else dc_set_callbacks env p (dc_world s))"
  by (simp_all add: register_peer_def Let_def)

lemma register_ok:
  assumes ok: "engine_ok mx pf md n (put_conn p c s)" and active: "pc_state c = Active" and new: "p \<notin> dom (dc_peers s)"
  shows "engine_ok mx pf md n (register_peer (dc_env pf) p (put_conn p c s))"
proof -
  let ?c = "c\<lparr>on_message_cb := Some DcMessage, on_disconnect_cb := Some DcDisconnect\<rparr>"
  let ?s = "register_peer (dc_env pf) p (put_conn p c s)"
  have inv: "dc_inv md n (put_conn p c s)" and prog: "program_ok mx pf md {} (put_conn p c s)" using ok by (simp_all add: engine_ok_def)
  have p: "0 < p" using prog by (simp add: program_ok_def heap_put)
  have world: "dc_world ?s = dc_world (put_conn p ?c s)"
    using p by (simp add: register_sel dc_env_def) (simp add: put_conn_def upd_world_def)
  have "card (dom (dc_peers s)) + 1 < 2 ^ 32"
    using registered_card[OF prog] prog by (simp add: program_ok_def slots_put)
  then have "dc_inv md n ?s" using inv_register[OF inv, of p "dc_env pf"] new by auto
  moreover have "heap_ok ?s"
  proof -
    have "heap_ok (put_conn p c s)" using prog by (simp add: program_ok_def)
    then show ?thesis using p active unfolding heap_ok_def world by (auto simp: register_sel attached_def)
  qed
  moreover have "slots_ok mx ?s"
  proof -
    have "slots_ok mx (put_conn p c s)" using prog by (simp add: program_ok_def)
    then have "slots_ok mx (put_conn p ?c s)" unfolding slots_put by (simp add: slot_ok_def)
    then show ?thesis unfolding slots_ok_def world .
  qed
  moreover have "quarantined {} ?s"
  proof -
    have "quarantined {} (put_conn p c s)" using prog by (simp add: program_ok_def)
    then have "quarantined {} (put_conn p ?c s)" unfolding quarantined_put by simp
    then show ?thesis unfolding quarantined_def world .
  qed
  moreover have "saved pf md ?s" using prog by (simp add: program_ok_def saved_def world) (simp add: register_sel)
  ultimately show ?thesis by (simp add: engine_ok_def program_ok_def)
qed

lemma engine_send_sound: "engine_ok mx pf md n s \<Longrightarrow> yields (engine_ok mx pf md n) (engine_send pf p m s)"
proof -
  assume ok: "engine_ok mx pf md n s"
  have "yields (dc_inv md n) (dc_send (dc_env pf) p m s)" using ok by (intro eng.send_inv) (simp add: engine_ok_def)
  then have "yields (dc_inv md n) (engine_send pf p m s)" by (simp add: dc_env_def)
  from engine_ok_yields[OF this engine_send_ok] ok show ?thesis by (simp add: engine_ok_def)
qed

interpretation sounds: connection_client "run_callbacks pf p" "peer_env pf p" "sound mx pf md n p"
  for mx and pf :: "('g, 'i, 'o) Platform" and md n p
proof
  fix c :: "engine_cb PeerConnection" and s :: "('g, 'i, 'o) engine" and status conn s'
  assume h: "sound mx pf md n p (c, s)" and idle: "pc_state c = Idle"
  { assume "connect_async (env_sock (peer_env pf p)) (pc_conn c) (pc_ip c) (pc_port c) s = (status, conn, s')"
    from connect_async_sys[OF this] show "sound mx pf md n p (c\<lparr>pc_state := Connecting, pc_conn := conn\<rparr>, s')"
      by (rule sound_conn[OF h, rotated 3]) (use idle in \<open>simp_all add: attached_def\<close>) }
  { assume "connect_async (env_sock (peer_env pf p)) (pc_conn c) (pc_ip c) (pc_port c) s = (ConnectError, conn, s')"
    from connect_async_sys[OF this] show "yields (sound mx pf md n p) (run_callback (run_callbacks pf p) (on_disconnect_cb c) CbDisconnect
        (c\<lparr>pc_conn := conn, pc_state := Disconnected\<rparr>, s'))"
      unfolding run_callbacks_disconnect by (intro sound_disconnected[OF h]) (use idle in simp_all) }
next
  fix c :: "engine_cb PeerConnection" and s :: "('g, 'i, 'o) engine" and h rx
  assume sd: "sound mx pf md n p (c, s)" and hs: "pc_state c = Handshaking"
  let ?c = "c\<lparr>rx_buffer := rx, pc_state := Active\<rparr>"
  have new: "p \<notin> dom (dc_peers s)" using sd hs by (auto simp: sound_iff holds_def program_ok_def heap_put attached_def)
  have sd': "sound mx pf md n p (?c, s)" by (rule sound_conn[OF sd]) (use hs in \<open>simp_all add: attached_def\<close>)
  then have "engine_ok mx pf md n (register_peer (dc_env pf) p (put_conn p ?c s))"
    using new by (intro register_ok) (simp_all add: sound_def)
  then have "yields (engine_ok mx pf md n) (engine_send pf p InterestedMsg (register_peer (dc_env pf) p (put_conn p ?c s)))"
    by (rule engine_send_sound)
  from in_program_sound[where f = "\<lambda>s. engine_send pf p InterestedMsg (register_peer (dc_env pf) p s)", OF this] sd' show "yields (sound mx pf md n p) (run_callback (run_callbacks pf p) (on_handshake_cb c) (CbHandshake h) (?c, s))"
    by (cases "on_handshake_cb c"; cases "the (on_handshake_cb c)") (simp_all add: run_callback_def)
next
  fix c :: "engine_cb PeerConnection" and s :: "('g, 'i, 'o) engine" and m
  assume sd: "sound mx pf md n p (c, s)"
  then have "yields (engine_ok mx pf md n) (handle_peer_message (dc_env pf) p m (put_conn p c s))"
    by (intro engine_ok_yields eng.handle_inv world.handle_G[of md n]) (simp_all add: sound_def engine_ok_def)
  from in_program_sound[where f = "handle_peer_message (dc_env pf) p m", OF this] sd show "yields (sound mx pf md n p) (run_callback (run_callbacks pf p) (on_message_cb c) (CbMessage m) (c, s))"
    by (cases "on_message_cb c"; cases "the (on_message_cb c)") (simp_all add: run_callback_def)
qed (auto simp: run_callbacks_disconnect intro!: sound_disconnected[OF _ _ sys_only_refl] elim!: sound_conn simp: attached_def)

lemma with_conn_ok:
  assumes "engine_ok mx pf md n s" "\<And>c. sound mx pf md n p (c, s) \<Longrightarrow> yields (sound mx pf md n p) (f (c, s))"
  shows "yields (engine_ok mx pf md n) (with_conn p f s)"
proof (cases "connections (dc_world s) p")
  case (Some c)
  then have "sound mx pf md n p (c, s)" using assms(1) by (simp add: sound_def put_conn_same)
  from assms(2)[OF this] show ?thesis
    unfolding with_conn_def Some option.case by (rule yields_bindI) (auto simp: sound_def)
qed (simp add: with_conn_def)

lemma peer_events_ok: "engine_ok mx pf md n s \<Longrightarrow> yields (engine_ok mx pf md n) (peer_events pf p evs s)"
  unfolding peer_events_def by (intro with_conn_ok sounds.handle_events_J)

section \<open>New connections\<close>

lemma new_connection_ok:
  assumes ok: "engine_ok mx pf md n s" and room: "card (dom (active_peers (manager (dc_world s)))) < max_connections (manager (dc_world s))"
    and clean: "\<not> is_blacklisted (manager (dc_world s)) ip port" and free: "active_peers (manager (dc_world s)) (make_peer_key ip port) = None"
    and new: "new_connection ip port s = (p, s')"
  shows "engine_ok mx pf md n s'"
proof -
  let ?w = "dc_world s" and ?key = "make_peer_key ip port" and ?p = "next_ptr (dc_world s)"
  let ?a = "active_peers (manager ?w)"
  obtain c where s': "s' = s\<lparr>dc_world := ?w\<lparr>connections := (connections ?w)(?p \<mapsto> c), next_ptr := ?p + 1,
      manager := (manager ?w)\<lparr>active_peers := ?a(?key \<mapsto> ?p)\<rparr>\<rparr>\<rparr>"
    and c: "key_of c = ?key" "on_disconnect_cb c = Some (PmDisconnect ?key)"
    using new by (auto simp: new_connection_def Let_def key_of_def peer_connection_def)
  have heap: "heap_ok s" and slots: "slots_ok mx s" and q: "quarantined {} s" using ok by (simp_all add: engine_ok_def program_ok_def)
  have fresh: "?p \<notin> dom (connections ?w)" using heap by (auto simp: heap_ok_def)
  have "heap_ok s'" using heap fresh by (fastforce simp: heap_ok_def s')
  moreover have "slots_ok mx s'"
  proof -
    have old: "connections ?w r = Some d \<Longrightarrow> r \<noteq> ?p" for r d using fresh by auto
    have "card (dom (?a(?key \<mapsto> ?p))) \<le> max_connections (manager ?w)"
      using room free slots by (simp add: slots_ok_def domIff)
    moreover have "\<exists>d. ((connections ?w)(?p \<mapsto> c)) r = Some d \<and> key_of d = key" if "(?a(?key \<mapsto> ?p)) key = Some r" for key r
    proof (cases "key = ?key")
      case False
      then have "?a key = Some r" using that by simp
      then have "\<exists>d. connections ?w r = Some d \<and> key_of d = key" using slots by (simp add: slots_ok_def)
      with old show ?thesis by auto
    qed (use that c in auto)
    moreover have "slot_ok ((manager ?w)\<lparr>active_peers := ?a(?key \<mapsto> ?p)\<rparr>) r d" if "((connections ?w)(?p \<mapsto> c)) r = Some d" for r d
    proof (cases "r = ?p")
      case False
      then have "slot_ok (manager ?w) r d" using that slots by (simp add: slots_ok_def slot_ok_def)
      with free show ?thesis by (auto simp: slot_ok_def)
    qed (use that c in \<open>auto simp: slot_ok_def\<close>)
    ultimately show ?thesis using slots unfolding slots_ok_def slot_ok_def[symmetric] s' by simp
  qed
  moreover have "quarantined {} s'" using q clean c by (auto simp: quarantined_def s' is_blacklisted_def)
  moreover have "dc_inv md n s'" using ok by (intro inv_core[of s s']) (simp_all add: engine_ok_def s' same_core_def)
  moreover have "saved pf md s'" using ok by (simp add: engine_ok_def program_ok_def saved_def s')
  ultimately show ?thesis by (simp add: engine_ok_def program_ok_def)
qed

lemma connect_to_peer_ok:
  assumes "engine_ok mx pf md n s"
  shows "yields (engine_ok mx pf md n) (connect_to_peer pf ip port s)"
proof -
  obtain p s' where new: "new_connection ip port s = (p, s')" by fastforce
  have "yields (engine_ok mx pf md n) (with_conn p (connect (run_callbacks pf p) (peer_env pf p)) s')" if "engine_ok mx pf md n s'"
    using that by (intro with_conn_ok sounds.connect_J)
  with assms new_connection_ok[OF assms _ _ _ new] new show ?thesis by (auto simp: connect_to_peer_def Let_def)
qed

lemma add_peers_ok: "engine_ok mx pf md n s \<Longrightarrow> yields (engine_ok mx pf md n) (add_peers pf infos s)"
proof (induction infos arbitrary: s)
  case (Cons peer_info infos)
  have "yields (\<lambda>s'. yields (engine_ok mx pf md n) (add_peers pf infos s')) (connect_to_peer pf ip port s)" for ip port
    by (rule yields_mono[OF connect_to_peer_ok[OF Cons.prems] Cons.IH])
  with Cons show ?case by (simp add: Let_def split: option.split)
qed simp

end
