(* ===== verification/Config.thy ===== *)
theory Config
  imports Prelude Piece_Picker
begin

text \<open>
  Start-up: the command line (\<^verbatim>\<open>include/config.hpp\<close>, \<^verbatim>\<open>src/config.cpp\<close>), the peer ids
  (\<^verbatim>\<open>src/peer_id.cpp\<close> and \<^verbatim>\<open>src/main.cpp\<close>), the configuration of the logger (\<^verbatim>\<open>src/logger.cpp\<close>) and the manual peer of
  \<^verbatim>\<open>src/main.cpp\<close>.  Whether a path exists is the parameter \<open>exists\<close>, the random generators are the
  parameters \<open>draw\<close> and \<open>rand\<close>; the text of the usage message is not modelled.
\<close>

section \<open>Numbers\<close>

text \<open>\<^verbatim>\<open>std::stoi\<close>: leading white space, an optional sign and digits; the result is the number and how many
  characters were read.\<close>

datatype stoi_error = NoConversion | NotInRange

definition is_space :: "byte \<Rightarrow> bool" where
  "is_space b \<longleftrightarrow> b = 32 \<or> 9 \<le> b \<and> b \<le> 13"

definition stoi :: "bytes \<Rightarrow> stoi_error + int \<times> nat" where
  "stoi str =
     (let rest = dropWhile is_space str;
          neg = (rest \<noteq> [] \<and> hd rest = 45);
          rest = (if rest \<noteq> [] \<and> (hd rest = 45 \<or> hd rest = 43) then tl rest else rest);
          digits = takeWhile isdigit rest;
          v = (if neg then - int (dec_val 0 digits) else int (dec_val 0 digits)) in
      if digits = [] then Inl NoConversion
      else if v < - (2 ^ 31) \<or> v \<ge> 2 ^ 31 then Inl NotInRange
      else Inr (v, length str - length rest + length digits))"

section \<open>The command line\<close>

record AppConfig =
  torrent_path :: bytes
  output_dir :: bytes
  log_level :: bytes
  max_peers :: int
  cfg_peer :: bytes
  show_help :: bool

definition app_config :: AppConfig where
  "app_config = \<lparr>torrent_path = [], output_dir = ascii ''.'', log_level = ascii ''info'', max_peers = 50,
     cfg_peer = [], show_help = False\<rparr>"

datatype config_error =
    EmptyOutputDir | InvalidLogLevel bytes | EmptyMaxPeers | InvalidMaxPeers bytes | EmptyPeer
  | UnknownOption bytes | MultipleTorrents bytes bytes | MissingTorrent | TorrentNotFound bytes

text \<open>\<^verbatim>\<open>arg.rfind(prefix, 0) == 0\<close>.\<close>

definition starts_with :: "bytes \<Rightarrow> bytes \<Rightarrow> bool" where
  "starts_with p arg = (take (length p) arg = p)"

text \<open>One argument: the configuration so far and \<^verbatim>\<open>has_torrent_path\<close>.\<close>

definition parse_argument :: "bytes \<Rightarrow> AppConfig \<times> bool \<Rightarrow> config_error + AppConfig \<times> bool" where
  "parse_argument arg s =
     (let (config, has_torrent_path) = s in
      if arg = ascii ''--help'' \<or> arg = ascii ''-h'' then Inr (config\<lparr>show_help := True\<rparr>, has_torrent_path)
      else if starts_with (ascii ''--output-dir='') arg then
        (let val = drop 13 arg in
         if val = [] then Inl EmptyOutputDir else Inr (config\<lparr>output_dir := val\<rparr>, has_torrent_path))
      else if starts_with (ascii ''--log-level='') arg then
        (let val = drop 12 arg in
         if val \<noteq> ascii ''debug'' \<and> val \<noteq> ascii ''info'' \<and> val \<noteq> ascii ''warn'' \<and> val \<noteq> ascii ''error''
         then Inl (InvalidLogLevel val) else Inr (config\<lparr>log_level := val\<rparr>, has_torrent_path))
      else if starts_with (ascii ''--max-peers='') arg then
        (let val = drop 12 arg in
         if val = [] then Inl EmptyMaxPeers
         else case stoi val of
           Inl _ \<Rightarrow> Inl (InvalidMaxPeers val)
         | Inr (peers, processed) \<Rightarrow>
             if processed \<noteq> length val \<or> peers \<le> 0 then Inl (InvalidMaxPeers val)
             else Inr (config\<lparr>max_peers := peers\<rparr>, has_torrent_path))
      else if starts_with (ascii ''--peer='') arg then
        (let val = drop 7 arg in
         if val = [] then Inl EmptyPeer else Inr (config\<lparr>cfg_peer := val\<rparr>, has_torrent_path))
      else if starts_with (ascii ''-'') arg then Inl (UnknownOption arg)
      else if has_torrent_path then Inl (MultipleTorrents (torrent_path config) arg)
      else Inr (config\<lparr>torrent_path := arg\<rparr>, True))"

primrec parse_loop :: "bytes list \<Rightarrow> AppConfig \<times> bool \<Rightarrow> config_error + AppConfig \<times> bool" where
  "parse_loop [] s = Inr s"
| "parse_loop (arg # args) s = bindE (parse_argument arg s) (parse_loop args)"

definition parse_arguments :: "(bytes \<Rightarrow> bool) \<Rightarrow> bytes list \<Rightarrow> config_error + AppConfig" where
  "parse_arguments exists args =
     bindE (parse_loop args (app_config, False)) (\<lambda>(config, has_torrent_path).
       if \<not> show_help config then
         (if \<not> has_torrent_path then Inl MissingTorrent
          else if \<not> exists (torrent_path config) then Inl (TorrentNotFound (torrent_path config))
          else Inr config)
       else Inr config)"

section \<open>Peer ids\<close>

definition charset :: bytes where
  "charset = ascii ''0123456789ABCDEFGHIJKLMNOPQRSTUVWXYZabcdefghijklmnopqrstuvwxyz''"

text \<open>The loop over the random positions; \<open>pick\<close> is one random choice of an index.\<close>

primrec random_chars :: "('g \<Rightarrow> nat \<times> 'g) \<Rightarrow> nat \<Rightarrow> 'g \<Rightarrow> bytes \<times> 'g" where
  "random_chars pick 0 g = ([], g)"
| "random_chars pick (Suc k) g =
     (let (i, g) = pick g; (cs, g) = random_chars pick k g in (charset ! i # cs, g))"

text \<open>\<^verbatim>\<open>generate_peer_id\<close>, which draws from the distribution over 0 to 61, and the peer id that \<^verbatim>\<open>main\<close> makes
  itself from \<^verbatim>\<open>std::rand\<close>.\<close>

definition generate_peer_id :: "'g draw \<Rightarrow> 'g \<Rightarrow> bytes \<times> 'g" where
  "generate_peer_id draw g =
     (let (cs, g) = random_chars (\<lambda>g. draw g 62) 12 g in (ascii ''-DT0001-'' @ cs, g))"

definition main_peer_id :: "('o \<Rightarrow> nat \<times> 'o) \<Rightarrow> 'o \<Rightarrow> bytes \<times> 'o" where
  "main_peer_id rand x =
     (let (cs, x) = random_chars (\<lambda>x. let (r, x) = rand x in (r mod 62, x)) 12 x in (ascii ''-DT0001-'' @ cs, x))"

section \<open>Log levels\<close>

datatype level = LTrace | LDebug | LInfo | LWarn | LErr | LCritical

definition tolower :: "byte \<Rightarrow> byte" where
  "tolower b = (if 65 \<le> b \<and> b \<le> 90 then b + 32 else b)"

text \<open>The default logger of the logging library, as \<^verbatim>\<open>init_logger\<close> configures it: a coloured console and a file that is truncated,
  each with its pattern; messages from the flush level on are flushed at once.\<close>

datatype sink = ConsoleSink string | FileSink string bool string

record Logger =
  lg_name :: string
  lg_sinks :: "sink list"
  lg_flush_on :: level
  lg_level :: level

definition init_logger :: Logger where
  "init_logger =
     \<lparr>lg_name = ''p2p_engine'',
      lg_sinks =
        [ConsoleSink ''%^[%Y-%m-%d %H:%M:%S.%e] [%l] %v%$'', FileSink ''logs/app_log.txt'' True ''[%Y-%m-%d %H:%M:%S.%e] [%l] %v''],
      lg_flush_on = LWarn, lg_level = LInfo\<rparr>"

text \<open>An unknown name keeps the current level.\<close>

definition set_log_level :: "bytes \<Rightarrow> Logger \<Rightarrow> Logger" where
  "set_log_level lvl lg =
     (let normalised = map tolower lvl in
      if normalised = ascii ''trace'' then lg\<lparr>lg_level := LTrace\<rparr>
      else if normalised = ascii ''debug'' then lg\<lparr>lg_level := LDebug\<rparr>
      else if normalised = ascii ''info'' then lg\<lparr>lg_level := LInfo\<rparr>
      else if normalised = ascii ''warn'' then lg\<lparr>lg_level := LWarn\<rparr>
      else if normalised = ascii ''error'' then lg\<lparr>lg_level := LErr\<rparr>
      else if normalised = ascii ''critical'' then lg\<lparr>lg_level := LCritical\<rparr>
      else lg)"

text \<open>The case of the name does not matter, and nothing but the level changes.\<close>

lemma tolower_idem: "tolower (tolower b) = tolower b"
proof (cases "65 \<le> b \<and> b \<le> 90")
  case True
  then have "90 < b + 32" unfolding word_le_nat_alt word_less_nat_alt by (simp add: unat_word_ariths)
  then have "\<not> b + 32 \<le> 90" by simp
  then show ?thesis using True by (simp add: tolower_def)
qed (auto simp: tolower_def)

lemma set_log_level_case: "set_log_level (map tolower lvl) lg = set_log_level lvl lg"
  by (simp add: set_log_level_def comp_def tolower_idem)

lemma set_log_level_only: "(set_log_level lvl lg)\<lparr>lg_level := l\<rparr> = lg\<lparr>lg_level := l\<rparr>"
  by (simp add: set_log_level_def Let_def)

section \<open>The manual peer\<close>

datatype manual_error = NoColon | BadPort bytes

definition manual_peer :: "bytes \<Rightarrow> manual_error + bytes \<times> u16" where
  "manual_peer peer =
     (let ip = takeWhile (\<lambda>b. b \<noteq> 58) peer; port_str = drop (length ip + 1) peer in
      if length ip = length peer then Inl NoColon
      else case stoi port_str of
        Inl _ \<Rightarrow> Inl (BadPort port_str)
      | Inr (port, _) \<Rightarrow> if port \<le> 0 \<or> port > 65535 then Inl (BadPort port_str) else Inr (ip, of_int port))"

section \<open>What an accepted command line says\<close>

text \<open>The values given to an option, in order.\<close>

definition option_values :: "bytes \<Rightarrow> bytes list \<Rightarrow> bytes list" where
  "option_values p args = map (drop (length p)) (filter (prefix p) args)"

abbreviation (input) positionals :: "bytes list \<Rightarrow> bytes list" where
  "positionals args \<equiv> filter (\<lambda>arg. \<not> prefix (ascii ''-'') arg) args"

text \<open>The later of two settings wins.\<close>

definition configured :: "bytes list \<Rightarrow> AppConfig" where
  "configured args =
     \<lparr>torrent_path = last ([] # positionals args),
      output_dir = last (ascii ''.'' # option_values (ascii ''--output-dir='') args),
      log_level = last (ascii ''info'' # option_values (ascii ''--log-level='') args),
      max_peers = last (50 # map (\<lambda>v. fst (projr (stoi v))) (option_values (ascii ''--max-peers='') args)),
      cfg_peer = last ([] # option_values (ascii ''--peer='') args),
      show_help = (ascii ''--help'' \<in> set args \<or> ascii ''-h'' \<in> set args)\<rparr>"

definition acceptable :: "bytes \<Rightarrow> bool" where
  "acceptable arg \<longleftrightarrow> \<not> prefix (ascii ''-'') arg \<or> arg \<in> {ascii ''--help'', ascii ''-h''} \<or>
     (\<exists>v. v \<noteq> [] \<and> (arg = ascii ''--output-dir='' @ v \<or> arg = ascii ''--peer='' @ v)) \<or>
     (\<exists>v\<in>{ascii ''debug'', ascii ''info'', ascii ''warn'', ascii ''error''}. arg = ascii ''--log-level='' @ v) \<or>
     (\<exists>v n. arg = ascii ''--max-peers='' @ v \<and> stoi v = Inr (n, length v) \<and> 0 < n)"

lemma starts_with_prefix [simp]: "starts_with p arg \<longleftrightarrow> prefix p arg"
  by (auto simp: starts_with_def prefix_def) (metis append_take_drop_id)

lemma option_values_append [simp]:
  "option_values p [] = []"
  "option_values p (args @ [a]) = option_values p args @ (if prefix p a then [drop (length p) a] else [])"
  by (simp_all add: option_values_def)

lemma parse_loop_append: "parse_loop (args @ [a]) s = bindE (parse_loop args s) (parse_argument a)"
  by (induction args arbitrary: s) (auto simp: bindE_def split: sum.split)

lemma last_snoc_if: "last (x # (xs @ (if b then [y] else []))) = (if b then y else last (x # xs))"
  by simp

lemma configured_snoc:
  "configured (args @ [a]) = (configured args)
     \<lparr>torrent_path := (if prefix (ascii ''-'') a then torrent_path (configured args) else a),
      output_dir := (if prefix (ascii ''--output-dir='') a then drop 13 a else output_dir (configured args)),
      log_level := (if prefix (ascii ''--log-level='') a then drop 12 a else log_level (configured args)),
      max_peers := (if prefix (ascii ''--max-peers='') a then fst (projr (stoi (drop 12 a))) else max_peers (configured args)),
      cfg_peer := (if prefix (ascii ''--peer='') a then drop 7 a else cfg_peer (configured args)),
      show_help := (show_help (configured args) \<or> a = ascii ''--help'' \<or> a = ascii ''-h'')\<rparr>"
proof -
  have len: "length (ascii ''--output-dir='') = 13" "length (ascii ''--log-level='') = 12" "length (ascii ''--max-peers='') = 12"
    "length (ascii ''--peer='') = 7"
    by simp_all
  show ?thesis unfolding configured_def option_values_append len by (auto simp del: ascii_simps)
qed

lemma parse_argument_step:
  "parse_argument a (configured args, positionals args \<noteq> []) = Inr (cfg, has) \<longleftrightarrow>
     acceptable a \<and> (prefix (ascii ''-'') a \<or> positionals args = []) \<and> cfg = configured (args @ [a]) \<and>
     has = (positionals (args @ [a]) \<noteq> [])"
proof -
  consider "a = ascii ''--help'' \<or> a = ascii ''-h''" | v where "a = ascii ''--output-dir='' @ v" | v where "a = ascii ''--log-level='' @ v"
    | v where "a = ascii ''--max-peers='' @ v" | v where "a = ascii ''--peer='' @ v"
    | "\<not> (a = ascii ''--help'' \<or> a = ascii ''-h'')" "\<not> prefix (ascii ''--output-dir='') a" "\<not> prefix (ascii ''--log-level='') a"
      "\<not> prefix (ascii ''--max-peers='') a" "\<not> prefix (ascii ''--peer='') a"
    unfolding prefix_def by blast
  then show ?thesis
  proof cases
    case 1
    then show ?thesis by (elim disjE) (auto simp: parse_argument_def configured_snoc acceptable_def)
  next
    case (2 v)
    then show ?thesis by (auto simp: parse_argument_def configured_snoc acceptable_def Let_def)
  next
    case (3 v)
    then show ?thesis by (auto simp: parse_argument_def configured_snoc acceptable_def Let_def)
  next
    case (4 v)
    then show ?thesis
      by (auto simp: parse_argument_def configured_snoc acceptable_def Let_def stoi_def split: sum.splits prod.splits if_splits)
  next
    case (5 v)
    then show ?thesis by (auto simp: parse_argument_def configured_snoc acceptable_def Let_def)
  next
    case 6
    then show ?thesis by (auto simp: parse_argument_def configured_snoc acceptable_def Let_def prefix_def)
  qed
qed

lemma parse_loop_iff:
  "parse_loop args (app_config, False) = Inr (cfg, has) \<longleftrightarrow>
     (\<forall>a\<in>set args. acceptable a) \<and> length (positionals args) \<le> 1 \<and> cfg = configured args \<and> has = (positionals args \<noteq> [])"
proof (induction args arbitrary: cfg has rule: rev_induct)
  case Nil
  show ?case by (auto simp: configured_def app_config_def)
next
  case (snoc a args)
  show ?case
  proof (cases "(\<forall>a\<in>set args. acceptable a) \<and> length (positionals args) \<le> 1")
    case True
    then have "parse_loop args (app_config, False) = Inr (configured args, positionals args \<noteq> [])" using snoc.IH by blast
    then have eq: "parse_loop (args @ [a]) (app_config, False) = parse_argument a (configured args, positionals args \<noteq> [])"
      by (simp only: parse_loop_append bindE_simps)
    show ?thesis unfolding eq parse_argument_step using True by (cases "positionals args") auto
  next
    case False
    then have "parse_loop args (app_config, False) \<noteq> Inr r" for r
      using snoc.IH[of "fst r" "snd r"] by (cases r) (auto simp del: ascii_simps)
    then obtain e where "parse_loop args (app_config, False) = Inl e" by (cases "parse_loop args (app_config, False)") auto
    then show ?thesis using False by (auto simp: parse_loop_append)
  qed
qed

lemma stoi_bounds: "stoi v = Inr (n, k) \<Longrightarrow> - (2 ^ 31) \<le> n \<and> n < 2 ^ 31"
  unfolding stoi_def Let_def by (auto split: if_splits)

lemma last_in: "last (x # xs) = x \<or> last (x # xs) \<in> set xs"
  by auto

lemma configured_max_peers:
  assumes "\<forall>a\<in>set args. acceptable a"
  shows "0 < max_peers (configured args)" "max_peers (configured args) < 2 ^ 31"
proof -
  have "0 < fst (projr (stoi v)) \<and> fst (projr (stoi v)) < 2 ^ 31" if v: "v \<in> set (option_values (ascii ''--max-peers='') args)" for v
  proof -
    obtain a where "a \<in> set args" "a = ascii ''--max-peers='' @ v" using v by (auto simp: option_values_def prefix_def)
    with assms have "acceptable (ascii ''--max-peers='' @ v)" by auto
    then obtain n k where "stoi v = Inr (n, k)" "0 < n" by (auto simp: acceptable_def)
    then show ?thesis using stoi_bounds[of v n k] by simp
  qed
  then show "0 < max_peers (configured args)" "max_peers (configured args) < 2 ^ 31"
    using last_in[of 50 "map (\<lambda>v. fst (projr (stoi v))) (option_values (ascii ''--max-peers='') args)"]
    by (auto simp: configured_def simp del: last.simps)
qed

lemma parse_arguments_bounds:
  assumes "parse_arguments exists args = Inr cfg"
  shows "0 < max_peers cfg" "max_peers cfg < 2 ^ 31"
  using assms configured_max_peers[of args] by (auto simp: parse_arguments_def bindE_Inr_iff parse_loop_iff split: if_splits)

section \<open>Random characters\<close>

lemma random_chars_set:
  assumes "\<forall>g. fst (pick g) < 62"
  shows "length (fst (random_chars pick k g)) = k \<and> set (fst (random_chars pick k g)) \<subseteq> set charset"
proof (induction k arbitrary: g)
  case (Suc k)
  have "length charset = 62" by (simp add: charset_def)
  then have "charset ! fst (pick g) \<in> set charset" using assms by (intro nth_mem) simp
  with Suc show ?case by (simp add: split_beta Let_def)
qed simp

section \<open>Correctness\<close>

text \<open>C25: the command line is accepted exactly when every argument is a path or a known option with a valid
  value, there is at most one path, and, unless help is asked for, there is one and it exists; the
  configuration then has the last value given to each option, and the defaults elsewhere.\<close>

theorem parse_arguments_iff:
  "parse_arguments exists args = Inr cfg \<longleftrightarrow>
     (\<forall>a\<in>set args. acceptable a) \<and> length (filter (\<lambda>arg. \<not> prefix (ascii ''-'') arg) args) \<le> 1 \<and> cfg = configured args \<and>
     (show_help cfg \<or> (\<exists>path. filter (\<lambda>arg. \<not> prefix (ascii ''-'') arg) args = [path] \<and> exists path))"
proof -
  have one: "length xs \<le> 1 \<Longrightarrow> (xs \<noteq> [] \<and> ex (last ([] # xs))) \<longleftrightarrow> (\<exists>x. xs = [x] \<and> ex x)" for xs :: "bytes list" and ex
    by (cases xs) auto
  have abs: "(\<exists>has. (A \<and> B \<and> cfg = c \<and> has = D) \<and> (show_help cfg \<or> has \<and> exists (torrent_path cfg))) \<longleftrightarrow>
      A \<and> B \<and> cfg = c \<and> (show_help cfg \<or> D \<and> exists (torrent_path c))" for A B D c
    by auto
  have path: "torrent_path (configured args) = last ([] # positionals args)" by (simp add: configured_def)
  have "parse_arguments exists args = Inr cfg \<longleftrightarrow> (\<exists>has. parse_loop args (app_config, False) = Inr (cfg, has) \<and>
      (show_help cfg \<or> has \<and> exists (torrent_path cfg)))"
    by (cases "parse_loop args (app_config, False)") (auto simp: parse_arguments_def split: if_splits)
  also have "\<dots> \<longleftrightarrow> (\<forall>a\<in>set args. acceptable a) \<and> length (positionals args) \<le> 1 \<and> cfg = configured args \<and>
      (show_help cfg \<or> positionals args \<noteq> [] \<and> exists (last ([] # positionals args)))"
    unfolding parse_loop_iff path[symmetric] by (rule abs)
  also have "\<dots> \<longleftrightarrow> (\<forall>a\<in>set args. acceptable a) \<and> length (positionals args) \<le> 1 \<and> cfg = configured args \<and>
      (show_help cfg \<or> (\<exists>path. positionals args = [path] \<and> exists path))"
    using one[of "positionals args" "exists"] by argo
  finally show ?thesis .
qed

lemma stoi_9: "stoi (ascii ''9'') = Inr (9, 1)"
  by (simp add: stoi_def is_space_def isdigit_def digit_val_def)

theorem parse_arguments_iff_witness:
  "parse_arguments (\<lambda>path. path = ascii ''t'') [ascii ''--max-peers=9'', ascii ''t''] =
     Inr (app_config\<lparr>torrent_path := ascii ''t'', max_peers := 9\<rparr>)"
proof -
  have "acceptable (ascii ''--max-peers='' @ ascii ''9'')"
    unfolding acceptable_def by (intro disjI2 exI[of _ "ascii ''9''"] exI[of _ 9] conjI refl) (use stoi_9 in simp_all)
  moreover have "acceptable (ascii ''t'')" by (simp add: acceptable_def)
  ultimately show ?thesis
    using parse_arguments_iff[of "\<lambda>path. path = ascii ''t''" "[ascii ''--max-peers=9'', ascii ''t'']" "app_config\<lparr>torrent_path := ascii ''t'', max_peers := 9\<rparr>"] stoi_9
    by (simp add: configured_def app_config_def option_values_def)
qed



text \<open>An address and a port from 1 to 65535, joined with a colon, are read back from the option for a
  manual peer.\<close>

theorem manual_peer_roundtrip:
  assumes "58 \<notin> set ip" "port \<noteq> 0"
  shows "manual_peer (ip @ [58] @ to_string_nat (unat port)) = Inr (ip, port)"
proof -
  let ?s = "to_string_nat (unat port)"
  have d: "isdigit (hd ?s)" "\<forall>b\<in>set ?s. isdigit b" by (simp_all add: to_string_nat_set)
  have nd: "\<not> is_space b \<and> b \<noteq> 45 \<and> b \<noteq> 43" if "isdigit b" for b
    using that by (auto simp: isdigit_def is_space_def word_le_nat_alt)
  have u: "unat port < 2 ^ 16" "uint port < 2 ^ 16" using unat_less_pow[of port] unsigned_less[where ?'a = int, of port] by simp_all
  have tw: "takeWhile isdigit ?s = ?s" using d(2) by (simp add: takeWhile_eq_all_conv)
  have "dropWhile is_space ?s = ?s" using nd[OF d(1)] by (cases ?s) auto
  then have "stoi ?s = Inr (int (unat port), length ?s)"
    using nd[OF d(1)] u by (simp add: stoi_def tw Let_def not_less order_trans[OF _ unsigned_greater_eq])
  moreover have "takeWhile (\<lambda>b. b \<noteq> 58) (ip @ [58] @ ?s) = ip" using assms(1) by (subst takeWhile_append2) auto
  moreover have "0 < unat port" using assms(2) by (simp add: unat_gt_0)
  moreover have "uint port \<noteq> 0" using assms(2) by (simp add: unsigned_eq_0_iff)
  ultimately show ?thesis using u by (simp add: manual_peer_def)
qed

end
