(* ===== verification/Client_Program.thy ===== *)
theory Client_Program
  imports Engine Config
begin

text \<open>
  The program itself (\<^verbatim>\<open>src/main.cpp\<close>): start-up, the two timers that watch for the interrupt signal and
  render the progress, and the event loop that runs connections and timers until it is
  shut down, the exit code and the destructors of the components.  The percentages, the speed and the bar of the progress line are floating-point numbers and text
  and are not modelled; the numbers they are made of are.  Log messages are left out.
\<close>

section \<open>The machine\<close>

text \<open>The system calls, libraries and choices of the language that the program runs on.  \<open>mc_interrupted\<close> is the flag that the
  signal handler sets.\<close>

record ('g, 'i, 'o) Machine =
  mc_sock :: "'o Sockets"
  mc_epoll :: "'o Epoll"
  mc_net :: "'o Net"
  mc_sha1 :: "bytes \<Rightarrow> bytes"
  mc_seed :: 'g
  mc_draw :: "'g draw"
  mc_rand :: "'o \<Rightarrow> nat \<times> 'o"
  mc_order :: "(ptr \<rightharpoonup> PeerState) \<Rightarrow> ptr list"
  mc_manager_order :: "(bytes \<rightharpoonup> ptr) \<Rightarrow> bytes list"
  mc_heap_top :: "engine_timer Timer list \<Rightarrow> nat"
  mc_exists :: "bytes \<Rightarrow> bool"
  mc_open :: "bytes \<Rightarrow> bytes option"
  mc_resolve :: "bytes \<Rightarrow> 'i"
  mc_creatable :: "bytes \<Rightarrow> bool"
  mc_max_size :: nat
  mc_big_endian :: bool
  mc_stack :: "bytes \<times> bytes"
  mc_interrupted :: "'o \<Rightarrow> bool"

text \<open>The components that \<^verbatim>\<open>main\<close> creates and that do not change.\<close>

record ('g, 'i, 'o) Client =
  cl_machine :: "('g, 'i, 'o) Machine"
  cl_metadata :: TorrentMetadata
  cl_tracker :: TrackerClient
  cl_disk :: DiskIOManager

definition platform :: "('g, 'i, 'o) Client \<Rightarrow> ('g, 'i, 'o) Platform" where
  "platform cl =
     (let mc = cl_machine cl in
      \<lparr>pf_sock = mc_sock mc, pf_epoll = mc_epoll mc, pf_sha1 = mc_sha1 mc, pf_draw = mc_draw mc, pf_order = mc_order mc,
       pf_manager_order = mc_manager_order mc, pf_resolve = mc_resolve mc, pf_disk = cl_disk cl\<rparr>)"

definition set_loop :: "(ptr, engine_timer) EventLoop \<Rightarrow> ('g, 'i, 'o) engine \<Rightarrow> ('g, 'i, 'o) engine" where
  "set_loop l s = upd_world (\<lambda>w. w\<lparr>loop := l\<rparr>) s"

definition set_timer :: "('g, 'i, 'o) Client \<Rightarrow> int \<Rightarrow> engine_timer \<Rightarrow> ('g, 'i, 'o) engine \<Rightarrow> ('g, 'i, 'o) engine" where
  "set_timer cl delay cb s =
     (let (_, l, x) = register_timer (mc_epoll (cl_machine cl)) (loop (dc_world s)) delay (Some cb) (os (dc_world s)) in
      upd_world (\<lambda>w. w\<lparr>loop := l, os := x\<rparr>) s)"

definition tracker_announce ::
  "('g, 'i, 'o) Client \<Rightarrow> u64 \<Rightarrow> u64 \<Rightarrow> u64 \<Rightarrow> bytes \<Rightarrow> ('g, 'i, 'o) engine \<Rightarrow>
     (tracker_error + TrackerResponse) \<times> ('g, 'i, 'o) engine" where
  "tracker_announce cl uploaded downloaded lft event s =
     (let mc = cl_machine cl in
      with_os (announce (mc_big_endian mc) (fst (mc_stack mc)) (snd (mc_stack mc)) (mc_net mc) (cl_tracker cl)
        6881 uploaded downloaded lft (Some event)) s)"

definition say :: "Output \<Rightarrow> ('g, 'i, 'o) engine \<Rightarrow> ('g, 'i, 'o) engine" where
  "say out s = upd_world (\<lambda>w. w\<lparr>printed := printed w @ [out]\<rparr>) s"

section \<open>Timers\<close>

definition check_shutdown :: "('g, 'i, 'o) Client \<Rightarrow> ('g, 'i, 'o) engine \<Rightarrow> ('g, 'i, 'o) engine" where
  "check_shutdown cl s =
     (if mc_interrupted (cl_machine cl) (os (dc_world s)) then set_loop (shutdown (loop (dc_world s))) s
      else set_timer cl 250 CheckShutdown s)"

text \<open>Unsigned 64-bit arithmetic, written out.\<close>

definition get_downloaded_bytes :: "PieceManager \<Rightarrow> TorrentMetadata \<Rightarrow> nat" where
  "get_downloaded_bytes pm meta =
     fold (\<lambda>i tot.
       if has_piece pm i then
         (tot + (if i = cast_size (num_pieces meta - 1)
                 then cast_size (total_length meta - (num_pieces meta - 1) * piece_length meta)
                 else cast_size (piece_length meta))) mod 2 ^ 64
       else tot) [0..<cast_size (num_pieces meta)] 0"

primrec validate_on_disk :: "(nat \<Rightarrow> mem_error + bool) \<Rightarrow> nat list \<Rightarrow> bool \<Rightarrow> mem_error + bool" where
  "validate_on_disk verify [] all_ok = Inr all_ok"
| "validate_on_disk verify (i # is) all_ok = bindE (verify i) (\<lambda>ok. validate_on_disk verify is (all_ok \<and> ok))"

definition progress_line :: "('g, 'i, 'o) Client \<Rightarrow> nat \<Rightarrow> ('g, 'i, 'o) engine \<Rightarrow> Output" where
  "progress_line cl current_bytes s =
     (let bytes_this_sec = (if current_bytes > last_bytes (dc_world s) then current_bytes - last_bytes (dc_world s) else 0);
          bytes_left = cast_size (total_length (cl_metadata cl) - int current_bytes);
          eta_secs = bytes_left div bytes_this_sec in
      ProgressLine (bf_count (pm_bitfield (dc_pm s))) bytes_this_sec
        (established_connection_count (platform cl) (dc_world s))
        (if bytes_this_sec > 0 then Some (eta_secs div 60, eta_secs mod 60) else None))"

definition render_progress :: "('g, 'i, 'o) Client \<Rightarrow> ('g, 'i, 'o) engine \<Rightarrow> ('g, 'i, 'o) engine effect" where
  "render_progress cl s =
     (let pf = platform cl; n = cast_size (num_pieces (cl_metadata cl));
          current_bytes = get_downloaded_bytes (dc_pm s) (cl_metadata cl);
          line = progress_line cl current_bytes s;
          s = say line (upd_world (\<lambda>w. w\<lparr>last_bytes := current_bytes\<rparr>) s) in
      if bf_count (pm_bitfield (dc_pm s)) = n then
        bindR (lift_mem (validate_on_disk
            (verify_piece (pf_sha1 pf) (pf_resolve pf) (pf_disk pf) (files (dc_world s))) [0..<n] True)) (\<lambda>all_ok.
        let s = say (DiskValidation all_ok) s;
            (_, s) = tracker_announce cl (of_nat current_bytes) 0 0 (ascii ''completed'') s in
        returns (set_loop (shutdown (loop (dc_world s))) s))
      else returns (set_timer cl 1000 RenderProgress s))"

section \<open>The event loop\<close>

text \<open>The loop of the program runs on its own copy of the event loop: a callback finds the loop in the
  state of the program and leaves it there.\<close>

definition engine_epoll :: "('g, 'i, 'o) Client \<Rightarrow> ('g, 'i, 'o) engine Epoll" where
  "engine_epoll cl =
     (let ep = mc_epoll (cl_machine cl) in
      \<lparr>epoll_add = \<lambda>fd evs. with_os (epoll_add ep fd evs), epoll_mod = \<lambda>fd evs. with_os (epoll_mod ep fd evs),
       epoll_del = \<lambda>fd s. snd (with_os (\<lambda>x. ((), epoll_del ep fd x)) s), epoll_wait = \<lambda>t. with_os (epoll_wait ep t),
       steady_now = with_os (steady_now ep), hires_now = with_os (hires_now ep)\<rparr>)"

definition on_loop ::
  "(('g, 'i, 'o) engine \<Rightarrow> ('g, 'i, 'o) engine effect) \<Rightarrow> (ptr, engine_timer, ('g, 'i, 'o) engine) loop_runner" where
  "on_loop f ls = bindR (f (set_loop (fst ls) (snd ls))) (\<lambda>s. returns (loop (dc_world s), s))"

fun timer_callback :: "('g, 'i, 'o) Client \<Rightarrow> engine_timer \<Rightarrow> ('g, 'i, 'o) engine \<Rightarrow> ('g, 'i, 'o) engine effect" where
  "timer_callback cl CheckShutdown s = returns (check_shutdown cl s)"
| "timer_callback cl RenderProgress s = render_progress cl s"

definition run_client :: "('g, 'i, 'o) Client \<Rightarrow> ('g, 'i, 'o) engine \<Rightarrow> ('g, 'i, 'o) engine effect" where
  "run_client cl s =
     bindR (run (mc_heap_top (cl_machine cl)) (engine_epoll cl) (\<lambda>cb. on_loop (timer_callback cl cb))
         (\<lambda>p fd evs. on_loop (peer_events (platform cl) p evs)) (loop (dc_world s), s)) (\<lambda>(l, s).
     returns (set_loop l s))"

section \<open>Start-up\<close>

definition client :: "('g, 'i, 'o) Machine \<Rightarrow> AppConfig \<Rightarrow> TorrentMetadata \<Rightarrow> bytes \<Rightarrow> ('g, 'i, 'o) Client" where
  "client mc cfg md our_peer_id =
     \<lparr>cl_machine = mc, cl_metadata = md, cl_tracker = \<lparr>tc_torrent = md, tc_peer_id = our_peer_id\<rparr>,
      cl_disk = \<lparr>base_path = output_dir cfg, dio_metadata = md\<rparr>\<rparr>"

definition components :: "('g, 'i, 'o) Machine \<Rightarrow> AppConfig \<Rightarrow> TorrentMetadata \<Rightarrow> bytes \<Rightarrow> 'i fs \<Rightarrow> 'o \<Rightarrow> ('g, 'i, 'o) engine" where
  "components mc cfg md our_peer_id fs x =
     (let n = cast_size (num_pieces md) in
      download_coordinator (piece_manager md) (piece_picker n (mc_seed mc)) n
        \<lparr>connections = Map.empty, next_ptr = 1,
         manager = peer_manager (info_hash md) our_peer_id (cast_size (max_peers cfg)),
         loop = event_loop, files = fs, last_bytes = 0, printed = [], os = x\<rparr>)"

text \<open>The first announce: the peers of a tracker that answered without a failure reason.\<close>

definition discover :: "('g, 'i, 'o) Client \<Rightarrow> ('g, 'i, 'o) engine \<Rightarrow> PeerInfo list option \<times> ('g, 'i, 'o) engine" where
  "discover cl s =
     (let (r, s) = tracker_announce cl 0 0 (of_int (total_length (cl_metadata cl))) (ascii ''started'') s in
      (case r of Inl _ \<Rightarrow> None | Inr res \<Rightarrow> if failure_reason res \<noteq> [] then None else Some (peers res), s))"

datatype 's outcome = Exit nat | Finished 's

text \<open>From the first timer on.\<close>

definition launch ::
  "('g, 'i, 'o) Client \<Rightarrow> AppConfig \<Rightarrow> PeerInfo list option \<Rightarrow> ('g, 'i, 'o) engine \<Rightarrow> ('g, 'i, 'o) engine outcome effect" where
  "launch cl cfg found s =
     (let pf = platform cl; s = set_timer cl 250 CheckShutdown s in
      bindR (case found of None \<Rightarrow> returns s | Some infos \<Rightarrow> add_peers pf infos s) (\<lambda>s.
      case (if cfg_peer cfg = [] then Inr None else bindE (manual_peer (cfg_peer cfg)) (\<lambda>a. Inr (Some a))) of
        Inl _ \<Rightarrow> returns (Exit 1)
      | Inr manual \<Rightarrow>
          bindR (case manual of None \<Rightarrow> returns s | Some (ip, port) \<Rightarrow> connect_to_peer pf ip port s) (\<lambda>s.
          bindR (run_client cl (set_timer cl 1000 RenderProgress s)) (\<lambda>s.
          returns (Finished (say (LatencyReport (latency_percentiles (loop (dc_world s)))) s))))))"

definition program_main :: "('g, 'i, 'o) Machine \<Rightarrow> bytes list \<Rightarrow> 'i fs \<Rightarrow> 'o \<Rightarrow> ('g, 'i, 'o) engine outcome effect" where
  "program_main mc args fs x =
     (case parse_arguments (mc_exists mc) args of
        Inl _ \<Rightarrow> returns (Exit 1)
      | Inr cfg \<Rightarrow>
          if show_help cfg then returns (Exit 0)
          else case mc_open mc (torrent_path cfg) of
            None \<Rightarrow> returns (Exit 1)
          | Some buffer \<Rightarrow>
              (case from_bencode (mc_sha1 mc) buffer of
                 Inl e \<Rightarrow> if e = DivisionByZero \<or> e = SignedOverflow then Some (Inl BadArithmetic) else returns (Exit 1)
               | Inr md \<Rightarrow>
                   let (our_peer_id, x) = main_peer_id (mc_rand mc) x; cl = client mc cfg md our_peer_id in
                   (case preallocate_files (mc_resolve mc) (mc_creatable mc) (mc_max_size mc) (cl_disk cl) fs of
                      Inl _ \<Rightarrow> returns (Exit 1)
                    | Inr fs \<Rightarrow>
                        let (found, s) = discover cl (components mc cfg md our_peer_id fs x) in
                        if found = None \<and> cfg_peer cfg = [] then returns (Exit 1)
                        else launch cl cfg found s)))"

text \<open>The exit code is 0 after the loop has ended, whether or not the download is complete.\<close>

definition exit_code :: "'s outcome \<Rightarrow> nat" where
  "exit_code r = (case r of Exit code \<Rightarrow> code | Finished s \<Rightarrow> 0)"

text \<open>The objects of \<^verbatim>\<open>main\<close> go in the opposite order of their creation: first the coordinator with its table of peers, then the
  peer manager, and the connections of its table with it.\<close>

definition leave_main :: "('g, 'i, 'o) Platform \<Rightarrow> ('g, 'i, 'o) engine \<Rightarrow> ('g, 'i, 'o) engine effect" where
  "leave_main pf s =
     (let peers = active_peers (manager (dc_world s)) in
      bindR (destroy_peer_manager pf (s\<lparr>dc_peers := Map.empty\<rparr>))
        (destroy_connections pf (List.map_filter peers (pf_manager_order pf peers))))"

section \<open>What the program keeps\<close>

abbreviation (input) n_pieces_of :: "('g, 'i, 'o) Client \<Rightarrow> nat" where
  "n_pieces_of cl \<equiv> cast_size (num_pieces (cl_metadata cl))"

definition client_ok :: "nat \<Rightarrow> ('g, 'i, 'o) Client \<Rightarrow> ('g, 'i, 'o) engine \<Rightarrow> bool" where
  "client_ok mx cl s \<longleftrightarrow> engine_ok mx (platform cl) (cl_metadata cl) (n_pieces_of cl) s"

lemma engine_ok_cong:
  assumes "engine_ok mx pf md n s" "same_core s s'" "connections (dc_world s') = connections (dc_world s)"
    "next_ptr (dc_world s') = next_ptr (dc_world s)" "manager (dc_world s') = manager (dc_world s)"
    "files (dc_world s') = files (dc_world s)" "DiskValidation False \<notin> set (printed (dc_world s'))"
  shows "engine_ok mx pf md n s'"
proof -
  have "heap_ok s'" "slots_ok mx s'" "quarantined {} s'" "saved pf md s'"
    using assms by (simp_all add: engine_ok_def program_defs same_core_def)
  then show ?thesis using assms inv_core[OF assms(2)] by (simp add: engine_ok_def program_ok_def)
qed

lemma client_ok_printed: "client_ok mx cl s \<Longrightarrow> DiskValidation False \<notin> set (printed (dc_world s))"
  by (simp add: client_ok_def engine_ok_def program_ok_def saved_def)

lemma client_ok_sys:
  assumes "client_ok mx cl s" "sys_only s s'"
  shows "client_ok mx cl s'"
  using assms(1) client_ok_printed[OF assms(1)] unfolding client_ok_def
  by (intro engine_ok_cong[of _ _ _ _ s s']) (simp_all add: sys_only_sel[OF assms(2)] same_core_sys[OF same_core_refl assms(2)])

lemma set_loop_sys: "sys_only s (set_loop l s)"
  unfolding sys_only_def set_loop_def upd_world_def by (intro exI[of _ l] exI[of _ "os (dc_world s)"]) simp

lemma set_timer_sys: "sys_only s (set_timer cl delay cb s)"
  by (auto simp: set_timer_def sys_only_def split: prod.split)

lemma announce_sys: "tracker_announce cl up down lft event s = (r, s') \<Longrightarrow> sys_only s s'"
  using with_os_sys[of s] by (metis tracker_announce_def snd_conv)

lemma client_ok_say:
  assumes "client_ok mx cl s" "out \<noteq> DiskValidation False"
  shows "client_ok mx cl (say out (upd_world (\<lambda>w. w\<lparr>last_bytes := b\<rparr>) s))" "client_ok mx cl (say out s)"
  using assms client_ok_printed[OF assms(1)]
  by (auto simp: client_ok_def say_def upd_world_def same_core_def elim!: engine_ok_cong)

lemma client_ok_ops:
  assumes "client_ok mx cl s"
  shows "yields (client_ok mx cl) (peer_events (platform cl) p evs s)" "yields (client_ok mx cl) (add_peers (platform cl) infos s)"
    "yields (client_ok mx cl) (connect_to_peer (platform cl) ip port s)"
  using assms by (simp_all add: client_ok_def[abs_def] peer_events_ok add_peers_ok connect_to_peer_ok)

section \<open>The progress timer\<close>

lemma validate_on_disk_all: "(\<And>i. i \<in> set is \<Longrightarrow> verify i = Inr True) \<Longrightarrow> validate_on_disk verify is b = Inr b"
  by (induction "is" arbitrary: b) auto

lemma client_ok_all_verified:
  assumes "client_ok mx cl s" "bf_count (pm_bitfield (dc_pm s)) = n_pieces_of cl" "i < n_pieces_of cl"
  shows "verify_piece (mc_sha1 (cl_machine cl)) (mc_resolve (cl_machine cl)) (cl_disk cl) (files (dc_world s)) i = Inr True"
proof -
  have "pm_inv (dc_pm s)" "pm_metadata (dc_pm s) = cl_metadata cl"
    using assms(1) by (simp_all add: client_ok_def engine_ok_def dc_inv_def pm_good_def)
  then have "has_piece (dc_pm s) i"
    using assms(2,3) bitset.size_full[of "pm_bitfield (dc_pm s)"] by (simp add: pm_inv_def has_piece_def)
  then show ?thesis using assms(1) by (simp add: client_ok_def engine_ok_def program_ok_def saved_def platform_def Let_def)
qed

lemma render_progress_ok:
  assumes "client_ok mx cl s"
  shows "\<exists>s'. render_progress cl s = returns s' \<and> client_ok mx cl s'"
proof -
  let ?b = "get_downloaded_bytes (dc_pm s) (cl_metadata cl)"
  let ?s = "say (progress_line cl ?b s) (upd_world (\<lambda>w. w\<lparr>last_bytes := ?b\<rparr>) s)"
  have s: "client_ok mx cl ?s" by (rule client_ok_say[OF assms]) (simp add: progress_line_def Let_def)
  have pm: "dc_pm ?s = dc_pm s" by (simp add: say_def upd_world_def)
  show ?thesis
  proof (cases "bf_count (pm_bitfield (dc_pm ?s)) = n_pieces_of cl")
    case True
    let ?s1 = "say (DiskValidation True) ?s"
    obtain r s2 where an: "tracker_announce cl (of_nat ?b) 0 0 (ascii ''completed'') ?s1 = (r, s2)" by fastforce
    have "client_ok mx cl s2" by (rule client_ok_sys[OF client_ok_say(2)[OF s] announce_sys[OF an]]) simp
    then have "client_ok mx cl (set_loop (shutdown (loop (dc_world s2))) s2)" by (rule client_ok_sys[OF _ set_loop_sys])
    moreover have "validate_on_disk (verify_piece (mc_sha1 (cl_machine cl)) (mc_resolve (cl_machine cl)) (cl_disk cl) (files (dc_world ?s)))
        [0..<n_pieces_of cl] True = Inr True"
      by (rule validate_on_disk_all) (simp add: client_ok_all_verified[OF s True])
    ultimately show ?thesis using True an by (simp add: render_progress_def Let_def platform_def)
  next
    case False
    then show ?thesis using client_ok_sys[OF s set_timer_sys] by (simp add: render_progress_def Let_def)
  qed
qed

lemma timer_callback_ok: "client_ok mx cl s \<Longrightarrow> \<exists>s'. timer_callback cl cb s = returns s' \<and> client_ok mx cl s'"
  by (cases cb) (auto simp: check_shutdown_def render_progress_ok intro: client_ok_sys set_loop_sys set_timer_sys)

section \<open>The loop\<close>

lemma on_loop_ok:
  assumes "client_ok mx cl s" "\<And>s. client_ok mx cl s \<Longrightarrow> yields (client_ok mx cl) (f s)"
  shows "yields (\<lambda>ls. client_ok mx cl (snd ls)) (on_loop f (l, s))"
  unfolding on_loop_def using assms(2)[OF client_ok_sys[OF assms(1) set_loop_sys]] by simp

interpretation client: loop_client "engine_epoll cl" "\<lambda>cb. on_loop (timer_callback cl cb)"
    "\<lambda>p fd evs. on_loop (peer_events (platform cl) p evs)" "\<lambda>ls. client_ok mx cl (snd ls)"
  for mx and cl :: "('g, 'i, 'o) Client"
proof
  fix l l' :: "(ptr, engine_timer) EventLoop" and s :: "('g, 'i, 'o) engine" and t cb p fd evs
  assume "client_ok mx cl (snd (l, s))"
  then have ok: "client_ok mx cl s" by simp
  note sys = client_ok_sys[OF ok]
  show "client_ok mx cl (snd (l', s))" "client_ok mx cl (snd (l, snd (steady_now (engine_epoll cl) s)))"
    "client_ok mx cl (snd (l, snd (hires_now (engine_epoll cl) s)))" "client_ok mx cl (snd (l, snd (epoll_wait (engine_epoll cl) t s)))"
    using ok sys by (simp_all add: engine_epoll_def Let_def)
  show "yields (\<lambda>ls. client_ok mx cl (snd ls)) (on_loop (timer_callback cl cb) (l, s))"
    by (rule on_loop_ok[OF ok]) (use timer_callback_ok[of mx cl _ cb] in fastforce)
  show "yields (\<lambda>ls. client_ok mx cl (snd ls)) (on_loop (peer_events (platform cl) p evs) (l, s))"
    by (rule on_loop_ok[OF ok]) (rule client_ok_ops)
qed

lemma run_client_ok: "client_ok mx cl s \<Longrightarrow> yields (client_ok mx cl) (run_client cl s)"
  unfolding run_client_def
  by (rule yields_bindI[OF client.run_J]) (auto intro: client_ok_sys[OF _ set_loop_sys])

section \<open>Start-up\<close>

lemma preallocate_loop_success:
  "preallocate_loop resolve creatable max_size d fis fs = Inr fs' \<Longrightarrow>
     \<forall>f\<in>set fis. creatable (get_full_path d (fi_path f)) \<and> cast_size (fi_length f) \<le> max_size"
  by (induction fis arbitrary: fs) (auto simp: Let_def not_less split: if_splits)

text \<open>What the torrent has to promise beyond what \<^verbatim>\<open>from_bencode\<close> tests: positive sizes within the ranges of the
  types, and files that are different files.\<close>

definition sane_torrent :: "('g, 'i, 'o) Client \<Rightarrow> bool" where
  "sane_torrent cl \<longleftrightarrow> (let md = cl_metadata cl in 0 < piece_length md \<and> piece_length md < 2 ^ 32 \<and> 0 < total_length md \<and>
     length (piece_hashes md) < 2 ^ 31 \<and> (\<forall>f\<in>set (md_files md). 0 \<le> fi_length f \<and> fi_length f < 2 ^ 63) \<and>
     distinct (map (file_id (mc_resolve (cl_machine cl)) (cl_disk cl)) (md_files md)))"

lemma preallocate_disk_ok:
  assumes "from_bencode sha1 data = Inr (cl_metadata cl)" "dio_metadata (cl_disk cl) = cl_metadata cl" "sane_torrent cl"
    "preallocate_files (mc_resolve (cl_machine cl)) creatable max_size (cl_disk cl) fs = Inr fs'" "max_size < 2 ^ 64"
  shows "disk_ok (mc_resolve (cl_machine cl)) (cl_disk cl) fs'"
proof -
  let ?md = "cl_metadata cl"
  have files: "\<forall>f\<in>set (md_files ?md). 0 \<le> fi_length f \<and> fi_length f < 2 ^ 63" using assms(3) by (simp add: sane_torrent_def Let_def)
  have "\<forall>f\<in>set (md_files ?md). creatable (get_full_path (cl_disk cl) (fi_path f)) \<and> cast_size (fi_length f) \<le> max_size"
    using assms(2,4) by (auto simp: preallocate_files_def dest: preallocate_loop_success)
  with files have "\<forall>f\<in>set (md_files ?md). creatable (get_full_path (cl_disk cl) (fi_path f)) \<and> 0 \<le> fi_length f \<and> fi_length f \<le> int max_size"
    by (fastforce simp: cast_size_def nat_le_iff)
  from preallocate_loop_allocated[OF _ this assms(5), of "mc_resolve (cl_machine cl)" fs] assms(2-4)
  have "allocated (mc_resolve (cl_machine cl)) (cl_disk cl) (md_files ?md) fs'"
    by (auto simp: preallocate_files_def sane_torrent_def Let_def)
  moreover have "layout_ok ?md" using assms(1,3) by (intro from_bencode_layout_ok) (simp_all add: sane_torrent_def Let_def)
  ultimately show ?thesis using assms(2) by (simp add: disk_ok_def)
qed

lemma client_sel [simp]:
  "cl_machine (client mc cfg md i) = mc" "cl_metadata (client mc cfg md i) = md" "dio_metadata (cl_disk (client mc cfg md i)) = md"
  "cl_disk (client mc cfg md i) = \<lparr>base_path = output_dir cfg, dio_metadata = md\<rparr>"
  by (simp_all add: client_def)

lemma components_ok:
  assumes "disk_ok (mc_resolve mc) (cl_disk (client mc cfg md our_id)) fs" "piece_length md < 2 ^ 32" "0 < max_peers cfg" "max_peers cfg < 2 ^ 31"
  shows "client_ok (cast_size (max_peers cfg)) (client mc cfg md our_id) (components mc cfg md our_id fs x)"
proof -
  let ?s = "components mc cfg md our_id fs x" and ?n = "cast_size (num_pieces md)"
  have lay: "layout_ok md" using assms(1) by (simp add: disk_ok_def)
  have n: "?n \<le> 2 ^ 32" using layout_casts(1)[OF lay] lay by (simp add: layout_ok_def)
  have w: "dc_peers ?s = Map.empty" "connections (dc_world ?s) = Map.empty" "next_ptr (dc_world ?s) = 1"
    "active_peers (manager (dc_world ?s)) = Map.empty" "max_connections (manager (dc_world ?s)) = cast_size (max_peers cfg)"
    "blacklist (manager (dc_world ?s)) = {}" "files (dc_world ?s) = fs" "printed (dc_world ?s) = []"
    "pm_bitfield (dc_pm ?s) = bitfield_empty ?n"
    by (simp_all add: components_def Let_def download_coordinator_def peer_manager_def piece_manager_def)
  have "dc_inv md ?n ?s" using dc_inv_start[OF refl n] by (simp add: components_def Let_def)
  moreover have "cast_size (max_peers cfg) + 1 < 2 ^ 32" using assms(3,4) by (simp add: cast_size_def)
  moreover have "\<not> has_piece (dc_pm ?s) i" for i by (simp add: has_piece_def w bitset.mem_empty)
  ultimately show ?thesis
    using assms(1,2) by (simp add: client_ok_def engine_ok_def program_ok_def heap_ok_def slots_ok_def quarantined_def saved_def w platform_def Let_def)
qed

lemma discover_sys: "discover cl s = (found, s') \<Longrightarrow> sys_only s s'"
  unfolding discover_def by (auto split: prod.splits dest: announce_sys)

lemma launch_ok:
  assumes "client_ok mx cl s"
  shows "yields (\<lambda>r. case r of Exit code \<Rightarrow> True | Finished s' \<Rightarrow> client_ok mx cl s') (launch cl cfg found s)"
proof -
  let ?Q = "\<lambda>r. case r of Exit code \<Rightarrow> True | Finished s' \<Rightarrow> client_ok mx cl s'"
  have run: "yields ?Q (bindR (run_client cl (set_timer cl 1000 RenderProgress s)) (\<lambda>s.
      returns (Finished (say (LatencyReport (latency_percentiles (loop (dc_world s)))) s))))"
    if "client_ok mx cl s" for s
    by (rule yields_bindI[OF run_client_ok[OF client_ok_sys[OF that set_timer_sys]]]) (simp add: client_ok_say)
  have connect: "yields ?Q (bindR (case manual of None \<Rightarrow> returns s | Some (ip, port) \<Rightarrow> connect_to_peer (platform cl) ip port s) (\<lambda>s.
      bindR (run_client cl (set_timer cl 1000 RenderProgress s)) (\<lambda>s.
      returns (Finished (say (LatencyReport (latency_percentiles (loop (dc_world s)))) s)))))" if "client_ok mx cl s" for s manual
    by (rule yields_bindI[of "client_ok mx cl"])
      (use that run in \<open>auto simp: client_ok_ops simp del: yields_simps(6) split: option.split\<close>)
  have ok: "client_ok mx cl (set_timer cl 250 CheckShutdown s)" by (rule client_ok_sys[OF assms set_timer_sys])
  have "yields (client_ok mx cl) (case found of None \<Rightarrow> returns (set_timer cl 250 CheckShutdown s)
      | Some infos \<Rightarrow> add_peers (platform cl) infos (set_timer cl 250 CheckShutdown s))"
    using ok by (simp add: client_ok_ops split: option.split)
  then show ?thesis
    unfolding launch_def Let_def
    by (rule yields_bindI) (use connect[of _ None] connect in \<open>auto split: sum.split\<close>)
qed

lemma program_main_ok:
  assumes "parse_arguments (mc_exists mc) args = Inr cfg" "mc_open mc (torrent_path cfg) = Some buffer"
    "from_bencode (mc_sha1 mc) buffer = Inr md" "sane_torrent (client mc cfg md [])" "mc_max_size mc < 2 ^ 64"
    "program_main mc args fs x = returns (Finished s)"
  shows "client_ok (cast_size (max_peers cfg)) (client mc cfg md (fst (main_peer_id (mc_rand mc) x))) s"
proof -
  obtain our_id x' where id: "main_peer_id (mc_rand mc) x = (our_id, x')" by fastforce
  let ?cl = "client mc cfg md our_id"
  have sane: "sane_torrent ?cl" using assms(4) by (simp add: sane_torrent_def)
  have "\<exists>fs' found s'. preallocate_files (mc_resolve mc) (mc_creatable mc) (mc_max_size mc) (cl_disk ?cl) fs = Inr fs' \<and>
      discover ?cl (components mc cfg md our_id fs' x') = (found, s') \<and> launch ?cl cfg found s' = returns (Finished s)"
    using assms(1-3,6) id by (auto simp: program_main_def Let_def split: if_splits sum.splits prod.splits)
  then obtain fs' found s' where pre: "preallocate_files (mc_resolve mc) (mc_creatable mc) (mc_max_size mc) (cl_disk ?cl) fs = Inr fs'"
    and disc: "discover ?cl (components mc cfg md our_id fs' x') = (found, s')" and la: "launch ?cl cfg found s' = returns (Finished s)"
    by blast
  have "disk_ok (mc_resolve mc) (cl_disk ?cl) fs'"
    using preallocate_disk_ok[of "mc_sha1 mc" buffer ?cl "mc_creatable mc" "mc_max_size mc" fs fs'] assms(3,5) sane pre by simp
  then have "client_ok (cast_size (max_peers cfg)) ?cl (components mc cfg md our_id fs' x')"
    using sane parse_arguments_bounds[OF assms(1)] by (intro components_ok) (simp_all add: sane_torrent_def)
  then have "client_ok (cast_size (max_peers cfg)) ?cl s'" by (rule client_ok_sys[OF _ discover_sys[OF disc]])
  from launch_ok[OF this, of cfg found] show ?thesis by (simp add: la id)
qed

section \<open>Downloaded bytes\<close>

lemma fold_add_mod:
  fixes f :: "nat \<Rightarrow> nat"
  assumes "acc + (\<Sum>i\<leftarrow>is. if P i then f i else 0) < M"
  shows "fold (\<lambda>i tot. if P i then (tot + f i) mod M else tot) is acc = acc + (\<Sum>i\<leftarrow>is. if P i then f i else 0)"
  using assms
proof (induction "is" arbitrary: acc)
  case (Cons i "is")
  show ?case
  proof (cases "P i")
    case True
    then have "(acc + f i) mod M = acc + f i" using Cons.prems by simp
    with Cons.IH[of "acc + f i"] Cons.prems True show ?thesis by simp
  qed (use Cons in simp)
qed simp

lemma downloaded_sum:
  assumes lay: "layout_ok md" and len: "piece_length md < 2 ^ 32" "total_length md < 2 ^ 63"
    and pm: "pm_inv pm" "pm_metadata pm = md"
  shows "get_downloaded_bytes pm md = (\<Sum>i | has_piece pm i. get_piece_length md i)"
    "(\<Sum>i | has_piece pm i. get_piece_length md i) \<le> nat (total_length md)"
    "bf_count (pm_bitfield pm) = cast_size (num_pieces md) \<Longrightarrow> (\<Sum>i | has_piece pm i. get_piece_length md i) = nat (total_length md)"
proof -
  let ?n = "length (piece_hashes md)" and ?f = "get_piece_length md"
  have n: "cast_size (num_pieces md) = ?n" by (rule layout_casts(1)[OF lay])
  have total: "(\<Sum>i<?n. ?f i) = nat (total_length md)"
    using lay len unfolding layout_ok_def by (elim conjE, intro piece_lengths_sum) auto
  have sub: "{i. has_piece pm i} \<subseteq> {..<?n}" using pm n by (auto simp: has_piece_def bf_has_bit pm_inv_def)
  then show le: "(\<Sum>i | has_piece pm i. ?f i) \<le> nat (total_length md)"
    unfolding total[symmetric] by (intro sum_mono2) auto
  have cast: "(if i = cast_size (num_pieces md - 1) then cast_size (total_length md - (num_pieces md - 1) * piece_length md)
      else cast_size (piece_length md)) = ?f i" if "i < ?n" for i
  proof -
    have "cast_size (disk_piece_size md i) = nat (disk_piece_size md i)"
      using disk_piece_size_bounds[OF lay that] len(1) by (simp add: cast_size_def)
    then show ?thesis using piece_lengths_agree[OF lay len(1) that] by (simp add: disk_piece_size_def split: if_splits)
  qed
  have "fold (\<lambda>i tot. if has_piece pm i then (tot + (if i = cast_size (num_pieces md - 1)
        then cast_size (total_length md - (num_pieces md - 1) * piece_length md) else cast_size (piece_length md))) mod 2 ^ 64 else tot) [0..<?n] 0 =
      fold (\<lambda>i tot. if has_piece pm i then (tot + ?f i) mod 2 ^ 64 else tot) [0..<?n] 0"
    by (rule fold_cong[OF refl refl], subst cast) simp_all
  moreover have sum: "(\<Sum>i\<leftarrow>[0..<?n]. if has_piece pm i then ?f i else 0) = (\<Sum>i | has_piece pm i. ?f i)"
    unfolding interv_sum_list_conv_sum_set_nat by (rule sum.mono_neutral_cong_right) (use sub in auto)
  moreover have "nat (total_length md) < 2 ^ 64" using len(2) by simp
  ultimately show "get_downloaded_bytes pm md = (\<Sum>i | has_piece pm i. ?f i)"
    using le fold_add_mod[of 0 "has_piece pm" ?f "[0..<?n]" "2 ^ 64"] by (simp add: get_downloaded_bytes_def n)
  assume "bf_count (pm_bitfield pm) = cast_size (num_pieces md)"
  then have "{i. has_piece pm i} = {..<?n}"
    using sub bitset.size_full[of "pm_bitfield pm"] pm n by (auto simp: pm_inv_def has_piece_def)
  then show "(\<Sum>i | has_piece pm i. ?f i) = nat (total_length md)" using total by simp
qed

end
