(* ===== verification/Engine_Progress.thy ===== *)
theory Engine_Progress
  imports Client_Program
begin

text \<open>
  What the running program achieves and where it fails: sending ends when the system makes progress, so that
  filling the request pipeline ends; a corrupt piece leads to a use after free; the slot of a peer
  that was connected is never given back.  The steps that the program can take are the relation \<open>client_step\<close>.
\<close>

section \<open>Steps\<close>

inductive client_step :: "('g, 'i, 'o) Client \<Rightarrow> ('g, 'i, 'o) engine \<Rightarrow> ('g, 'i, 'o) engine \<Rightarrow> bool" for cl where
  Event: "peer_events (platform cl) p evs s = returns s' \<Longrightarrow> client_step cl s s'"
| Timer: "timer_callback cl cb s = returns s' \<Longrightarrow> client_step cl s s'"
| AddPeers: "add_peers (platform cl) infos s = returns s' \<Longrightarrow> client_step cl s s'"
| Connect: "connect_to_peer (platform cl) ip port s = returns s' \<Longrightarrow> client_step cl s s'"
| System: "client_step cl s (upd_world (\<lambda>w. w\<lparr>loop := l, os := x\<rparr>) s)"

lemma client_step_ok: "client_step cl s s' \<Longrightarrow> client_ok mx cl s \<Longrightarrow> client_ok mx cl s'"
proof (induction rule: client_step.induct)
  case (Timer cb s s')
  then show ?case using timer_callback_ok[of mx cl s cb] by auto
next
  case System
  show ?case by (rule client_ok_sys[OF System.prems]) (auto simp: sys_only_def)
qed (use yieldsD[OF client_ok_ops(1)] yieldsD[OF client_ok_ops(2)] yieldsD[OF client_ok_ops(3)] in blast)+

lemma client_steps_ok: "(client_step cl)\<^sup>*\<^sup>* s s' \<Longrightarrow> client_ok mx cl s \<Longrightarrow> client_ok mx cl s'"
  by (induction rule: rtranclp_induct) (auto intro: client_step_ok)

text \<open>A program that has been set up: the files are allocated, and the configuration is one that the command line can give.\<close>

definition set_up :: "('g, 'i, 'o) Machine \<Rightarrow> AppConfig \<Rightarrow> TorrentMetadata \<Rightarrow> 'i fs \<Rightarrow> bool" where
  "set_up mc cfg md fs \<longleftrightarrow> disk_ok (mc_resolve mc) \<lparr>base_path = output_dir cfg, dio_metadata = md\<rparr> fs \<and>
     piece_length md < 2 ^ 32 \<and> 0 < max_peers cfg \<and> max_peers cfg < 2 ^ 31"

definition runs_to ::
  "('g, 'i, 'o) Machine \<Rightarrow> AppConfig \<Rightarrow> TorrentMetadata \<Rightarrow> 'i fs \<Rightarrow> ('g, 'i, 'o) engine \<Rightarrow> bool" where
  "runs_to mc cfg md fs s \<longleftrightarrow> (\<exists>our_id x. (client_step (client mc cfg md our_id))\<^sup>*\<^sup>* (components mc cfg md our_id fs x) s)"

lemma platform_client: "platform (client mc cfg md i) = platform (client mc cfg md [])"
  by (simp add: platform_def)

lemma client_ok_client: "client_ok mx (client mc cfg md i) s = client_ok mx (client mc cfg md []) s"
  by (simp add: client_ok_def platform_client[of _ _ _ i])

lemma runs_to_ok:
  assumes "set_up mc cfg md fs" "runs_to mc cfg md fs s"
  shows "client_ok (cast_size (max_peers cfg)) (client mc cfg md []) s"
proof -
  obtain our_id x where steps: "(client_step (client mc cfg md our_id))\<^sup>*\<^sup>* (components mc cfg md our_id fs x) s"
    using assms(2) by (auto simp: runs_to_def)
  have "client_ok (cast_size (max_peers cfg)) (client mc cfg md our_id) (components mc cfg md our_id fs x)"
    using assms(1) by (intro components_ok) (simp_all add: set_up_def)
  from client_steps_ok[OF steps this] show ?thesis by (simp add: client_ok_client[of _ _ _ _ our_id])
qed

section \<open>Sending ends\<close>

text \<open>What is asked of \<^verbatim>\<open>send\<close>: it takes at least one byte, or fails with an error other than an interruption.\<close>

definition sends_progress :: "'w Sockets \<Rightarrow> bool" where
  "sends_progress sk \<longleftrightarrow> (\<forall>fd bs w. bs \<noteq> [] \<longrightarrow> (case fst (sys_send sk fd bs w) of Inl e \<Rightarrow> e \<noteq> EINTR | Inr k \<Rightarrow> 0 < k))"

lemma send_loop_ends:
  assumes "sends_progress sk"
  shows "send_loop sk fd tx k w \<noteq> None"
proof (induction "length tx - k" arbitrary: k w rule: less_induct)
  case less
  obtain r w' where r: "sys_send sk fd (drop k tx) w = (r, w')" by fastforce
  show ?case
  proof (cases "k < length tx")
    case True
    then have "case r of Inl e \<Rightarrow> e \<noteq> EINTR | Inr k \<Rightarrow> 0 < k"
      using assms r by (auto simp: sends_progress_def dest!: spec[of _ fd] spec[of _ "drop k tx"] spec[of _ w])
    then show ?thesis using True r less.hyps[of "k + projr r" w'] by (subst send_loop.simps) (auto split: sum.splits)
  qed (subst send_loop.simps, simp)
qed

lemma peer_env_progress: "sends_progress (pf_sock pf) \<Longrightarrow> sends_progress (env_sock (peer_env pf p))"
  by (simp add: sends_progress_def peer_env_def with_os_def split_beta Let_def)

lemma run_disconnect_returns: "\<exists>cs'. run_callback (run_disconnect p) cb CbDisconnect cs = returns cs'"
  by (cases cs; cases cb; cases "the cb") (simp_all add: run_callback_def)

lemma disconnect_returns: "\<exists>cs'. disconnect (run_disconnect p) env cs = returns cs'"
  using run_disconnect_returns by (cases cs) (auto simp: disconnect_def Let_def split: prod.split)

lemma engine_send_ends:
  assumes "sends_progress (pf_sock pf)"
  shows "engine_send pf p m s \<noteq> None"
proof -
  have "disconnect (run_disconnect p) (peer_env pf p) cs \<noteq> None" for cs
    using disconnect_returns[of p "peer_env pf p" cs] by (auto simp: returns_def)
  then have "handle_write (run_disconnect p) (peer_env pf p) (c, s) \<noteq> None" for c s
    using send_loop_ends[OF peer_env_progress[OF assms, of p], of "tcp_fd (pc_conn c)" "tx_buffer c" 0 s]
    by (cases "send_loop (env_sock (peer_env pf p)) (tcp_fd (pc_conn c)) (tx_buffer c) 0 s")
      (auto simp: handle_write_def Let_def returns_def)
  then have "settles (\<lambda>_. True) (handle_write (run_disconnect p) (peer_env pf p) cs)" for cs
    by (cases cs) (simp add: settles_iff yields_True)
  then have "settles (\<lambda>_. True) (send_message (run_disconnect p) (peer_env pf p) m (c, s))" for c s
    by (simp add: send_message_def Let_def)
  then have "settles (\<lambda>_. True) (engine_send pf p m s)"
    by (simp add: engine_send_def with_conn_def split_beta split: option.split)
  then show ?thesis by (simp add: settles_iff)
qed

section \<open>A corrupt piece\<close>

text \<open>Disconnecting an attached peer unregisters it and leaves the table of the peer manager alone.\<close>

lemma disconnect_attached:
  assumes "connections (dc_world s) p = Some c" "attached c" "0 < p"
  shows "\<exists>s'. engine_disconnect pf p s = returns s' \<and> dc_peers s' = (dc_peers s)(p := None) \<and>
    manager (dc_world s') = manager (dc_world s) \<and>
    (\<exists>c'. connections (dc_world s') p = Some c' \<and> pc_state c' = Disconnected \<and> key_of c' = key_of c)"
proof -
  let ?closed = "if is_open (pc_conn c) then tcp_close (env_sock (peer_env pf p)) (pc_conn c) (env_unregister (peer_env pf p) (tcp_fd (pc_conn c)) s)
    else (pc_conn c, s)"
  obtain conn s1 where cl: "?closed = (conn, s1)" by fastforce
  have "sys_only s s1"
    using cl sys_only_trans[OF peer_env_sys(11) peer_env_sys(8)] peer_env_sys(11) by (auto simp: tcp_close_def split: if_splits)
  note sel = sys_only_sel[OF this]
  let ?c = "c\<lparr>pc_state := Disconnected, pc_conn := conn, rx_buffer := [], tx_buffer := []\<rparr>"
  have "disconnect (run_disconnect p) (peer_env pf p) (c, s) = returns (?c, unregister_peer p s1)"
    using assms(2) cl by (cases "is_open (pc_conn c)") (simp_all add: disconnect_def Let_def attached_def run_callback_def)
  then have "engine_disconnect pf p s = returns (put_conn p ?c (unregister_peer p s1))"
    by (simp add: engine_disconnect_def with_conn_def assms(1))
  then show ?thesis using assms(3) sel by (simp add: unregister_sel key_of_def)
qed

lemma corrupt_piece_dangles:
  assumes reg: "dc_peers s p = Some st" "connections (dc_world s) p = Some c" "attached c" "0 < p"
    and slot: "active_peers (manager (dc_world s)) (key_of c) = Some p"
    and rcv: "block_received (dc_pm s) i bgn block = (True, pm)" "validate_piece (pf_sha1 pf) pm i = Inr False"
  shows "on_piece (dc_env pf) p st i bgn block s = Some (Inl UseAfterFree)"
proof -
  let ?s = "(dc_put s p (st\<lparr>outstanding := drop_request i bgn (outstanding st)\<rparr>))\<lparr>dc_pm := piece_failed pm i\<rparr>"
  let ?b = "upd_manager (\<lambda>m. m\<lparr>blacklist := insert (key_of c) (blacklist m)\<rparr>) ?s"
  have w: "dc_world ?s = dc_world s" by simp
  have "connections (dc_world ?b) p = Some c" using reg(2) by simp
  from disconnect_attached[OF this reg(3,4), of pf] obtain s' where s': "engine_disconnect pf p ?b = returns s'" "dc_peers s' p = None"
    by auto
  have "peer_corrupted pf p ?s = returns s'"
    using reg(2) slot s'(1) by (simp add: peer_corrupted_def blacklist_peer_def Let_def key_of_def[symmetric])
  then show ?thesis
    using rcv s'(2) by (simp add: on_piece_def finish_piece_def Let_def dc_env_def dc_entry_def lift_mem_def)
qed

end
