(* ===== verification/Teardown.thy ===== *)
theory Teardown
  imports Engine_Progress
begin

text \<open>
  The end of \<^verbatim>\<open>main\<close>: the destructors of the components disconnect and close every connection, and no callback
  reaches an object that is already destroyed.
\<close>

text \<open>What the destructors may change: the connections in \<open>P\<close>, which are then disconnected, and the state of the system.\<close>

definition released :: "ptr set \<Rightarrow> ('g, 'i, 'o) engine \<Rightarrow> ('g, 'i, 'o) engine \<Rightarrow> bool" where
  "released P s s' \<longleftrightarrow> dc_pm s' = dc_pm s \<and> dc_peers s' = dc_peers s \<and> manager (dc_world s') = manager (dc_world s) \<and>
     files (dc_world s') = files (dc_world s) \<and> printed (dc_world s') = printed (dc_world s) \<and>
     (\<forall>p. p \<notin> P \<longrightarrow> connections (dc_world s') p = connections (dc_world s) p) \<and>
     (\<forall>p\<in>P. \<exists>c. connections (dc_world s') p = Some c \<and> pc_state c = Disconnected)"

lemma released_put:
  assumes "sys_only s s1" "pc_state c = Disconnected"
  shows "released {p} s (put_conn p c s1)"
  using assms(2) by (simp add: released_def sys_only_sel[OF assms(1)])

lemma released_trans:
  assumes "released P s s1" "released Q s1 s2"
  shows "released (P \<union> Q) s s2"
proof -
  have "\<exists>c. connections (dc_world s2) p = Some c \<and> pc_state c = Disconnected" if "p \<in> P \<union> Q" for p
  proof (cases "p \<in> Q")
    case False
    then have "connections (dc_world s2) p = connections (dc_world s1) p" "p \<in> P" using assms(2) that by (auto simp: released_def)
    then show ?thesis using assms(1) by (simp add: released_def)
  qed (use assms(2) in \<open>simp add: released_def\<close>)
  then show ?thesis using assms by (simp add: released_def)
qed

lemma tcp_close_sys:
  assumes "tcp_close (env_sock (peer_env pf p)) conn s = (conn', s')"
  shows "sys_only s s'" "\<not> is_open conn'"
  using assms peer_env_sys(8)[of s pf p] by (auto simp: tcp_close_def is_open_def split: if_splits)

text \<open>A connection without a disconnect callback is disconnected by system calls alone.\<close>

lemma disconnect_silent:
  assumes "on_disconnect_cb c = None"
  shows "\<exists>c' s'. disconnect rn (peer_env pf p) (c, s) = returns (c', s') \<and> sys_only s s' \<and> pc_state c' = Disconnected"
proof (cases "pc_state c = Disconnected \<or> \<not> is_open (pc_conn c)")
  case False
  obtain conn s1 where cl: "tcp_close (env_sock (peer_env pf p)) (pc_conn c) (env_unregister (peer_env pf p) (tcp_fd (pc_conn c)) s) = (conn, s1)"
    by fastforce
  have "sys_only s s1" by (rule sys_only_trans[OF peer_env_sys(11) tcp_close_sys(1)[OF cl]])
  then show ?thesis using False cl assms by (simp add: disconnect_def run_callback_def)
qed (use assms in \<open>auto simp: disconnect_def run_callback_def\<close>)

lemma close_peers_released:
  assumes "set ps \<subseteq> dom (connections (dc_world s))"
  shows "\<exists>s'. close_peers pf ps s = returns s' \<and> released (set ps) s s'"
  using assms
proof (induction ps arbitrary: s)
  case (Cons p ps)
  then obtain c where c: "connections (dc_world s) p = Some c" by auto
  obtain c' s1 where s1: "disconnect (run_disconnect p) (peer_env pf p) (c\<lparr>on_handshake_cb := None, on_disconnect_cb := None\<rparr>, s) = returns (c', s1)"
    "sys_only s s1" "pc_state c' = Disconnected"
    using disconnect_silent[of "c\<lparr>on_handshake_cb := None, on_disconnect_cb := None\<rparr>" "run_disconnect p" pf p s] by auto
  let ?s = "put_conn p c' s1"
  have "set ps \<subseteq> dom (connections (dc_world ?s))" using Cons.prems by (auto simp: sys_only_sel[OF s1(2)])
  from Cons.IH[OF this] obtain s' where s': "close_peers pf ps ?s = returns s'" "released (set ps) ?s s'" by blast
  with released_trans[OF released_put[OF s1(2,3)] s'(2)] show ?case by (simp add: with_conn_def c s1(1))
qed (simp add: released_def)

text \<open>A connection that is already disconnected is destroyed without a callback, and its socket is then closed.\<close>

lemma destroy_disconnected:
  assumes "pc_state c = Disconnected"
  shows "\<exists>conn s'. destroy_connection rn (peer_env pf p) (c, s) = returns (c\<lparr>pc_conn := conn\<rparr>, s') \<and> sys_only s s' \<and> \<not> is_open conn"
proof -
  obtain conn s1 where cl: "tcp_close (env_sock (peer_env pf p)) (pc_conn c) s = (conn, s1)" by fastforce
  with assms tcp_close_sys[OF cl] show ?thesis
    by (intro exI[of _ conn] exI[of _ s1]) (simp add: destroy_connection_def disconnect_def destroy_tcp_def)
qed

lemma destroy_connections_released:
  assumes "\<forall>p\<in>set ps. \<exists>c. connections (dc_world s) p = Some c \<and> pc_state c = Disconnected"
  shows "\<exists>s'. destroy_connections pf ps s = returns s' \<and> released (set ps) s s' \<and>
    (\<forall>p\<in>set ps. \<exists>c. connections (dc_world s') p = Some c \<and> \<not> is_open (pc_conn c)) \<and>
    (\<forall>p c. connections (dc_world s) p = Some c \<longrightarrow> \<not> is_open (pc_conn c) \<longrightarrow>
       (\<exists>c'. connections (dc_world s') p = Some c' \<and> \<not> is_open (pc_conn c')))"
  using assms
proof (induction ps arbitrary: s)
  case (Cons p ps)
  then obtain c where c: "connections (dc_world s) p = Some c" "pc_state c = Disconnected" by auto
  obtain conn s1 where s1: "destroy_connection dead_callback (peer_env pf p) (c, s) = returns (c\<lparr>pc_conn := conn\<rparr>, s1)"
    "sys_only s s1" "\<not> is_open conn" using destroy_disconnected[OF c(2)] by blast
  let ?s = "put_conn p (c\<lparr>pc_conn := conn\<rparr>) s1"
  have rel: "released {p} s ?s" by (rule released_put[OF s1(2)]) (simp add: c(2))
  have "\<forall>q\<in>set ps. \<exists>c. connections (dc_world ?s) q = Some c \<and> pc_state c = Disconnected"
    using Cons.prems c(2) by (auto simp: sys_only_sel[OF s1(2)])
  from Cons.IH[OF this] obtain s' where s': "destroy_connections pf ps ?s = returns s'" "released (set ps) ?s s'"
    "\<forall>q\<in>set ps. \<exists>c. connections (dc_world s') q = Some c \<and> \<not> is_open (pc_conn c)"
    "\<And>q c. connections (dc_world ?s) q = Some c \<Longrightarrow> \<not> is_open (pc_conn c) \<Longrightarrow>
       \<exists>c'. connections (dc_world s') q = Some c' \<and> \<not> is_open (pc_conn c')" by blast
  have stays: "\<exists>c'. connections (dc_world s') q = Some c' \<and> \<not> is_open (pc_conn c')"
    if "q = p \<or> (\<exists>d. connections (dc_world s) q = Some d \<and> \<not> is_open (pc_conn d))" for q
    using that s'(4)[of q] s1(3) by (cases "q = p") (auto simp: sys_only_sel[OF s1(2)])
  have "destroy_connections pf (p # ps) s = returns s'" using s'(1) by (simp add: with_conn_def c(1) s1(1))
  moreover have "released (set (p # ps)) s s'" using released_trans[OF rel s'(2)] by simp
  ultimately show ?case using s'(3) stays by (intro exI[of _ s'] conjI) auto
qed (simp add: released_def)

text \<open>The whole end of the program.  Every connection that is not disconnected is in the table of the peer manager.\<close>

lemma leave_main_releases:
  fixes s :: "('g, 'i, 'o) engine"
  assumes ok: "engine_ok mx pf md n s" and order: "enumerates (pf_manager_order pf)"
  shows "\<exists>s'. leave_main pf s = returns s' \<and> active_peers (manager (dc_world s')) = Map.empty \<and> dc_pm s' = dc_pm s \<and>
    files (dc_world s') = files (dc_world s) \<and> (\<forall>p c. connections (dc_world s') p = Some c \<longrightarrow> pc_state c = Disconnected) \<and>
    (\<forall>p\<in>ran (active_peers (manager (dc_world s))). \<exists>c. connections (dc_world s') p = Some c \<and> \<not> is_open (pc_conn c))"
proof -
  let ?peers = "active_peers (manager (dc_world s))"
  let ?ps = "List.map_filter ?peers (pf_manager_order pf ?peers)"
  let ?s = "upd_manager (\<lambda>m. m\<lparr>active_peers := Map.empty\<rparr>) (s\<lparr>dc_peers := Map.empty\<rparr>)"
  have slots: "slots_ok mx s" using ok by (simp add: engine_ok_def program_ok_def)
  then have "set (pf_manager_order pf ?peers) = dom ?peers" using order by (simp add: slots_ok_def enumerates_def)
  then have ps: "set ?ps = ran ?peers" by (force simp: List.map_filter_def ran_def)
  have "set ?ps \<subseteq> dom (connections (dc_world ?s))" using slots unfolding ps by (fastforce simp: slots_ok_def ran_def)
  from close_peers_released[OF this, of pf] obtain s1 where s1: "close_peers pf ?ps ?s = returns s1" "released (set ?ps) ?s s1" by blast
  then have "\<forall>p\<in>set ?ps. \<exists>c. connections (dc_world s1) p = Some c \<and> pc_state c = Disconnected" by (simp add: released_def)
  from destroy_connections_released[OF this, of pf] obtain s' where s': "destroy_connections pf ?ps s1 = returns s'"
    "released (set ?ps) s1 s'" "\<forall>p\<in>set ?ps. \<exists>c. connections (dc_world s') p = Some c \<and> \<not> is_open (pc_conn c)" by blast
  have rel: "released (ran ?peers) ?s s'" using released_trans[OF s1(2) s'(2)] by (simp add: ps)
  have "pc_state c = Disconnected" if c: "connections (dc_world s') p = Some c" for p c
  proof (cases "p \<in> ran ?peers")
    case True
    then show ?thesis using rel c by (auto simp: released_def)
  next
    case False
    then have "connections (dc_world s) p = Some c" using rel c by (simp add: released_def)
    then have "pc_state c \<noteq> Disconnected \<longrightarrow> p \<in> ran ?peers" using slots unfolding slots_ok_def by (blast intro: ranI)
    with False show ?thesis by blast
  qed
  moreover have "leave_main pf s = returns s'" using s1(1) s'(1) by (simp add: leave_main_def destroy_peer_manager_def Let_def)
  ultimately show ?thesis using rel s'(3) unfolding ps by (simp add: released_def)
qed

end
