(* ===== verification/Hasher.thy ===== *)
theory Hasher
  imports Prelude
begin

text \<open>
  The hasher (\<^verbatim>\<open>include/hasher.hpp\<close>, \<^verbatim>\<open>src/hasher.cpp\<close>): a wrapper around the SHA-1 object of Crypto++ with one-shot
  helpers and an incremental interface.  The object of the library is a parameter record over the type of its state;
  what its documentation promises is the predicate \<open>sha1_library\<close>.  The wrapper owns the object through a
  \<^verbatim>\<open>std::unique_ptr\<close>, which is null after the wrapper has been moved from: using it then is the error \<open>NullPointer\<close>.
  The one-shot helper is the function that the other components take as their parameter for SHA-1.
\<close>

section \<open>The library\<close>

record 'h Sha1Lib =
  lib_new :: 'h
  lib_update :: "bytes \<Rightarrow> 'h \<Rightarrow> 'h"
  lib_final :: "'h \<Rightarrow> bytes \<times> 'h"
  lib_restart :: "'h \<Rightarrow> 'h"
  lib_calculate_digest :: "bytes \<Rightarrow> 'h \<Rightarrow> bytes \<times> 'h"

text \<open>The documented behaviour: \<open>fed\<close> is the message so far; \<^verbatim>\<open>Final\<close> writes the digest of the message and
  restarts the object, and \<^verbatim>\<open>CalculateDigest\<close> is an update followed by the final step.\<close>

definition sha1_library :: "'h Sha1Lib \<Rightarrow> ('h \<Rightarrow> bytes) \<Rightarrow> (bytes \<Rightarrow> bytes) \<Rightarrow> bool" where
  "sha1_library lib fed sha1 \<longleftrightarrow> fed (lib_new lib) = [] \<and> (\<forall>d h. fed (lib_update lib d h) = fed h @ d) \<and>
     (\<forall>h. fst (lib_final lib h) = sha1 (fed h) \<and> fed (snd (lib_final lib h)) = []) \<and> (\<forall>h. fed (lib_restart lib h) = []) \<and>
     (\<forall>d h. lib_calculate_digest lib d h = lib_final lib (lib_update lib d h)) \<and> (\<forall>m. length (sha1 m) = 20)"

section \<open>The wrapper\<close>

record 'h SHA1Hasher =
  impl :: "'h option"

definition sha1_hasher :: "'h Sha1Lib \<Rightarrow> 'h SHA1Hasher" where
  "sha1_hasher lib = \<lparr>impl = Some (lib_new lib)\<rparr>"

text \<open>Moving: the new object and the one that was moved from.\<close>

definition hasher_move :: "'h SHA1Hasher \<Rightarrow> 'h SHA1Hasher \<times> 'h SHA1Hasher" where
  "hasher_move other = (\<lparr>impl = impl other\<rparr>, other\<lparr>impl := None\<rparr>)"

definition hasher_move_assign :: "'h SHA1Hasher \<Rightarrow> 'h SHA1Hasher \<Rightarrow> 'h SHA1Hasher \<times> 'h SHA1Hasher" where
  "hasher_move_assign target other = (target\<lparr>impl := impl other\<rparr>, other\<lparr>impl := None\<rparr>)"

text \<open>The digest is written into an array of twenty zero bytes.\<close>

definition hash_span :: "'h Sha1Lib \<Rightarrow> bytes \<Rightarrow> mem_error + bytes" where
  "hash_span lib data = write_span (replicate 20 0) 0 (fst (lib_calculate_digest lib data (lib_new lib)))"

definition hash_string :: "'h Sha1Lib \<Rightarrow> bytes \<Rightarrow> mem_error + bytes" where
  "hash_string lib data = hash_span lib data"

definition hasher_update :: "'h Sha1Lib \<Rightarrow> bytes \<Rightarrow> 'h SHA1Hasher \<Rightarrow> mem_error + 'h SHA1Hasher" where
  "hasher_update lib data h =
     (case impl h of None \<Rightarrow> Inl NullPointer | Some x \<Rightarrow> Inr (h\<lparr>impl := Some (lib_update lib data x)\<rparr>))"

definition hasher_update_string :: "'h Sha1Lib \<Rightarrow> bytes \<Rightarrow> 'h SHA1Hasher \<Rightarrow> mem_error + 'h SHA1Hasher" where
  "hasher_update_string lib data h = hasher_update lib data h"

definition hasher_finalize :: "'h Sha1Lib \<Rightarrow> 'h SHA1Hasher \<Rightarrow> mem_error + bytes \<times> 'h SHA1Hasher" where
  "hasher_finalize lib h =
     (case impl h of
        None \<Rightarrow> Inl NullPointer
      | Some x \<Rightarrow>
          let (out, x) = lib_final lib x in
          bindE (write_span (replicate 20 0) 0 out) (\<lambda>digest. Inr (digest, h\<lparr>impl := Some x\<rparr>)))"

definition hasher_reset :: "'h Sha1Lib \<Rightarrow> 'h SHA1Hasher \<Rightarrow> mem_error + 'h SHA1Hasher" where
  "hasher_reset lib h =
     (case impl h of None \<Rightarrow> Inl NullPointer | Some x \<Rightarrow> Inr (h\<lparr>impl := Some (lib_restart lib x)\<rparr>))"

section \<open>Sequences of calls\<close>

datatype hasher_call = Update bytes | Finalize | Reset

text \<open>The digests that a sequence of calls returns, and the wrapper afterwards.\<close>

fun hasher_calls :: "'h Sha1Lib \<Rightarrow> hasher_call list \<Rightarrow> 'h SHA1Hasher \<Rightarrow> mem_error + bytes list \<times> 'h SHA1Hasher" where
  "hasher_calls lib [] h = Inr ([], h)"
| "hasher_calls lib (Update d # cs) h = bindE (hasher_update lib d h) (hasher_calls lib cs)"
| "hasher_calls lib (Reset # cs) h = bindE (hasher_reset lib h) (hasher_calls lib cs)"
| "hasher_calls lib (Finalize # cs) h =
     bindE (hasher_finalize lib h) (\<lambda>(digest, h). bindE (hasher_calls lib cs h) (\<lambda>(ds, h). Inr (digest # ds, h)))"

text \<open>The messages whose digests are due: what was fed since the last digest or reset.\<close>

fun messages :: "bytes \<Rightarrow> hasher_call list \<Rightarrow> bytes list" where
  "messages m [] = []"
| "messages m (Update d # cs) = messages (m @ d) cs"
| "messages m (Reset # cs) = messages [] cs"
| "messages m (Finalize # cs) = m # messages [] cs"

section \<open>Correctness\<close>

lemma write_digest: "length out = 20 \<Longrightarrow> write_span (replicate 20 0) 0 out = Inr out"
  by (simp add: write_span_def write_at_def)

lemma hash_span_sha1: "sha1_library lib fed sha1 \<Longrightarrow> hash_span lib data = Inr (sha1 data)"
  by (simp add: sha1_library_def hash_span_def write_digest)

lemma hasher_calls_messages:
  assumes "sha1_library lib fed sha1"
  shows "impl h = Some x \<Longrightarrow> \<exists>y h'. hasher_calls lib cs h = Inr (map sha1 (messages (fed x) cs), h') \<and> impl h' = Some y"
proof (induction cs arbitrary: h x)
  case (Cons c cs)
  show ?case
  proof (cases c)
    case (Update d)
    have "fed (lib_update lib d x) = fed x @ d" using assms by (simp add: sha1_library_def)
    with Cons.IH[of "h\<lparr>impl := Some (lib_update lib d x)\<rparr>"] Cons.prems Update show ?thesis by (simp add: hasher_update_def)
  next
    case Reset
    have "fed (lib_restart lib x) = []" using assms by (simp add: sha1_library_def)
    with Cons.IH[of "h\<lparr>impl := Some (lib_restart lib x)\<rparr>"] Cons.prems Reset show ?thesis by (simp add: hasher_reset_def)
  next
    case Finalize
    obtain out y where f: "lib_final lib x = (out, y)" by fastforce
    then have "out = sha1 (fed x)" "fed y = []" "length out = 20"
      using assms unfolding sha1_library_def by (metis fst_conv, metis snd_conv, metis fst_conv)
    with Cons.IH[of "h\<lparr>impl := Some y\<rparr>" y] Cons.prems Finalize f write_digest[of out] show ?thesis
      by (auto simp: hasher_finalize_def)
  qed
qed simp

text \<open>C26: in any sequence of calls on a new hasher every digest is the one-shot hash of the bytes that were fed since the
  last digest or reset, however they were cut into updates; no call fails, and a hasher that was moved from
  answers every call with a null-pointer access.\<close>

theorem hasher_incremental:
  assumes "sha1_library lib fed sha1"
  shows "\<exists>ds h'. hasher_calls lib cs (sha1_hasher lib) = Inr (ds, h') \<and> map Inr ds = map (hash_span lib) (messages [] cs) \<and>
    hasher_calls lib (c # cs) (snd (hasher_move h')) = Inl NullPointer"
proof -
  have fed: "fed (lib_new lib) = []" using assms by (simp add: sha1_library_def)
  obtain h' where "hasher_calls lib cs (sha1_hasher lib) = Inr (map sha1 (messages [] cs), h')"
    using hasher_calls_messages[OF assms, of "sha1_hasher lib" "lib_new lib" cs] fed by (auto simp: sha1_hasher_def)
  moreover have "hasher_calls lib (c # cs) (snd (hasher_move h')) = Inl NullPointer"
    by (cases c) (simp_all add: hasher_move_def hasher_update_def hasher_finalize_def hasher_reset_def)
  moreover have "map Inr (map sha1 ms) = map (hash_span lib) ms" for ms using hash_span_sha1[OF assms] by simp
  ultimately show ?thesis by blast
qed

text \<open>A library whose state is the message so far and whose digest is made of its length.\<close>

definition demo_lib :: "bytes Sha1Lib" where
  "demo_lib = \<lparr>lib_new = [], lib_update = \<lambda>d h. h @ d, lib_final = \<lambda>h. (replicate 20 (of_nat (length h)), []), lib_restart = \<lambda>h. [],
     lib_calculate_digest = \<lambda>d h. (replicate 20 (of_nat (length (h @ d))), [])\<rparr>"

theorem hasher_incremental_witness:
  "\<exists>ds h'. hasher_calls demo_lib [Update [1], Reset, Update [2, 3], Update [4], Finalize] (sha1_hasher demo_lib) = Inr (ds, h') \<and>
     map Inr ds = [hash_span demo_lib [2, 3, 4]]"
proof -
  have "sha1_library demo_lib (\<lambda>h. h) (\<lambda>m. replicate 20 (of_nat (length m)))" by (simp add: sha1_library_def demo_lib_def)
  moreover have "messages [] [Update [1], Reset, Update [2, 3], Update [4], Finalize] = [[2, 3, 4]]" by simp
  ultimately show ?thesis
    using hasher_incremental[of demo_lib "\<lambda>h. h" _ "[Update [1], Reset, Update [2, 3], Update [4], Finalize]" Finalize]
    by (metis (no_types, lifting) list.simps(8,9))
qed

end
