(* ===== verification/Swarm.thy ===== *)
theory Swarm
  imports Coordinator_World
begin

text \<open>
  Progress of the download: honest peers that stay connected complete it.  Every outstanding request stands for one block
  that is requested and belongs to one peer; an honest answer to an outstanding request brings exactly one
  missing block, and as long as blocks are missing some request is outstanding.  The interface to the connections is the locale
  \<open>steady_link\<close>: messages to registered peers can be sent, and leave the peers registered.
\<close>

section \<open>Blocks that are missing\<close>

text \<open>What a piece still lacks, and the number of missing blocks of all pieces.\<close>

definition lacking :: "PieceManager \<Rightarrow> nat \<Rightarrow> nat set" where
  "lacking pm i = (if has_piece pm i then {} else {..<n_blocks (get_piece_length (pm_metadata pm) i)} - recv_set (entered pm i))"

definition missing_blocks :: "nat \<Rightarrow> PieceManager \<Rightarrow> nat" where
  "missing_blocks n pm = (\<Sum>i<n. card (lacking pm i))"

text \<open>A piece in progress lacks a block: it would be complete otherwise.\<close>

definition lively :: "nat \<Rightarrow> PieceManager \<Rightarrow> bool" where
  "lively n pm \<longleftrightarrow> (\<forall>i<n. in_progress pm i \<noteq> None \<longrightarrow> lacking pm i \<noteq> {})"

lemma finite_lacking [simp]: "finite (lacking pm i)"
  by (simp add: lacking_def)

lemma recv_set_request_next [simp]: "recv_set (request_next st) = recv_set st"
  by (auto simp: request_next_def next_pending_Some recv_set_def set_block_state_nth split: option.split if_splits)

lemma lacking_next_block:
  assumes "pm_inv pm" "get_next_block pm i = (r, pm')"
  shows "lacking pm' = lacking pm"
proof -
  have e: "in_progress pm' = apply_change pm i (event_change pm (NextBlock i))" "pm_bitfield pm' = pm_bitfield pm"
    "pm_metadata pm' = pm_metadata pm"
    using pm_step_in_progress[OF assms(1), of "NextBlock i"] pm_step_bitfield[of pm "NextBlock i"]
      pm_step_metadata[of pm "NextBlock i"] assms(2) by simp_all
  have "recv_set (entered pm' j) = recv_set (entered pm j)" if "\<not> has_piece pm j" for j
    using e that by (cases "j = i") (simp_all add: entered_def apply_change_def split: option.split)
  with e show ?thesis by (intro ext) (simp add: lacking_def has_piece_def)
qed

section \<open>Exact effects on the piece manager\<close>

lemma requested_in_request:
  assumes "tiled p l (ps_blocks st)" "k < length (ps_blocks st)" "blk_state (ps_blocks st ! k) = Pending"
  shows "requested_in i (st\<lparr>ps_blocks := set_block_state (ps_blocks st) k Requested\<rparr>) = insert (i, blk_begin (ps_blocks st ! k)) (requested_in i st)"
    and "(i, blk_begin (ps_blocks st ! k)) \<notin> requested_in i st"
proof -
  show "(i, blk_begin (ps_blocks st ! k)) \<notin> requested_in i st"
  proof
    assume "(i, blk_begin (ps_blocks st ! k)) \<in> requested_in i st"
    then obtain j where "j < length (ps_blocks st)" "blk_state (ps_blocks st ! j) = Requested"
      "blk_begin (ps_blocks st ! k) = blk_begin (ps_blocks st ! j)" by (auto simp: requested_in_nth)
    with tiled_begin_inj[OF assms(1,2), of j] assms(3) show False by simp
  qed
  have eq: "x \<in> requested_in i (st\<lparr>ps_blocks := set_block_state (ps_blocks st) k Requested\<rparr>) \<longleftrightarrow>
      (\<exists>j<length (ps_blocks st). (j = k \<or> blk_state (ps_blocks st ! j) = Requested) \<and> x = (i, blk_begin (ps_blocks st ! j)))" for x
    using assms(2) by (auto simp: requested_in_nth set_block_state_nth)
  show "requested_in i (st\<lparr>ps_blocks := set_block_state (ps_blocks st) k Requested\<rparr>) = insert (i, blk_begin (ps_blocks st ! k)) (requested_in i st)"
    by (rule set_eqI, unfold eq) (use assms(2) in \<open>auto simp: requested_in_nth\<close>)
qed

lemma next_block_exact:
  assumes "pm_good md pm" "get_next_block pm i = (r, pm')"
  shows "case r of None \<Rightarrow> requested pm' = requested pm
    | Some b \<Rightarrow> requested pm' = insert (i, blk_begin b) (requested pm) \<and> (i, blk_begin b) \<notin> requested pm"
proof (cases "has_piece pm i")
  case False
  have inv: "pm_inv pm" using assms(1) by (simp add: pm_good_def)
  let ?st = "entered pm i"
  have upd: "requested (set_piece pm i st) = {x \<in> requested pm. fst x \<noteq> i} \<union> requested_in i st" for st
    by (rule requested_update) simp
  have split: "requested pm = {x \<in> requested pm. fst x \<noteq> i} \<union> requested_in i ?st" using requested_entered[of i pm] by auto
  show ?thesis
  proof (cases "next_pending (ps_blocks ?st)")
    case None
    then show ?thesis using assms(2) False upd[of ?st] split by (auto simp: get_next_block_entered[OF inv])
  next
    case (Some x)
    then obtain b bs where x: "next_pending (ps_blocks ?st) = Some (b, bs)" by (cases x) auto
    then obtain k where k: "k < length (ps_blocks ?st)" "blk_state (ps_blocks ?st ! k) = Pending" "blk_begin b = blk_begin (ps_blocks ?st ! k)"
      "bs = set_block_state (ps_blocks ?st) k Requested" by (auto simp: next_pending_Some)
    have r: "r = Some b" "pm' = set_piece pm i (?st\<lparr>ps_blocks := bs\<rparr>)"
      using assms(2) False x by (auto simp: get_next_block_entered[OF inv])
    note q = requested_in_request[OF pm_good_tiled[OF assms(1), of i] k(1,2), of i]
    have "(i, blk_begin b) \<notin> requested pm" using q(2) requested_entered[of i pm] k(3) by auto
    moreover have "requested pm' = insert (i, blk_begin b) (requested pm)"
      unfolding r(2) upd k(4) q(1) using split k(3) by auto
    ultimately show ?thesis by (simp add: r(1))
  qed
qed (use assms(2) in \<open>auto simp: get_next_block_def\<close>)

abbreviation pending :: "Block list \<Rightarrow> bool" where
  "pending bs \<equiv> list_ex (\<lambda>b. blk_state b = Pending) bs"

lemma pending_restate: "pending (set_block_state bs k s) \<Longrightarrow> s \<noteq> Pending \<Longrightarrow> k < length bs \<Longrightarrow> pending bs"
  by (auto simp: list_ex_length set_block_state_nth split: if_splits)

lemma pending_request_next: "pending (ps_blocks (request_next st)) \<Longrightarrow> pending (ps_blocks st)"
  by (auto simp: request_next_def next_pending_Some dest: pending_restate split: option.splits)

lemma pending_store_block: "pending (ps_blocks (store_block st bgn d)) \<Longrightarrow> pending (ps_blocks st)"
  by (auto simp: store_block_def Let_def dest!: find_block_less dest: pending_restate split: option.splits if_splits)

lemma open_pieces_event:
  assumes "pm_inv pm" "event_change pm e = Keep \<or> (\<exists>st. event_change pm e = Update st \<and>
      (pending (ps_blocks st) \<longrightarrow> pending (ps_blocks (entered pm (event_piece e)))))"
    "pm_bitfield (pm_step pm e) = pm_bitfield pm"
  shows "open_pieces n (pm_step pm e) \<subseteq> open_pieces n pm"
proof -
  have "has_pending_blocks pm j" if "has_pending_blocks (pm_step pm e) j" for j
    using that assms(2,3) unfolding has_pending_blocks_def has_piece_def pm_step_in_progress[OF assms(1)] apply_change_def
    by (cases "j = event_piece e") (auto simp: entered_def split: if_splits option.splits)
  then show ?thesis by (auto simp: open_pieces_def)
qed

lemma open_pieces_next_block: "pm_inv pm \<Longrightarrow> open_pieces n (snd (get_next_block pm i)) \<subseteq> open_pieces n pm"
  using open_pieces_event[of pm "NextBlock i" n] by (simp add: pending_request_next pm_step_bitfield[of pm "NextBlock i", simplified])

lemma open_pieces_block_received: "pm_inv pm \<Longrightarrow> open_pieces n (snd (block_received pm i bgn d)) \<subseteq> open_pieces n pm"
  using open_pieces_event[of pm "BlockReceived i bgn d" n] pending_store_block
  by (simp add: pm_step_bitfield[of pm "BlockReceived i bgn d", simplified])

text \<open>An honest block for a request.\<close>

lemma entered_set_piece_at: "entered (set_piece pm i st) j = (if j = i then st else entered pm j)"
  by (cases "in_progress pm j") (simp_all add: entered_def)

lemma requested_block:
  assumes "pm_good md pm" "(i, bgn) \<in> requested pm"
  obtains k where "bgn = k * 16384" "k < n_blocks (get_piece_length md i)" "in_progress pm i \<noteq> None"
    "k \<notin> recv_set (entered pm i)" "\<not> has_piece pm i" "i < cast_size (num_pieces md)" "bgn < get_piece_length md i"
proof -
  obtain st b where st: "in_progress pm i = Some st" "b \<in> set (ps_blocks st)" "blk_state b = Requested" "blk_begin b = bgn"
    using assms(2) by (auto simp: requested_iff)
  then obtain k where k: "k < length (ps_blocks st)" "b = ps_blocks st ! k" by (auto simp: in_set_conv_nth)
  have e: "entered pm i = st" by (simp add: entered_def st(1))
  note t = pm_good_tiled[OF assms(1), of i, unfolded e]
  have "k < n_blocks (get_piece_length md i)" "bgn = k * 16384" using t k st(4) by (auto simp: tiled_def)
  moreover from this have "bgn < get_piece_length md i" by (simp add: n_blocks_less)
  moreover from this have "i < cast_size (num_pieces md)" by (auto simp: get_piece_length_def split: if_splits)
  moreover have "\<not> has_piece pm i" using settled_not_requested[of pm i bgn] assms by (auto simp: pm_good_def)
  ultimately show ?thesis using that[of k] st(1,3) k e by (simp add: recv_set_def)
qed

lemma block_received_exact:
  assumes good: "pm_good md pm" and h: "honest P md pm" and len: "\<forall>i. get_piece_length md i = length (P i)"
    and req: "(i, bgn) \<in> requested pm" and r: "block_received pm i bgn (block_content (P i) bgn) = (completed, pm')"
  shows "requested pm' = requested pm - {(i, bgn)}"
    and "\<exists>k\<in>lacking pm i. lacking pm' = (lacking pm)(i := lacking pm i - {k})"
    and "completed \<longleftrightarrow> lacking pm' i = {}" "honest P md pm'" "in_progress pm' i \<noteq> None"
proof -
  obtain k where k: "bgn = k * 16384" "k < n_blocks (get_piece_length md i)" "k \<notin> recv_set (entered pm i)" "\<not> has_piece pm i"
    by (rule requested_block[OF good req])
  let ?st = "entered pm i" and ?d = "block_content (P i) bgn"
  let ?st' = "store_block ?st bgn ?d"
  have inv: "pm_inv pm" and md: "pm_metadata pm = md" using good by (auto simp: pm_good_def)
  have ok: "piece_ok md i ?st" using entered_ok[OF inv, of i] md by simp
  have pm': "pm' = set_piece pm i ?st'" and c: "completed \<longleftrightarrow> blocks_received ?st' = length (ps_blocks ?st')"
    using r k(4) by (auto simp: block_received_entered[OF inv] Let_def)
  have ev: "honest_event P (BlockReceived i bgn ?d)" by simp
  show "honest P md pm'" using pm_step_honest[OF h len ev] r by simp
  show "in_progress pm' i \<noteq> None" by (simp add: pm')
  have kl: "k < length (ps_blocks ?st)" using piece_ok_blocks[OF ok] k(2) by simp
  have recv: "recv_set ?st' = insert k (recv_set ?st)" unfolding k(1) by (rule recv_set_store[OF ok kl])
  have "lacking pm' = (lacking pm)(i := lacking pm i - {k})"
    using recv k(4) by (intro ext) (auto simp: lacking_def pm' has_piece_def entered_set_piece_at)
  moreover have "k \<in> lacking pm i" using k md by (simp add: lacking_def)
  ultimately show "\<exists>k\<in>lacking pm i. lacking pm' = (lacking pm)(i := lacking pm i - {k})" by blast
  have l: "ps_length ?st = length (P i)" using ok len by (simp add: piece_ok_def)
  have hp: "honest_piece (P i) ?st'"
    using entered_honest[OF h] len l ev by (intro store_block_honest[OF ok]) auto
  have "recv_set ?st' \<subseteq> {..<length (ps_blocks ?st')}" by (auto simp: recv_set_def)
  then show "completed \<longleftrightarrow> lacking pm' i = {}"
    using honest_complete(1)[OF store_block_ok[OF ok] hp] l c k(4) piece_ok_blocks[OF ok] md
    by (auto simp: lacking_def pm' has_piece_def)
  have "requested pm \<inter> {x. fst x \<noteq> i} \<subseteq> requested pm'" "requested_in i ?st' = {x \<in> requested pm'. fst x = i}"
    using requested_update[of pm' pm i ?st'] pm' by (auto simp: requested_in_def)
  moreover have blocks: "ps_blocks ?st' = set_block_state (ps_blocks ?st) k Received"
    using store_block_at[OF ok kl, of ?d] k(1,3) kl by (simp add: recv_set_def)
  have "blk_begin (ps_blocks ?st ! k) = bgn" using pm_good_tiled[OF good, of i] kl k(1) by (simp add: tiled_def)
  then have "requested_in i ?st - {(i, bgn)} \<subseteq> requested_in i ?st'"
    unfolding requested_in_nth blocks subset_iff Diff_iff using kl by (auto simp: requested_in_nth set_block_state_nth)
  ultimately show "requested pm' = requested pm - {(i, bgn)}"
    using requested_block_received[OF good, of i bgn ?d] r requested_entered[of i pm] by auto
qed

section \<open>One request, one block, one peer\<close>

text \<open>The requests of a peer are distinct, all of them are requested blocks, and no two peers have one in common.\<close>

abbreviation req_key :: "RequestedBlock \<Rightarrow> nat \<times> nat" where
  "req_key r \<equiv> (rq_piece r, rq_begin r)"

definition exact :: "('g, 'w) Coordinator \<Rightarrow> bool" where
  "exact s \<longleftrightarrow>
     (\<forall>p st. dc_peers s p = Some st \<longrightarrow> distinct (map req_key (outstanding st)) \<and> keys (outstanding st) \<subseteq> requested (dc_pm s) \<and>
        keys (outstanding st) \<inter> owed ((dc_peers s)(p := None)) = {})"

lemma owed_without: "owed (peers(p := None)) = {x. \<exists>q st. q \<noteq> p \<and> peers q = Some st \<and> x \<in> keys (outstanding st)}"
  by (auto simp: owed_def keys_def split: if_splits)

lemma keys_image: "keys rs = req_key ` set rs"
  by (auto simp: keys_def)

lemma keys_set: "keys rs = set (map req_key rs)"
  by (simp add: keys_image)

lemma exact_owed: "exact s \<Longrightarrow> owed ((dc_peers s)(p := None)) \<subseteq> requested (dc_pm s)"
  by (fastforce simp: exact_def owed_without)

lemma exact_put:
  assumes "exact s" "dc_peers s' = (dc_peers s)(p \<mapsto> st')" "distinct (map req_key (outstanding st'))"
    "keys (outstanding st') \<subseteq> requested (dc_pm s')" "owed ((dc_peers s)(p := None)) \<subseteq> requested (dc_pm s')"
    "keys (outstanding st') \<inter> owed ((dc_peers s)(p := None)) = {}"
  shows "exact s'"
  unfolding exact_def
proof (intro allI impI)
  fix q st
  assume q: "dc_peers s' q = Some st"
  show "distinct (map req_key (outstanding st)) \<and> keys (outstanding st) \<subseteq> requested (dc_pm s') \<and>
      keys (outstanding st) \<inter> owed ((dc_peers s')(q := None)) = {}"
  proof (cases "q = p")
    case True
    then show ?thesis using q assms(2-6) by simp
  next
    case False
    then have sq: "dc_peers s q = Some st" using q assms(2) by simp
    have "keys (outstanding st) \<subseteq> owed ((dc_peers s)(p := None))" using sq False unfolding owed_without by blast
    moreover have "keys (outstanding st) \<inter> owed ((dc_peers s)(q := None)) = {}" "distinct (map req_key (outstanding st))"
      using assms(1) sq by (simp_all add: exact_def)
    moreover have "owed ((dc_peers s')(q := None)) \<subseteq> owed ((dc_peers s)(q := None)) \<union> keys (outstanding st')"
      unfolding owed_without assms(2) by (auto split: if_splits)
    ultimately show ?thesis using assms(5,6) by blast
  qed
qed

text \<open>The state of a download from honest peers, apart from the invariant of the coordinator.\<close>

definition orderly :: "(('g, 'w) Coordinator \<Rightarrow> bool) \<Rightarrow> TorrentMetadata \<Rightarrow> nat \<Rightarrow> (nat \<Rightarrow> bytes) \<Rightarrow> ('g, 'w) Coordinator \<Rightarrow> bool" where
  "orderly G md n P s \<longleftrightarrow> honest P md (dc_pm s) \<and> exact s \<and> lively n (dc_pm s) \<and> G s"

text \<open>What may change while one peer is served: its own entry, and the blocks
  that are pending or missing become fewer.\<close>

definition kept :: "('g, 'w) DcEnv \<Rightarrow> nat \<Rightarrow> ptr \<Rightarrow> ('g, 'w) Coordinator \<Rightarrow> ('g, 'w) Coordinator \<Rightarrow> bool" where
  "kept env n p s s' \<longleftrightarrow> (\<forall>q. map_option ds_bitfield (dc_peers s' q) = map_option ds_bitfield (dc_peers s q)) \<and>
     (\<forall>q. q \<noteq> p \<longrightarrow> map_option outstanding (dc_peers s' q) = map_option outstanding (dc_peers s q)) \<and>
     open_pieces n (dc_pm s') \<subseteq> open_pieces n (dc_pm s) \<and> lacking (dc_pm s') \<le> lacking (dc_pm s) \<and>
     (\<forall>q. is_peer_choking env q (dc_world s') = is_peer_choking env q (dc_world s))"

lemma kept_refl [simp]: "kept env n p s s"
  by (simp add: kept_def)

lemma kept_trans: "kept env n p s s1 \<Longrightarrow> kept env n p s1 s2 \<Longrightarrow> kept env n p s s2"
  unfolding kept_def by (metis order_trans)

lemma kept_registered: "kept env n p s s' \<Longrightarrow> dc_peers s' q = None \<longleftrightarrow> dc_peers s q = None"
  by (metis kept_def map_option_is_None)

text \<open>The content that the metadata describe: the lengths and the hashes of the pieces.\<close>

definition describes :: "(bytes \<Rightarrow> bytes) \<Rightarrow> TorrentMetadata \<Rightarrow> nat \<Rightarrow> (nat \<Rightarrow> bytes) \<Rightarrow> bool" where
  "describes sha1 md n P \<longleftrightarrow> (\<forall>i. get_piece_length md i = length (P i)) \<and>
     (\<forall>i<n. P i \<noteq> [] \<and> i < length (piece_hashes md) \<and> sha1 (P i) = piece_hashes md ! i)"

lemma lively_next_block:
  assumes "pm_inv pm" "pm_metadata pm = md" "lively n pm" "\<forall>i<n. 0 < get_piece_length md i" "get_next_block pm i = (r, pm')"
  shows "lively n pm'"
proof -
  have "in_progress pm' j = in_progress pm j \<or> j = i \<and> \<not> has_piece pm i" for j
    using assms(5) by (auto simp: get_next_block_entered[OF assms(1)] split: if_splits option.splits)
  moreover have "lacking pm i \<noteq> {}" if "in_progress pm i = None" "\<not> has_piece pm i" "i < n"
    using that assms(2,4) by (simp add: lacking_def entered_def lessThan_empty_iff)
  ultimately show ?thesis
    using assms(3) unfolding lively_def lacking_next_block[OF assms(1,5)] by metis
qed

lemma describes_sel:
  "describes sha1 md n P \<Longrightarrow> \<forall>i. get_piece_length md i = length (P i)"
  "describes sha1 md n P \<Longrightarrow> \<forall>i<n. 0 < get_piece_length md i"
  by (simp_all add: describes_def)

text \<open>The next block of a piece becomes the last request of the peer.\<close>

lemma next_block_orderly:
  assumes inv: "dc_inv md n s" and ord: "orderly G md n P s" and st: "dc_peers s p = Some st" and des: "describes sha1 md n P"
    and nb: "get_next_block (dc_pm s) i = (r, pm)" and G: "G s'"
    and s': "dc_pm s' = pm" "dc_peers s' = (dc_peers s)(p \<mapsto> st')" "dc_world s' = dc_world s" "ds_bitfield st' = ds_bitfield st"
    and out: "map req_key (outstanding st') = map req_key (outstanding st) @ (case r of None \<Rightarrow> [] | Some b \<Rightarrow> [(i, blk_begin b)])"
  shows "orderly G md n P s'" "kept env n p s s'" "lacking (dc_pm s') = lacking (dc_pm s)"
proof -
  have good: "pm_good md (dc_pm s)" by (rule inv_sel(2)[OF inv])
  then have pm: "pm_inv (dc_pm s)" "pm_metadata (dc_pm s) = md" by (simp_all add: pm_good_def)
  have o: "honest P md (dc_pm s)" "exact s" "lively n (dc_pm s)" using ord by (simp_all add: orderly_def)
  have "honest P md pm" using pm_step_honest[OF o(1) describes_sel(1)[OF des], of "NextBlock i"] nb by simp
  moreover have "lively n pm" by (rule lively_next_block[OF pm o(3) describes_sel(2)[OF des] nb])
  moreover have "exact s'"
  proof (rule exact_put[OF o(2) s'(2)])
    have e: "distinct (map req_key (outstanding st))" "keys (outstanding st) \<subseteq> requested (dc_pm s)"
      "keys (outstanding st) \<inter> owed ((dc_peers s)(p := None)) = {}"
      using o(2) st by (simp_all add: exact_def)
    have k: "keys (outstanding st') = keys (outstanding st) \<union> (case r of None \<Rightarrow> {} | Some b \<Rightarrow> {(i, blk_begin b)})"
      unfolding keys_set out by (simp split: option.split)
    note q = next_block_exact[OF good nb] and w = exact_owed[OF o(2), of p]
    show "distinct (map req_key (outstanding st'))" using e q unfolding out by (auto simp: keys_image split: option.splits)
    show "keys (outstanding st') \<subseteq> requested (dc_pm s')" using e(2) q unfolding k s'(1) by (auto split: option.splits)
    show "owed ((dc_peers s)(p := None)) \<subseteq> requested (dc_pm s')" using w q unfolding s'(1) by (auto split: option.splits)
    show "keys (outstanding st') \<inter> owed ((dc_peers s)(p := None)) = {}" using e(3) q w unfolding k by (auto split: option.splits)
  qed
  ultimately show "orderly G md n P s'" using G s'(1) by (simp add: orderly_def)
  show "kept env n p s s'" using s' st open_pieces_next_block[OF pm(1), of n i] nb lacking_next_block[OF pm(1) nb] by (simp add: kept_def)
  show "lacking (dc_pm s') = lacking (dc_pm s)" using lacking_next_block[OF pm(1) nb] s'(1) by simp
qed

section \<open>Nothing to cancel\<close>

lemma cancel_loop_quiet:
  assumes "dc_peers s p = Some st" "\<forall>r\<in>set (outstanding st). rq_piece r \<noteq> i" "k \<le> length (outstanding st)"
  shows "repeat_while (cancel_round env p i) (k, s) = returns (length (outstanding st), s)"
  using assms(3)
proof (induction "length (outstanding st) - k" arbitrary: k)
  case 0
  then show ?case using assms(1) by (subst repeat_while_unfold) (simp add: cancel_round_def dc_entry_def)
next
  case (Suc m)
  then have "k < length (outstanding st)" by simp
  then have "cancel_round env p i (k, s) = returns (True, k + 1, s)"
    using assms(1,2) by (simp add: cancel_round_def dc_entry_def Let_def)
  then show ?case using Suc.hyps(1)[of "k + 1"] Suc.hyps(2) Suc.prems by (subst repeat_while_unfold) simp
qed

text \<open>Only active pieces change.\<close>

definition active_only :: "('g, 'w) Coordinator \<Rightarrow> ('g, 'w) Coordinator \<Rightarrow> bool" where
  "active_only s s' \<longleftrightarrow> dc_pm s' = dc_pm s \<and> dc_picker s' = dc_picker s \<and> dc_num_pieces s' = dc_num_pieces s \<and> dc_world s' = dc_world s \<and>
     (\<forall>q. map_option (\<lambda>st. (ds_bitfield st, outstanding st)) (dc_peers s' q) = map_option (\<lambda>st. (ds_bitfield st, outstanding st)) (dc_peers s q))"

lemma active_only_put: "dc_peers s p = Some st \<Longrightarrow> active_only s (dc_put s p (st\<lparr>active_piece := a\<rparr>))"
  by (simp add: active_only_def)

lemma active_only_trans: "active_only s s1 \<Longrightarrow> active_only s1 s2 \<Longrightarrow> active_only s s2"
  by (simp add: active_only_def)

lemma map_option_fields:
  assumes "\<forall>q. map_option (\<lambda>st. (ds_bitfield st, outstanding st)) (peers' q) = map_option (\<lambda>st. (ds_bitfield st, outstanding st)) (peers q)"
  shows "map_option ds_bitfield (peers' q) = map_option ds_bitfield (peers q)" "map_option outstanding (peers' q) = map_option outstanding (peers q)"
    "peers' q = None \<longleftrightarrow> peers q = None"
  using assms[rule_format, of q] by (cases "peers q"; cases "peers' q"; simp)+

lemma owed_cong:
  assumes "\<And>q. map_option outstanding (peers' q) = map_option outstanding (peers q)"
  shows "owed peers' = owed peers"
proof -
  have "owed peers = {x. \<exists>p rs. map_option outstanding (peers p) = Some rs \<and> x \<in> keys rs}" for peers
    by (fastforce simp: owed_def keys_def)
  then show ?thesis by (simp only: assms)
qed

lemma active_only_owed: "active_only s s' \<Longrightarrow> owed (dc_peers s') = owed (dc_peers s)"
  by (rule owed_cong) (simp add: active_only_def map_option_fields(2))

lemma exact_active_only:
  assumes "active_only s s'" "exact s"
  shows "exact s'"
  unfolding exact_def
proof (intro allI impI)
  fix p st'
  assume st': "dc_peers s' p = Some st'"
  have f: "\<forall>q. map_option (\<lambda>st. (ds_bitfield st, outstanding st)) (dc_peers s' q) = map_option (\<lambda>st. (ds_bitfield st, outstanding st)) (dc_peers s q)"
    using assms(1) by (simp add: active_only_def)
  obtain st where st: "dc_peers s p = Some st" "outstanding st' = outstanding st"
    using map_option_fields(2)[OF f, of p] st' by (cases "dc_peers s p") auto
  have "owed ((dc_peers s')(p := None)) = owed ((dc_peers s)(p := None))"
    by (rule owed_cong) (simp add: map_option_fields(2)[OF f])
  with st assms show "distinct (map req_key (outstanding st')) \<and> keys (outstanding st') \<subseteq> requested (dc_pm s') \<and>
      keys (outstanding st') \<inter> owed ((dc_peers s')(p := None)) = {}"
    by (simp add: exact_def active_only_def)
qed

lemma cancel_peers_quiet:
  "set ps \<subseteq> dom (dc_peers s) \<Longrightarrow> \<forall>x\<in>owed (dc_peers s). fst x \<noteq> i \<Longrightarrow> \<exists>s'. cancel_peers env i ps s = returns s' \<and> active_only s s'"
proof (induction ps arbitrary: s)
  case (Cons p ps)
  obtain st where st: "dc_peers s p = Some st" using Cons.prems(1) by auto
  let ?s = "if active_piece st = Some i then dc_put s p (st\<lparr>active_piece := None\<rparr>) else s"
  have a: "active_only s ?s" using active_only_put[OF st] by (simp add: active_only_def)
  have "\<forall>r\<in>set (outstanding st). rq_piece r \<noteq> i" using Cons.prems(2) st by (fastforce simp: owed_def)
  then have "cancel_peers env i (p # ps) s = cancel_peers env i ps ?s"
    using cancel_loop_quiet[OF st, of i 0 env] by (simp add: dc_entry_def st)
  moreover have "set ps \<subseteq> dom (dc_peers ?s)" using Cons.prems(1) by auto
  ultimately show ?case using Cons.IH[of ?s] Cons.prems(2) active_only_owed[OF a] active_only_trans[OF a] by auto
qed (simp add: active_only_def)

text \<open>Removing the request that is answered.\<close>

lemma drop_request_keys:
  "distinct (map req_key rs) \<Longrightarrow> map req_key (drop_request i bgn rs) = remove1 (i, bgn) (map req_key rs)"
  by (induction rs) auto

lemma missing_one_less:
  assumes "i < n" "k \<in> lacking pm i" "lacking pm' = (lacking pm)(i := lacking pm i - {k})"
  shows "missing_blocks n pm = Suc (missing_blocks n pm')"
proof -
  have "missing_blocks n pm = card (lacking pm i) + (\<Sum>j\<in>{..<n} - {i}. card (lacking pm j))" for pm
    unfolding missing_blocks_def using assms(1) by (simp add: sum.remove)
  note split = this[of pm] this[of pm']
  have "(\<Sum>j\<in>{..<n} - {i}. card (lacking pm' j)) = (\<Sum>j\<in>{..<n} - {i}. card (lacking pm j))"
    by (rule sum.cong) (simp_all add: assms(3))
  moreover have "card (lacking pm i) = Suc (card (lacking pm' i))" using card_Suc_Diff1[OF finite_lacking assms(2)] assms(3) by simp
  ultimately show ?thesis using split by simp
qed

lemma block_stored_orderly:
  assumes inv: "dc_inv md n s" and ord: "orderly G md n P s" and des: "describes sha1 md n P"
    and st: "dc_peers s p = Some st" and r: "(i, bgn) \<in> keys (outstanding st)"
    and br: "block_received (dc_pm s) i bgn (block_content (P i) bgn) = (completed, pm)"
    and s': "s' = (dc_put s p (st\<lparr>outstanding := drop_request i bgn (outstanding st)\<rparr>))\<lparr>dc_pm := pm\<rparr>"
  shows "honest P md pm" "exact s'" "\<forall>j<n. j \<noteq> i \<longrightarrow> in_progress pm j \<noteq> None \<longrightarrow> lacking pm j \<noteq> {}" "kept env n p s s'"
    "missing_blocks n (dc_pm s) = Suc (missing_blocks n pm)" "completed \<longleftrightarrow> lacking pm i = {}" "i < n" "in_progress pm i \<noteq> None"
proof -
  have good: "pm_good md (dc_pm s)" and n: "n = cast_size (num_pieces md)" using inv_sel[OF inv] by auto
  have o: "honest P md (dc_pm s)" "exact s" "lively n (dc_pm s)" using ord by (simp_all add: orderly_def)
  have e: "distinct (map req_key (outstanding st))" "keys (outstanding st) \<subseteq> requested (dc_pm s)"
    "keys (outstanding st) \<inter> owed ((dc_peers s)(p := None)) = {}"
    using o(2) st by (simp_all add: exact_def)
  have req: "(i, bgn) \<in> requested (dc_pm s)" using e(2) r by blast
  note x = block_received_exact[OF good o(1) describes_sel(1)[OF des] req br]
  show "honest P md pm" "completed \<longleftrightarrow> lacking pm i = {}" "in_progress pm i \<noteq> None" by (fact x)+
  show i: "i < n" using requested_block[OF good req] n by metis
  obtain k where k: "k \<in> lacking (dc_pm s) i" "lacking pm = (lacking (dc_pm s))(i := lacking (dc_pm s) i - {k})" using x(2) by blast
  show "missing_blocks n (dc_pm s) = Suc (missing_blocks n pm)" by (rule missing_one_less[OF i k])
  have pm: "pm_inv (dc_pm s)" using good by (simp add: pm_good_def)
  have "in_progress pm j = in_progress (dc_pm s) j" if "j \<noteq> i" for j
    using br that by (auto simp: block_received_entered[OF pm] Let_def split: if_splits)
  then show "\<forall>j<n. j \<noteq> i \<longrightarrow> in_progress pm j \<noteq> None \<longrightarrow> lacking pm j \<noteq> {}" using o(3) k(2) by (simp add: lively_def)
  have "open_pieces n pm \<subseteq> open_pieces n (dc_pm s)" using open_pieces_block_received[OF pm, of n i bgn] br by (metis snd_conv)
  then show "kept env n p s s'" using st k(2) by (auto simp: s' kept_def le_fun_def)
  let ?st = "st\<lparr>outstanding := drop_request i bgn (outstanding st)\<rparr>"
  have m: "map req_key (outstanding ?st) = remove1 (i, bgn) (map req_key (outstanding st))" using drop_request_keys[OF e(1)] by simp
  have ks: "keys (outstanding ?st) = keys (outstanding st) - {(i, bgn)}" unfolding keys_set m by (simp only: set_remove1_eq[OF e(1)])
  show "exact s'"
  proof (rule exact_put[OF o(2), where p = p and st' = ?st])
    show "dc_peers s' = (dc_peers s)(p \<mapsto> ?st)" by (simp add: s')
    show "distinct (map req_key (outstanding ?st))" unfolding m by (rule distinct_remove1[OF e(1)])
    show "keys (outstanding ?st) \<subseteq> requested (dc_pm s')" using e(2) x(1) unfolding ks by (auto simp: s')
    show "owed ((dc_peers s)(p := None)) \<subseteq> requested (dc_pm s')" using exact_owed[OF o(2), of p] e(3) r x(1) by (auto simp: s')
    show "keys (outstanding ?st) \<inter> owed ((dc_peers s)(p := None)) = {}" using e(3) unfolding ks by auto
  qed
qed

text \<open>Completing a piece that lacks nothing.\<close>

lemma lacking_none_requested: "lacking pm i = {} \<Longrightarrow> pm_good md pm \<Longrightarrow> (i, bgn) \<notin> requested pm"
proof
  assume l: "lacking pm i = {}" "pm_good md pm" and r: "(i, bgn) \<in> requested pm"
  obtain k where "k < n_blocks (get_piece_length md i)" "k \<notin> recv_set (entered pm i)" "\<not> has_piece pm i"
    by (rule requested_block[OF l(2) r])
  with l show False by (auto simp: lacking_def pm_good_def)
qed

lemma validate_complete:
  assumes good: "pm_good md pm" and h: "honest P md pm" and des: "describes sha1 md n P" and i: "i < n"
    and l: "lacking pm i = {}" "in_progress pm i \<noteq> None"
  shows "validate_piece sha1 pm i = Inr True"
proof -
  obtain st where st: "in_progress pm i = Some st" using l(2) by auto
  have e: "entered pm i = st" by (simp add: entered_def st)
  have inv: "pm_inv pm" and md: "pm_metadata pm = md" and nh: "\<not> has_piece pm i" using good st by (auto simp: pm_good_def settled_def)
  have ok: "piece_ok md i st" using entered_ok[OF inv, of i] md e by simp
  have len: "ps_length st = length (P i)" using ok describes_sel(1)[OF des] by (simp add: piece_ok_def)
  have hp: "honest_piece (P i) st" using h st by (simp add: honest_def)
  have "recv_set st \<subseteq> {..<length (ps_blocks st)}" by (auto simp: recv_set_def)
  with l(1) nh have "recv_set st = {..<length (ps_blocks st)}" using piece_ok_blocks[OF ok] md e by (auto simp: lacking_def)
  from honest_complete(2)[OF ok hp len this] have "ps_data st = P i" .
  with des i show ?thesis by (simp add: validate_piece_def st md read_at_def describes_def)
qed

lemma completed_lacking:
  assumes "pm_inv pm" "i < num_bits (pm_bitfield pm)" "lacking pm i = {}"
  shows "lacking (piece_completed pm i) = lacking pm" "has_piece (piece_completed pm i) j \<longleftrightarrow> j = i \<or> has_piece pm j"
proof -
  show h: "has_piece (piece_completed pm i) j \<longleftrightarrow> j = i \<or> has_piece pm j" for j
    using assms(1,2) by (auto simp: has_piece_def piece_completed_def erase_piece_def pm_inv_def bitset.mem_add)
  have "entered (piece_completed pm i) j = entered pm j" if "j \<noteq> i" for j
    using that by (cases "in_progress pm j") (simp_all add: entered_def piece_completed_def erase_piece_def)
  moreover have "pm_metadata (piece_completed pm i) = pm_metadata pm" by (simp add: piece_completed_def erase_piece_def)
  ultimately show "lacking (piece_completed pm i) = lacking pm"
    using assms(3) by (intro ext) (auto simp: lacking_def h)
qed

lemma inv_finite: "dc_inv md n s \<Longrightarrow> finite (dom (dc_peers s))"
  by (metis List.finite_set dc_inv_def tallied_def)

lemma completed_exact:
  assumes "exact s" "dc_peers s' = dc_peers s" "dc_pm s' = piece_completed (dc_pm s) i" "\<And>bgn. (i, bgn) \<notin> requested (dc_pm s)"
  shows "exact s'" "\<forall>x\<in>owed (dc_peers s'). fst x \<noteq> i"
proof -
  have "requested (piece_completed (dc_pm s) i) = requested (dc_pm s)" using assms(4) by (auto simp: requested_completed)
  then show "exact s'" using assms(1-3) by (simp add: exact_def)
  have "owed (dc_peers s) \<subseteq> requested (dc_pm s)" using assms(1) by (fastforce simp: exact_def owed_def keys_def)
  then show "\<forall>x\<in>owed (dc_peers s'). fst x \<noteq> i" using assms(2,4) by auto
qed

lemma completed_lively:
  assumes "pm_inv pm" "i < num_bits (pm_bitfield pm)" "lacking pm i = {}"
    "\<forall>j<n. j \<noteq> i \<longrightarrow> in_progress pm j \<noteq> None \<longrightarrow> lacking pm j \<noteq> {}"
  shows "lively n (piece_completed pm i)" "open_pieces n (piece_completed pm i) \<subseteq> open_pieces n pm"
proof -
  note c = completed_lacking[OF assms(1-3)]
  show "lively n (piece_completed pm i)" unfolding lively_def c(1) using assms(4) by (auto simp: piece_completed_def erase_piece_def)
  show "open_pieces n (piece_completed pm i) \<subseteq> open_pieces n pm"
    by (auto simp: open_pieces_def has_pending_blocks_def c(2)) (auto simp: piece_completed_def erase_piece_def split: if_splits)
qed

section \<open>Steady connections\<close>

text \<open>Every message to a registered peer can be sent and leaves the coordinator alone; and the table of
  peers is enumerated as it is.  \<open>G\<close> is what this needs of the rest of the program.\<close>

definition undisturbed :: "('g, 'w) DcEnv \<Rightarrow> ('g, 'w) Coordinator \<Rightarrow> ('g, 'w) Coordinator \<Rightarrow> bool" where
  "undisturbed env s s' \<longleftrightarrow> same_core s s' \<and> (\<forall>q. is_peer_choking env q (dc_world s') = is_peer_choking env q (dc_world s))"

definition control_message :: "PeerMessage \<Rightarrow> bool" where
  "control_message m \<longleftrightarrow> (\<exists>i b l. m = RequestMsg i b l \<or> m = CancelMsg i b l \<or> m = HaveMsg i)"

locale steady_link = peer_link env for env :: "('g, 'w) DcEnv" +
  fixes G :: "('g, 'w) Coordinator \<Rightarrow> bool"
  assumes steady_send: "G s \<Longrightarrow> dc_peers s p \<noteq> None \<Longrightarrow> control_message m \<Longrightarrow>
      achieves (\<lambda>s'. undisturbed env s s' \<and> G s') (dc_send env p m s)"
    and steady_frame: "G s \<Longrightarrow> dom (dc_peers s') = dom (dc_peers s) \<Longrightarrow> dc_world s' = dc_world s \<Longrightarrow> G s'"
    and steady_completed: "G s \<Longrightarrow> undisturbed env s (completed_cb env i s) \<and> G (completed_cb env i s)"
    and steady_order: "G s \<Longrightarrow> finite (dom (dc_peers s)) \<Longrightarrow> set (dc_order env (dc_peers s)) = dom (dc_peers s)"
begin

lemma steady_put: "G s \<Longrightarrow> dc_peers s p \<noteq> None \<Longrightarrow> G (dc_put s p st)"
  by (erule steady_frame) auto

lemma undisturbed_kept:
  assumes "orderly G md n P s" "undisturbed env s s'" "G s'"
  shows "orderly G md n P s'" "kept env n p s s'" "lacking (dc_pm s') = lacking (dc_pm s)"
  using assms by (auto simp: orderly_def exact_def kept_def undisturbed_def same_core_def)

lemma round_orderly:
  assumes inv: "dc_inv md n s" and ord: "orderly G md n P s" and des: "describes sha1 md n P" and reg: "dc_peers s p \<noteq> None"
  shows "achieves (\<lambda>(continue, s'). orderly G md n P s' \<and> kept env n p s s' \<and> lacking (dc_pm s') = lacking (dc_pm s)) (pipeline_round env p s)"
proof -
  obtain st where st: "dc_peers s p = Some st" using reg by auto
  obtain piece s1 where ch: "choose_piece env st s = (piece, s1)" by fastforce
  have s1: "dc_peers s1 = dc_peers s" "dc_pm s1 = dc_pm s" "dc_world s1 = dc_world s"
    using ch by (auto simp: choose_piece_def split: option.splits prod.splits)
  have G1: "G s1" using ord s1 by (intro steady_frame[of s s1]) (auto simp: orderly_def)
  have ord1: "orderly G md n P s1" "kept env n p s s1" using ord G1 s1 by (auto simp: orderly_def exact_def kept_def)
  obtain r pm where nb: "get_next_block (dc_pm s) (the piece) = (r, pm)" by fastforce
  have good: "pm_good md (dc_pm s)" by (rule inv_sel(2)[OF inv])
  have put: "orderly G md n P (dc_put (s1\<lparr>dc_pm := pm\<rparr>) p st') \<and> kept env n p s (dc_put (s1\<lparr>dc_pm := pm\<rparr>) p st') \<and> lacking pm = lacking (dc_pm s)"
    if "ds_bitfield st' = ds_bitfield st"
      "map req_key (outstanding st') = map req_key (outstanding st) @ (case r of None \<Rightarrow> [] | Some b \<Rightarrow> [(the piece, blk_begin b)])" for st'
  proof -
    let ?s = "dc_put (s1\<lparr>dc_pm := pm\<rparr>) p st'"
    have "dom (dc_peers ?s) = dom (dc_peers s1)" "dc_world ?s = dc_world s1" using st s1(1) by (auto split: if_splits)
    then have g: "G ?s" by (rule steady_frame[OF G1])
    have e: "dc_pm ?s = pm" "dc_peers ?s = (dc_peers s)(p \<mapsto> st')" "dc_world ?s = dc_world s" by (simp_all add: s1)
    show ?thesis using next_block_orderly[OF inv ord st des nb g e that] unfolding e(1) by blast
  qed
  show ?thesis
  proof (cases "length (outstanding st) < 5 \<and> piece \<noteq> None")
    case False
    then show ?thesis
      using ord ord1 s1 by (auto simp: pipeline_round_def dc_entry_def st ch lift_mem_def split: option.split)
  next
    case True
    then obtain i where i: "piece = Some i" by auto
    show ?thesis
    proof (cases r)
      case None
      then show ?thesis
        using True nb put[of "st\<lparr>active_piece := None\<rparr>"] by (simp add: pipeline_round_def dc_entry_def st ch i s1)
    next
      case (Some b)
      let ?st = "st\<lparr>active_piece := Some i,
        outstanding := outstanding st @ [\<lparr>rq_piece = blk_piece b, rq_begin = blk_begin b, rq_length = blk_length b\<rparr>]\<rparr>"
      let ?s = "dc_put (s1\<lparr>dc_pm := pm\<rparr>) p ?st"
      have "blk_piece b = i" using next_block_piece(1)[OF good] nb Some i inv_sel(4,5)[OF inv] by simp
      then have s2: "orderly G md n P ?s" "kept env n p s ?s" "lacking pm = lacking (dc_pm s)" using put[of ?st] Some i by simp_all
      then have "G ?s" by (simp add: orderly_def)
      from steady_send[OF this] have "achieves (\<lambda>s'. orderly G md n P s' \<and> kept env n p s s' \<and> lacking (dc_pm s') = lacking (dc_pm s))
          (dc_send env p (RequestMsg j bgn l) ?s)" for j bgn l
        by (rule achieves_mono) (use undisturbed_kept[OF s2(1)] kept_trans[OF s2(2)] s2(3) in \<open>auto simp: control_message_def\<close>)
      then show ?thesis using True nb Some by (simp add: pipeline_round_def dc_entry_def st ch i s1)
    qed
  qed
qed

lemma fill_orderly:
  assumes inv: "dc_inv md n s" and ord: "orderly G md n P s" and des: "describes sha1 md n P" and draw: "draw_in_range (dc_draw env)"
    and reg: "dc_peers s p \<noteq> None" "\<not> is_peer_choking env p (dc_world s)"
  shows "achieves (\<lambda>s'. (dc_inv md n s' \<and> orderly G md n P s' \<and> kept env n p s s' \<and> lacking (dc_pm s') = lacking (dc_pm s)) \<and> saturated n p s')
    (fill_request_pipeline env p s)"
proof -
  let ?I = "\<lambda>s'. dc_inv md n s' \<and> orderly G md n P s' \<and> kept env n p s s' \<and> lacking (dc_pm s') = lacking (dc_pm s)"
  have "achieves (\<lambda>(continue, s2). if continue then ?I s2 \<and> (s2, s1) \<in> dc_less n p else ?I s2 \<and> saturated n p s2) (pipeline_round env p s1)"
    if I: "?I s1" for s1
  proof -
    have "dc_peers s1 p \<noteq> None" using I reg(1) kept_registered[of env n p s s1 p] by simp
    with I have round: "achieves (\<lambda>(continue, s2). orderly G md n P s2 \<and> kept env n p s1 s2 \<and> lacking (dc_pm s2) = lacking (dc_pm s1)) (pipeline_round env p s1)"
      by (intro round_orderly[OF _ _ des]) auto
    have i1: "dc_inv md n s1" using I by simp
    show ?thesis
      by (rule achieves_mono[OF achieves_yields[OF achieves_yields[OF round round_inv[OF i1]] round_progress[OF i1 draw]]])
        (use I in \<open>auto intro: kept_trans\<close>)
  qed
  then have "achieves (\<lambda>s'. ?I s' \<and> saturated n p s') (repeat_while (pipeline_round env p) s)"
    by (rule repeat_while_achieves[where I = ?I and R = "dc_less n p"]) (simp_all add: wf_dc_less inv ord)
  moreover have "p \<noteq> 0" using inv reg(1) by (auto simp: dc_inv_def)
  ultimately show ?thesis using reg by (auto simp: fill_request_pipeline_def)
qed

lemma active_only_kept:
  assumes "active_only s s'" "orderly G md n P s"
  shows "orderly G md n P s'" "kept env n p s s'" "lacking (dc_pm s') = lacking (dc_pm s)"
proof -
  have f: "\<forall>q. map_option (\<lambda>st. (ds_bitfield st, outstanding st)) (dc_peers s' q) = map_option (\<lambda>st. (ds_bitfield st, outstanding st)) (dc_peers s q)"
    and same: "dc_pm s' = dc_pm s" "dc_world s' = dc_world s" using assms(1) by (simp_all add: active_only_def)
  have "dom (dc_peers s') = dom (dc_peers s)" using map_option_fields(3)[OF f] by (auto simp: dom_def)
  then have "G s'" using steady_frame[of s s'] assms(2) same(2) by (simp add: orderly_def)
  then show "orderly G md n P s'" using assms exact_active_only[OF assms(1)] same by (simp add: orderly_def)
  show "kept env n p s s'" using map_option_fields(1,2)[OF f] same by (simp add: kept_def)
  show "lacking (dc_pm s') = lacking (dc_pm s)" by (simp add: same)
qed

lemma broadcast_steady:
  "G s \<Longrightarrow> control_message m \<Longrightarrow> set ps \<subseteq> dom (dc_peers s) \<Longrightarrow> achieves (\<lambda>s'. undisturbed env s s' \<and> G s') (broadcast env m ps s)"
proof (induction ps arbitrary: s)
  case (Cons p ps)
  then have p: "dc_peers s p \<noteq> None" by auto
  show ?case unfolding broadcast.simps
  proof (rule achieves_bindI[OF steady_send[OF Cons.prems(1) p Cons.prems(2)]])
    fix s1
    assume s1: "undisturbed env s s1 \<and> G s1"
    then have core: "dc_peers s1 = dc_peers s" by (simp add: undisturbed_def same_core_def)
    have "achieves (\<lambda>s'. undisturbed env s1 s' \<and> G s') (broadcast env m ps s1)" using s1 Cons.prems core by (intro Cons.IH) auto
    then have "achieves (\<lambda>s'. undisturbed env s s' \<and> G s') (broadcast env m ps s1)"
      by (rule achieves_mono) (use s1 in \<open>auto simp: undisturbed_def same_core_def\<close>)
    then show "achieves (\<lambda>s'. undisturbed env s s' \<and> G s') (bindR (dc_entry s1 p) (\<lambda>_. broadcast env m ps s1))"
      using p by (auto simp: dc_entry_def core)
  qed
qed (simp add: undisturbed_def same_core_def)

lemma finish_orderly:
  assumes inv: "dc_inv md n s" and h: "honest P md (dc_pm s)" and ex: "exact s" and des: "describes (dc_sha1 env) md n P" and g: "G s"
    and i: "i < n" "lacking (dc_pm s) i = {}" "in_progress (dc_pm s) i \<noteq> None"
    and others: "\<forall>j<n. j \<noteq> i \<longrightarrow> in_progress (dc_pm s) j \<noteq> None \<longrightarrow> lacking (dc_pm s) j \<noteq> {}"
  shows "achieves (\<lambda>s'. orderly G md n P s' \<and> kept env n p s s' \<and> lacking (dc_pm s') = lacking (dc_pm s)) (finish_piece env p i s)"
proof -
  have good: "pm_good md (dc_pm s)" and n: "n = cast_size (num_pieces md)" using inv_sel[OF inv] by auto
  then have pm: "pm_inv (dc_pm s)" "i < num_bits (pm_bitfield (dc_pm s))" using i(1) by (auto simp: pm_good_def pm_inv_def)
  define s1 where "s1 = (completed_cb env i s)\<lparr>dc_pm := piece_completed (dc_pm s) i\<rparr>"
  have c: "undisturbed env s (completed_cb env i s)" "G (completed_cb env i s)" using steady_completed[OF g] by auto
  have s1: "dc_peers s1 = dc_peers s" "dc_pm s1 = piece_completed (dc_pm s) i" "dc_picker s1 = dc_picker s"
    "is_peer_choking env q (dc_world s1) = is_peer_choking env q (dc_world s)" for q
    using c(1) by (simp_all add: s1_def undisturbed_def same_core_def)
  note x = completed_exact[OF ex s1(1,2) lacking_none_requested[OF i(2) good]] and y = completed_lively[OF pm i(2) others]
    and z = completed_lacking(1)[OF pm i(2)]
  have "honest P md (dc_pm s1)" using pm_step_honest[OF h describes_sel(1)[OF des], of "PieceCompleted i"] s1(2) by simp
  moreover have "G s1" by (rule steady_frame[OF c(2)]) (use c(1) in \<open>auto simp: s1_def undisturbed_def same_core_def\<close>)
  ultimately have o1: "orderly G md n P s1" using x(1) y(1) s1(2) by (simp add: orderly_def)
  have k1: "kept env n p s s1" using y(2) s1 z by (simp add: kept_def)
  have ord: "set (dc_order env (dc_peers s)) = dom (dc_peers s)" by (rule steady_order[OF g inv_finite[OF inv]])
  then have "\<exists>s2. cancel_peers env i (dc_order env (dc_peers s1)) s1 = returns s2 \<and> active_only s1 s2"
    by (intro cancel_peers_quiet x(2)) (simp add: s1(1))
  then obtain s2 where s2: "cancel_piece_requests env i s1 = returns s2" "active_only s1 s2" by (auto simp: cancel_piece_requests_def)
  note o2 = active_only_kept[OF s2(2) o1]
  then have g2: "G s2" by (simp add: orderly_def)
  have "dom (dc_peers s2) = dom (dc_peers s)" using kept_registered[OF o2(2)] s1(1) by (auto simp: dom_def)
  then have "set (dc_order env (dc_peers s2)) \<subseteq> dom (dc_peers s2)" using steady_order[OF g2] inv_finite[OF inv] by simp
  then have "achieves (\<lambda>s'. undisturbed env s2 s' \<and> G s') (broadcast env (HaveMsg (of_nat i)) (dc_order env (dc_peers s2)) s2)"
    by (intro broadcast_steady[OF g2]) (simp add: control_message_def)
  then have "achieves (\<lambda>s'. orderly G md n P s' \<and> kept env n p s s' \<and> lacking (dc_pm s') = lacking (dc_pm s))
      (broadcast env (HaveMsg (of_nat i)) (dc_order env (dc_peers s2)) s2)"
    by (rule achieves_mono)
      (use undisturbed_kept[OF o2(1)] kept_trans[OF kept_trans[OF k1 o2(2)]] o2(3) s1(2) z in auto)
  moreover have "validate_piece (dc_sha1 env) (dc_pm s) i = Inr True" by (rule validate_complete[OF good h des i])
  moreover have "dc_pm (completed_cb env i s) = dc_pm s" using c(1) by (simp add: undisturbed_def same_core_def)
  ultimately show ?thesis
    unfolding finish_piece_def completed_cb_def[symmetric] Let_def by (simp add: s1_def[symmetric] s2(1))
qed

end

section \<open>Serving peers\<close>

text \<open>A peer's answer to a request, when it is honest about the content \<open>P\<close>.\<close>

definition answer :: "(nat \<Rightarrow> bytes) \<Rightarrow> RequestedBlock \<Rightarrow> PeerMessage" where
  "answer P r = PieceMsg (of_nat (rq_piece r)) (of_nat (rq_begin r)) (block_content (P (rq_piece r)) (rq_begin r))"

text \<open>The peers of \<open>U\<close> have unchoked us and have full pipelines; no other peer has been asked for anything.\<close>

definition serving ::
  "('g, 'w) DcEnv \<Rightarrow> (('g, 'w) Coordinator \<Rightarrow> bool) \<Rightarrow> TorrentMetadata \<Rightarrow> nat \<Rightarrow> (nat \<Rightarrow> bytes) \<Rightarrow> ptr set \<Rightarrow> ('g, 'w) Coordinator \<Rightarrow> bool" where
  "serving env G md n P U s \<longleftrightarrow> dc_inv md n s \<and> orderly G md n P s \<and>
     (\<forall>p\<in>U. \<not> is_peer_choking env p (dc_world s) \<and> saturated n p s) \<and>
     (\<forall>p st. dc_peers s p = Some st \<longrightarrow> p \<notin> U \<longrightarrow> outstanding st = [])"

text \<open>Every piece that lacks a block is held by a peer of \<open>U\<close>.\<close>

definition covered :: "nat \<Rightarrow> ptr set \<Rightarrow> ('g, 'w) Coordinator \<Rightarrow> bool" where
  "covered n U s \<longleftrightarrow> (\<forall>i<n. lacking (dc_pm s) i \<noteq> {} \<longrightarrow> (\<exists>p\<in>U. \<exists>b. map_option ds_bitfield (dc_peers s p) = Some b \<and> bf_has b i))"

lemma kept_covered: "kept env n p s s' \<Longrightarrow> covered n U s \<Longrightarrow> covered n U s'"
  unfolding covered_def kept_def le_fun_def by (metis subset_empty)

lemma kept_saturated:
  assumes "kept env n p s s'" "q \<noteq> p" "saturated n q s"
  shows "saturated n q s'"
proof -
  obtain st where st: "dc_peers s q = Some st"
    "length (outstanding st) = 5 \<or> (\<forall>i<n. bf_has (ds_bitfield st) i \<longrightarrow> \<not> has_pending_blocks (dc_pm s) i)"
    using assms(3) by (auto simp: saturated_def)
  have "map_option ds_bitfield (dc_peers s' q) = Some (ds_bitfield st)" "map_option outstanding (dc_peers s' q) = Some (outstanding st)"
    using assms(1,2) st(1) by (simp_all add: kept_def)
  then obtain st' where st': "dc_peers s' q = Some st'" "ds_bitfield st' = ds_bitfield st" "outstanding st' = outstanding st" by auto
  have "has_pending_blocks (dc_pm s') i \<Longrightarrow> i < n \<Longrightarrow> has_pending_blocks (dc_pm s) i" for i
    using assms(1) by (auto simp: kept_def open_pieces_def)
  then show ?thesis using st st' by (auto simp: saturated_def)
qed

lemma kept_serving:
  assumes "serving env G md n P U s" "dc_inv md n s'" "orderly G md n P s'" "kept env n p s s'" "saturated n p s'"
    "\<not> is_peer_choking env p (dc_world s)"
  shows "serving env G md n P (insert p U) s'"
proof -
  have choke: "is_peer_choking env q (dc_world s') = is_peer_choking env q (dc_world s)" for q using assms(4) by (simp add: kept_def)
  have "\<not> is_peer_choking env q (dc_world s') \<and> saturated n q s'" if "q \<in> insert p U" for q
    using that assms(1,5,6) kept_saturated[OF assms(4), of q] choke by (cases "q = p") (auto simp: serving_def)
  moreover have "outstanding st = []" if "dc_peers s' q = Some st" "q \<notin> insert p U" for q st
  proof -
    have "map_option outstanding (dc_peers s q) = map_option outstanding (dc_peers s' q)" using assms(4) that(2) by (simp add: kept_def)
    then have "map_option outstanding (dc_peers s q) = Some (outstanding st)" by (simp add: that(1) del: map_option_eq_Some)
    then show ?thesis using assms(1) that(2) by (auto simp: serving_def)
  qed
  ultimately show ?thesis using assms(2,3) by (simp add: serving_def)
qed

text \<open>As long as blocks are missing, something is requested.\<close>

lemma nothing_left:
  assumes srv: "serving env G md n P U s" and cov: "covered n U s" and idle: "\<forall>p st. dc_peers s p = Some st \<longrightarrow> outstanding st = []"
  shows "missing_blocks n (dc_pm s) = 0"
proof -
  have inv: "dc_inv md n s" using srv by (simp add: serving_def)
  have good: "pm_good md (dc_pm s)" and none: "requested (dc_pm s) = {}"
    using inv_sel[OF inv] idle by (auto simp: owed_def)
  have pm: "pm_inv (dc_pm s)" "pm_metadata (dc_pm s) = md" using good by (simp_all add: pm_good_def)
  have "lacking (dc_pm s) i = {}" if i: "i < n" for i
  proof (rule ccontr)
    assume l: "lacking (dc_pm s) i \<noteq> {}"
    then obtain p st where p: "p \<in> U" "dc_peers s p = Some st" "bf_has (ds_bitfield st) i"
      using cov i by (fastforce simp: covered_def)
    then have "\<not> has_pending_blocks (dc_pm s) i" using srv idle i by (fastforce simp: serving_def saturated_def)
    moreover have "\<not> has_piece (dc_pm s) i" using l by (auto simp: lacking_def)
    ultimately obtain pst where pst: "in_progress (dc_pm s) i = Some pst" "\<forall>b\<in>set (ps_blocks pst). blk_state b \<noteq> Pending"
      by (auto simp: has_pending_blocks_def list_ex_iff split: option.splits)
    have "blk_state b \<noteq> Requested" if "b \<in> set (ps_blocks pst)" for b using none that pst(1) requested_iff[of i _ "dc_pm s"] by blast
    with pst(2) have "\<forall>b\<in>set (ps_blocks pst). blk_state b = Received" by (metis BlockState.exhaust)
    then have "recv_set pst = {..<length (ps_blocks pst)}" by (auto simp: recv_set_def)
    moreover have e: "entered (dc_pm s) i = pst" by (simp add: entered_def pst(1))
    moreover have "length (ps_blocks pst) = n_blocks (get_piece_length md i)"
      using piece_ok_blocks[OF entered_ok[OF pm(1), of i]] e pm(2) by simp
    ultimately have "lacking (dc_pm s) i = {}" by (simp add: lacking_def pm(2))
    with l show False ..
  qed
  then show ?thesis by (simp add: missing_blocks_def)
qed

lemma none_missing_complete:
  assumes "missing_blocks n pm = 0" "lively n pm" "\<forall>i<n. 0 < get_piece_length (pm_metadata pm) i" "i < n"
  shows "has_piece pm i"
proof (rule ccontr)
  assume nh: "\<not> has_piece pm i"
  have "lacking pm i = {}" using assms(1,4) by (simp add: missing_blocks_def)
  then have "in_progress pm i = None" using assms(2,4) by (auto simp: lively_def)
  with nh \<open>lacking pm i = {}\<close> assms(3,4) show False by (auto simp: lacking_def entered_def lessThan_empty_iff)
qed

context steady_link
begin

text \<open>Handling the block of a request, up to the refill of the pipeline.\<close>

lemma block_handled:
  assumes inv: "dc_inv md n s" and ord: "orderly G md n P s" and des: "describes (dc_sha1 env) md n P"
    and st: "dc_peers s p = Some st" and key: "(i, bgn) \<in> keys (outstanding st)"
    and br: "block_received (dc_pm s) i bgn (block_content (P i) bgn) = (completed, pm)"
    and s1: "s1 = (dc_put s p (st\<lparr>outstanding := drop_request i bgn (outstanding st)\<rparr>))\<lparr>dc_pm := pm\<rparr>"
  shows "achieves (\<lambda>s'. dc_inv md n s' \<and> orderly G md n P s' \<and> kept env n p s s' \<and> lacking (dc_pm s') = lacking pm)
    (if completed then bindR (finish_piece env p i s1) (\<lambda>s. bindR (dc_entry s p) (\<lambda>st.
       returns (if active_piece st = Some i then dc_put s p (st\<lparr>active_piece := None\<rparr>) else s))) else returns s1)"
proof -
  note x = block_stored_orderly[OF inv ord des st key br s1]
  have inv1: "dc_inv md n s1" unfolding s1 by (rule block_stored_inv[OF inv st br])
  have pm1: "dc_pm s1 = pm" by (simp add: s1)
  have "dom (dc_peers s1) = dom (dc_peers s)" "dc_world s1 = dc_world s" using st by (auto simp: s1 split: if_splits)
  then have g1: "G s1" using ord by (intro steady_frame[of s s1]) (simp_all add: orderly_def)
  let ?Q = "\<lambda>s'. dc_inv md n s' \<and> orderly G md n P s' \<and> kept env n p s s' \<and> lacking (dc_pm s') = lacking pm"
  let ?next = "\<lambda>s. bindR (dc_entry s p) (\<lambda>st. returns (if active_piece st = Some i then dc_put s p (st\<lparr>active_piece := None\<rparr>) else s))"
  show ?thesis
  proof (cases completed)
    case False
    then have "lively n pm" unfolding lively_def using x(3,6) by metis
    then show ?thesis using False x(1,2,4) inv1 g1 pm1 by (simp add: orderly_def)
  next
    case True
    have "achieves (\<lambda>s'. orderly G md n P s' \<and> kept env n p s1 s' \<and> lacking (dc_pm s') = lacking (dc_pm s1)) (finish_piece env p i s1)"
      using True x pm1 by (intro finish_orderly[OF inv1 _ _ des g1]) simp_all
    from achieves_yields[OF this finish_piece_inv[OF inv1]]
    have "achieves (\<lambda>s'. achieves ?Q (?next s')) (finish_piece env p i s1)"
    proof (rule achieves_mono)
      fix s2
      assume s2: "(orderly G md n P s2 \<and> kept env n p s1 s2 \<and> lacking (dc_pm s2) = lacking (dc_pm s1)) \<and> dc_inv md n s2"
      then have k: "kept env n p s s2" using kept_trans[OF x(4)] by blast
      then obtain st2 where st2: "dc_peers s2 p = Some st2" using kept_registered[of env n p s s2 p] st by auto
      have a: "active_only s2 (dc_put s2 p (st2\<lparr>active_piece := None\<rparr>))" by (rule active_only_put[OF st2])
      have o2: "orderly G md n P s2" using s2 by simp
      have "?Q (dc_put s2 p (st2\<lparr>active_piece := None\<rparr>))"
        using inv_put_active[of md n s2 p st2 None] st2 active_only_kept[OF a o2] kept_trans[OF k] s2 pm1 by simp
      then show "achieves ?Q (?next s2)" using s2 k pm1 st2 by (simp add: dc_entry_def)
    qed
    then show ?thesis using True by simp
  qed
qed

text \<open>Refilling the pipeline of a peer.\<close>

lemma refill_serving:
  assumes srv: "serving env G md n P U s" and des: "describes (dc_sha1 env) md n P" and draw: "draw_in_range (dc_draw env)"
    and p: "dc_peers s p \<noteq> None" "\<not> is_peer_choking env p (dc_world s)"
    and s': "dc_inv md n s'" "orderly G md n P s'" "kept env n p s s'"
  shows "achieves (\<lambda>s2. serving env G md n P (insert p U) s2 \<and> kept env n p s s2 \<and> lacking (dc_pm s2) = lacking (dc_pm s'))
    (fill_request_pipeline env p s')"
proof -
  have "dc_peers s' p \<noteq> None" "\<not> is_peer_choking env p (dc_world s')" using p s'(3) kept_registered[OF s'(3), of p] by (simp_all add: kept_def)
  from fill_orderly[OF s'(1,2) des draw this] show ?thesis
  proof (rule achieves_mono)
    fix s2
    assume s2: "(dc_inv md n s2 \<and> orderly G md n P s2 \<and> kept env n p s' s2 \<and> lacking (dc_pm s2) = lacking (dc_pm s')) \<and> saturated n p s2"
    have k: "kept env n p s s2" using s2 kept_trans[OF s'(3)] by blast
    have "serving env G md n P (insert p U) s2" using s2 by (intro kept_serving[OF srv _ _ k _ p(2)]) auto
    with k s2 show "serving env G md n P (insert p U) s2 \<and> kept env n p s s2 \<and> lacking (dc_pm s2) = lacking (dc_pm s')" by simp
  qed
qed

lemma answer_serving:
  assumes srv: "serving env G md n P U s" and des: "describes (dc_sha1 env) md n P" and draw: "draw_in_range (dc_draw env)"
    and st: "dc_peers s p = Some st" and r: "r \<in> set (outstanding st)"
  shows "achieves (\<lambda>s'. serving env G md n P U s' \<and> kept env n p s s' \<and> missing_blocks n (dc_pm s) = Suc (missing_blocks n (dc_pm s')))
    (handle_peer_message env p (answer P r) s)"
proof -
  have inv: "dc_inv md n s" and ord: "orderly G md n P s" using srv by (simp_all add: serving_def)
  have good: "pm_good md (dc_pm s)" and n: "n = cast_size (num_pieces md)" "n \<le> 2 ^ 32" using inv_sel[OF inv] by auto
  have U: "p \<in> U" using srv st r unfolding serving_def by (metis empty_iff list.set(1))
  then have choke: "\<not> is_peer_choking env p (dc_world s)" using srv by (simp add: serving_def)
  let ?i = "rq_piece r" and ?b = "rq_begin r"
  have key: "(?i, ?b) \<in> keys (outstanding st)" using r by (auto simp: keys_def)
  then have req: "(?i, ?b) \<in> requested (dc_pm s)" using ord st by (auto simp: orderly_def exact_def)
  have i: "?i < n" "?b < get_piece_length md ?i" using requested_block[OF good req] n(1) by metis+
  have "get_piece_length md ?i < 2 ^ 32" by (simp add: get_piece_length_def cast_uint32_def Let_def nat_less_iff)
  then have nums: "unat (of_nat ?i :: u32) = ?i" "unat (of_nat ?b :: u32) = ?b" using i n(2) by (simp_all add: unat_of_nat)
  obtain completed pm where br: "block_received (dc_pm s) ?i ?b (block_content (P ?i) ?b) = (completed, pm)" by fastforce
  define s1 where "s1 = (dc_put s p (st\<lparr>outstanding := drop_request ?i ?b (outstanding st)\<rparr>))\<lparr>dc_pm := pm\<rparr>"
  have less: "missing_blocks n (dc_pm s) = Suc (missing_blocks n pm)"
    using block_stored_orderly(5)[OF inv ord des st key br s1_def] .
  let ?Q = "\<lambda>s'. serving env G md n P U s' \<and> kept env n p s s' \<and> missing_blocks n (dc_pm s) = Suc (missing_blocks n (dc_pm s'))"
  have refill: "achieves ?Q (if \<not> is_peer_choking env p (dc_world s2) then fill_request_pipeline env p s2 else returns s2)"
    if s2: "dc_inv md n s2 \<and> orderly G md n P s2 \<and> kept env n p s s2 \<and> lacking (dc_pm s2) = lacking pm" for s2
  proof -
    have "achieves (\<lambda>s'. serving env G md n P (insert p U) s' \<and> kept env n p s s' \<and> lacking (dc_pm s') = lacking (dc_pm s2)) (fill_request_pipeline env p s2)"
      using s2 st by (intro refill_serving[OF srv des draw _ choke]) auto
    then have "achieves ?Q (fill_request_pipeline env p s2)"
      by (rule achieves_mono) (use s2 less U in \<open>simp add: insert_absorb missing_blocks_def\<close>)
    then show ?thesis using s2 choke by (simp add: kept_def)
  qed
  have "handle_peer_message env p (answer P r) s = on_piece env p st ?i ?b (block_content (P ?i) ?b) s"
    by (simp add: handle_peer_message_def st answer_def nums)
  then show ?thesis
    unfolding on_piece_def Let_def dc_put_sel br prod.case s1_def[symmetric]
    using achieves_bindI[OF block_handled[OF inv ord des st key br s1_def] refill] by simp
qed

lemma unchoke_serving:
  assumes srv: "serving env G md n P U s" and des: "describes (dc_sha1 env) md n P" and draw: "draw_in_range (dc_draw env)"
    and p: "dc_peers s p \<noteq> None" "\<not> is_peer_choking env p (dc_world s)"
  shows "achieves (\<lambda>s'. serving env G md n P (insert p U) s' \<and> kept env n p s s' \<and> lacking (dc_pm s') = lacking (dc_pm s))
    (handle_peer_message env p UnchokeMsg s)"
  using refill_serving[OF assms, of s] srv p(1) by (auto simp: handle_peer_message_def serving_def)

end

section \<open>The whole download\<close>

text \<open>A choice among the outstanding requests: the order in which peers answer.\<close>

definition picks_outstanding :: "(('g, 'w) Coordinator \<Rightarrow> (ptr \<times> RequestedBlock) option) \<Rightarrow> bool" where
  "picks_outstanding pick \<longleftrightarrow> (\<forall>s. finite (dom (dc_peers s)) \<longrightarrow> (case pick s of
     None \<Rightarrow> (\<forall>p st. dc_peers s p = Some st \<longrightarrow> outstanding st = [])
   | Some (p, r) \<Rightarrow> (\<exists>st. dc_peers s p = Some st \<and> r \<in> set (outstanding st))))"

text \<open>A download that has not begun.\<close>

definition fresh_download :: "('g, 'w) Coordinator \<Rightarrow> bool" where
  "fresh_download s \<longleftrightarrow> in_progress (dc_pm s) = Map.empty \<and> (\<forall>p st. dc_peers s p = Some st \<longrightarrow> outstanding st = [])"

lemma fresh_serving:
  assumes "dc_inv md n s" "fresh_download s" "G s"
  shows "serving env G md n P {} s"
  using assms by (auto simp: serving_def orderly_def honest_def dc_inv_def pm_good_def fresh_download_def exact_def lively_def)

end
