(* ===== verification/Engine_Swarm.thy ===== *)
theory Engine_Swarm
  imports Engine_Progress Swarm
begin

text \<open>
  The download of the whole program completes: the interface \<open>steady_link\<close> of the coordinator is interpreted on the
  connections of the program, for a system whose sockets take what is sent, and honest peers then deliver every
  piece, whatever the order of their answers.
\<close>

section \<open>Connections that can be sent to\<close>

text \<open>What is asked of \<^verbatim>\<open>send\<close>: it takes at least one byte or has no room at the moment.\<close>

definition sends_accepted :: "'w Sockets \<Rightarrow> bool" where
  "sends_accepted sk \<longleftrightarrow> (\<forall>fd bs w. bs \<noteq> [] \<longrightarrow> (case fst (sys_send sk fd bs w) of Inl e \<Rightarrow> e = EAGAIN | Inr k \<Rightarrow> 0 < k))"

definition linked :: "('g, 'i, 'o) Platform \<Rightarrow> ('g, 'i, 'o) engine \<Rightarrow> bool" where
  "linked pf s \<longleftrightarrow> sends_accepted (pf_sock pf) \<and> enumerates (pf_order pf) \<and>
     (\<forall>p\<in>dom (dc_peers s). \<exists>c. connections (dc_world s) p = Some c \<and> attached c)"

lemma send_loop_accepted:
  assumes "sends_accepted (pf_sock pf)"
  shows "\<exists>k' s'. send_loop (env_sock (peer_env pf p)) fd tx k s = Some (k', False, s') \<and> sys_only s s'"
proof (induction "length tx - k" arbitrary: k s rule: less_induct)
  case less
  let ?sk = "env_sock (peer_env pf p)"
  obtain r s1 where r: "sys_send ?sk fd (drop k tx) s = (r, s1)" by fastforce
  have sys: "sys_only s s1" using peer_env_sys(5)[of s pf p fd "drop k tx"] r by simp
  show ?case
  proof (cases "k < length tx")
    case True
    have "fst (sys_send ?sk fd (drop k tx) s) = fst (sys_send (pf_sock pf) fd (drop k tx) (os (dc_world s)))"
      by (simp add: peer_env_def with_os_def split_beta Let_def)
    then have "case r of Inl e \<Rightarrow> e = EAGAIN | Inr j \<Rightarrow> 0 < j" using assms r True by (simp add: sends_accepted_def)
    then consider "r = Inl EAGAIN" | j where "r = Inr j" "0 < j" by (cases r) auto
    then show ?thesis
    proof cases
      case 1
      then show ?thesis using True r sys by (subst send_loop.simps) simp
    next
      case 2
      then have "\<exists>k' s'. send_loop ?sk fd tx (k + j) s1 = Some (k', False, s') \<and> sys_only s1 s'"
        using True by (intro less.hyps) simp
      then show ?thesis using True r 2 sys_only_trans[OF sys] by (subst send_loop.simps) auto
    qed
  qed (subst send_loop.simps, simp)
qed

lemma control_serialize: "control_message m \<Longrightarrow> serialize m = Inr (wire m) \<and> note_sent m c = c"
  using serialize_wire[of m] by (auto simp: control_message_def)

lemma engine_send_accepted:
  assumes "sends_accepted (pf_sock pf)" "connections (dc_world s) p = Some c" "pc_state c = Active" "serialize m = Inr bs"
  shows "\<exists>tx s'. engine_send pf p m s = returns (put_conn p ((note_sent m c)\<lparr>tx_buffer := tx\<rparr>) s') \<and> sys_only s s'"
proof -
  let ?tx = "tx_buffer c @ bs" and ?env = "peer_env pf p"
  let ?c = "\<lambda>tx. (note_sent m c)\<lparr>tx_buffer := tx\<rparr>"
  obtain k s1 where k: "send_loop (env_sock ?env) (tcp_fd (pc_conn (note_sent m c))) ?tx 0 s = Some (k, False, s1)" "sys_only s s1"
    using send_loop_accepted[OF assms(1)] by blast
  have upd: "sys_only s (update_epoll_interests ?env c' s')" if "sys_only s s'" for c' :: "engine_cb PeerConnection" and s'
    using that sys_only_trans[OF that peer_env_sys(10)] by (simp add: update_epoll_interests_def Let_def)
  have "\<exists>tx s'. handle_write (run_disconnect p) ?env (?c ?tx, s) = returns (?c tx, s') \<and> sys_only s s'"
    using k upd[OF k(2)] upd[OF sys_only_refl] by (cases "?tx = []") (auto simp: handle_write_def Let_def)
  then obtain tx s' where w: "handle_write (run_disconnect p) ?env (?c ?tx, s) = returns (?c tx, s')" "sys_only s s'" by blast
  have "engine_send pf p m s = returns (put_conn p (?c tx) s')"
    using assms(2-4) w(1) by (simp add: engine_send_def with_conn_def send_message_def Let_def)
  with w(2) show ?thesis by blast
qed

interpretation steady: steady_link "dc_env pf" "linked pf"
proof
  fix s :: "('a, 'b, 'c) engine" and p m
  assume l: "linked pf s" and p: "dc_peers s p \<noteq> None" and m: "control_message m"
  then obtain c where c: "connections (dc_world s) p = Some c" "attached c" by (auto simp: linked_def)
  then obtain tx s1 where s1: "engine_send pf p m s = returns (put_conn p (c\<lparr>tx_buffer := tx\<rparr>) s1)" "sys_only s s1"
    using engine_send_accepted[OF _ c(1), of pf m "wire m"] control_serialize[OF m, of c] l by (auto simp: linked_def attached_def)
  let ?s = "put_conn p (c\<lparr>tx_buffer := tx\<rparr>) s1"
  note sel = sys_only_sel[OF s1(2)]
  have "undisturbed (dc_env pf) s ?s"
    using same_core_sys[OF same_core_refl s1(2)] c(1) by (simp add: undisturbed_def dc_env_def sel)
  moreover have "linked pf ?s" using l c by (auto simp: linked_def sel attached_def)
  ultimately show "achieves (\<lambda>s'. undisturbed (dc_env pf) s s' \<and> linked pf s') (dc_send (dc_env pf) p m s)"
    by (simp add: dc_env_def s1(1))
next
  fix s :: "('a, 'b, 'c) engine" and i
  assume "linked pf s"
  then show "undisturbed (dc_env pf) s (completed_cb (dc_env pf) i s) \<and> linked pf (completed_cb (dc_env pf) i s)"
    by (simp add: undisturbed_def completed_cb_def dc_env_def same_core_def linked_def save_piece_def split: sum.split)
qed (auto simp: linked_def enumerates_def dc_env_def)

section \<open>Arriving messages\<close>

text \<open>A message of a peer, taken off the receive buffer of its connection.\<close>

definition message_arrives :: "('g, 'i, 'o) Platform \<Rightarrow> ptr \<Rightarrow> PeerMessage \<Rightarrow> ('g, 'i, 'o) engine \<Rightarrow> ('g, 'i, 'o) engine effect" where
  "message_arrives pf p m s = with_conn p (deliver_message (run_callbacks pf p) m) s"

text \<open>This is what the receive loop does with the bytes of the message.\<close>

lemma process_arrival:
  assumes "pc_state c = Active" "msg_fits m" "rx_buffer c = wire m @ rest"
  shows "process_rx_buffer rn env (c, s) = bindR (deliver_message rn m (c\<lparr>rx_buffer := rest\<rparr>, s)) (process_rx_buffer rn env)"
proof -
  have "rx_buffer c \<noteq> []" using assms(3) wire_neq_Nil[of m] by simp
  then show ?thesis
    using assms deserialize_wire[OF assms(2), of rest]
    by (subst process_rx_buffer_unfold) (simp add: process_step_def bindR_assoc)
qed

lemma message_arrives_handled:
  assumes "connections (dc_world s) p = Some c" "attached c"
    "achieves Q (handle_peer_message (dc_env pf) p m (put_conn p (note_received m c) s))"
    "\<And>s'. Q s' \<Longrightarrow> connections (dc_world s') p \<noteq> None"
  shows "achieves Q (message_arrives pf p m s)"
proof -
  obtain s' where s': "handle_peer_message (dc_env pf) p m (put_conn p (note_received m c) s) = returns s'" "Q s'"
    using assms(3) by (auto simp: achieves_iff)
  obtain c' where c': "connections (dc_world s') p = Some c'" using assms(4)[OF s'(2)] by auto
  have "on_message_cb c = Some DcMessage" using assms(2) by (simp add: attached_def)
  then have "message_arrives pf p m s = returns s'"
    using s'(1) c' put_conn_same[OF c']
    by (simp add: message_arrives_def with_conn_def assms(1) deliver_message_def run_callback_def in_program_def)
  then show ?thesis using s'(2) by simp
qed

lemma message_arrives_ok:
  assumes "engine_ok mx pf md n s" "dc_peers s p \<noteq> None"
  shows "yields (engine_ok mx pf md n) (message_arrives pf p m s)"
  unfolding message_arrives_def
proof (rule with_conn_ok[OF assms(1)])
  fix c
  assume sd: "sound mx pf md n p (c, s)"
  then have "attached c" using assms(2) by (auto simp: sound_iff holds_def program_ok_def heap_put)
  then have "pc_state (note_received m c) = Active" by (simp add: attached_def)
  then show "yields (sound mx pf md n p) (deliver_message (run_callbacks pf p) m (c, s))"
    using sounds.J_message[OF sounds.J_flags(2)[OF sd]] by (simp add: deliver_message_def)
qed

section \<open>A peer introduces itself\<close>

lemma process_handshake_arrival:
  assumes "pc_state c = Handshaking" "handshake_wf h" "handshake_serialize h = Inr bs" "rx_buffer c = bs @ rest"
  shows "process_rx_buffer rn env (c, s) =
    bindR (run_callback rn (on_handshake_cb c) (CbHandshake h) (c\<lparr>rx_buffer := rest, pc_state := Active\<rparr>, s)) (process_rx_buffer rn env)"
proof -
  have bs: "bs = 19 # protocol_name @ reserved h @ hs_info_hash h @ hs_peer_id h"
    using handshake_wire[OF assms(2)] assms(3) by simp
  then have len: "length bs = 68" using assms(2) by (simp add: handshake_wf_def protocol_name_def)
  then have "handshake_deserialize (take 68 (rx_buffer c)) = Some h"
    using assms(2,4) bs by (simp add: handshake_deserialize_def handshake_wf_def protocol_name_def)
  moreover have "rx_buffer c \<noteq> []" "bs \<noteq> []" using assms(4) bs by simp_all
  ultimately show ?thesis
    using assms(1,4) len by (subst process_rx_buffer_unfold) (simp add: process_step_def Let_def bindR_assoc)
qed

text \<open>The handshake registers the peer with the coordinator and expresses interest.\<close>

lemma handshake_registers:
  assumes "sends_accepted (pf_sock pf)" "pc_state c = Active" "0 < p"
  shows "\<exists>tx s'. run_callback (run_callbacks pf p) (Some PmHandshake) (CbHandshake h) (c, s) =
      returns (c\<lparr>am_interested := True, on_message_cb := Some DcMessage, on_disconnect_cb := Some DcDisconnect, tx_buffer := tx\<rparr>, s') \<and>
    dc_peers s' = (dc_peers s)(p \<mapsto> \<lparr>ds_bitfield = bitfield_empty (dc_num_pieces s), outstanding = [], active_piece = None\<rparr>) \<and>
    dc_pm s' = dc_pm s \<and> dc_num_pieces s' = dc_num_pieces s \<and>
    connections (dc_world s') p = Some (c\<lparr>am_interested := True, on_message_cb := Some DcMessage, on_disconnect_cb := Some DcDisconnect, tx_buffer := tx\<rparr>)"
proof -
  let ?s = "register_peer (dc_env pf) p (put_conn p c s)"
  let ?c = "c\<lparr>on_message_cb := Some DcMessage, on_disconnect_cb := Some DcDisconnect\<rparr>"
  have c: "connections (dc_world ?s) p = Some ?c"
    using assms(3) by (simp add: register_peer_def dc_env_def dc_put_def)
  have "serialize InterestedMsg = Inr (wire InterestedMsg)" by (rule serialize_wire) simp
  then obtain tx s1 where s1: "engine_send pf p InterestedMsg ?s = returns (put_conn p ((note_sent InterestedMsg ?c)\<lparr>tx_buffer := tx\<rparr>) s1)" "sys_only ?s s1"
    using engine_send_accepted[OF assms(1) c, of InterestedMsg] assms(2) by auto
  note sel = sys_only_sel[OF s1(2)]
  have num: "dc_num_pieces s1 = dc_num_pieces ?s" using s1(2) by (auto simp: sys_only_def upd_world_def)
  show ?thesis
    using assms(3) s1(1) sel num by (intro exI[of _ tx]) (simp add: run_callback_def in_program_def register_peer_def dc_put_def)
qed

text \<open>The bitfield of a peer that chokes us, when we are already interested.\<close>

lemma bitfield_noted:
  assumes "dc_peers s p = Some st" "on_message_cb c = Some DcMessage" "am_interested c" "peer_choking c"
  shows "\<exists>s'. deliver_message (run_callbacks pf p) (BitfieldMsg f) (c, s) = returns (c, s') \<and>
    dc_peers s' = (dc_peers s)(p \<mapsto> st\<lparr>ds_bitfield := bitfield_of_bytes f (dc_num_pieces s)\<rparr>) \<and> dc_pm s' = dc_pm s \<and>
    connections (dc_world s') p = Some c"
proof -
  let ?s = "put_conn p c s"
  have sel: "dc_num_pieces ?s = dc_num_pieces s" by (simp add: put_conn_def upd_world_def)
  have "is_interested (dc_env pf) p (dc_world ?s)" "is_peer_choking (dc_env pf) p (dc_world ?s)"
    using assms(3,4) by (simp_all add: dc_env_def)
  then obtain pp where "handle_peer_message (dc_env pf) p (BitfieldMsg f) ?s =
      returns (dc_put (?s\<lparr>dc_picker := pp\<rparr>) p (st\<lparr>ds_bitfield := bitfield_of_bytes f (dc_num_pieces s)\<rparr>))"
    using assms(1) by (simp add: handle_peer_message_def on_bitfield_def Let_def sel)
  then show ?thesis using assms(2) by (simp add: deliver_message_def run_callback_def in_program_def dc_put_def)
qed

lemma peer_introduced_held:
  assumes "sends_accepted (pf_sock pf)" "pc_state c = Handshaking" "on_handshake_cb c = Some PmHandshake" "peer_choking c" "0 < p"
    "handshake_wf h" "handshake_serialize h = Inr bs" "rx_buffer c = bs @ wire (BitfieldMsg f)" "msg_fits (BitfieldMsg f)"
  shows "\<exists>c' s'. process_rx_buffer (run_callbacks pf p) (peer_env pf p) (c, s) = returns (c', s') \<and> attached c' \<and> am_interested c' \<and>
    dc_peers s' = (dc_peers s)(p \<mapsto> \<lparr>ds_bitfield = bitfield_of_bytes f (dc_num_pieces s), outstanding = [], active_piece = None\<rparr>) \<and>
    dc_pm s' = dc_pm s"
proof -
  let ?c = "c\<lparr>rx_buffer := wire (BitfieldMsg f), pc_state := Active\<rparr>" and ?rn = "run_callbacks pf p"
  let ?new = "\<lparr>ds_bitfield = bitfield_empty (dc_num_pieces s), outstanding = [], active_piece = None\<rparr>"
  let ?d = "\<lambda>rx tx. c\<lparr>rx_buffer := rx, pc_state := Active, am_interested := True, on_message_cb := Some DcMessage,
    on_disconnect_cb := Some DcDisconnect, tx_buffer := tx\<rparr>"
  obtain tx s1 where s1: "run_callback ?rn (Some PmHandshake) (CbHandshake h) (?c, s) = returns (?d (wire (BitfieldMsg f)) tx, s1)"
    "dc_peers s1 = (dc_peers s)(p \<mapsto> ?new)" "dc_pm s1 = dc_pm s" "dc_num_pieces s1 = dc_num_pieces s"
    using handshake_registers[OF assms(1) _ assms(5), of ?c h s] by auto
  obtain s2 where s2: "deliver_message ?rn (BitfieldMsg f) (?d [] tx, s1) = returns (?d [] tx, s2)"
    "dc_peers s2 = (dc_peers s)(p \<mapsto> ?new\<lparr>ds_bitfield := bitfield_of_bytes f (dc_num_pieces s)\<rparr>)" "dc_pm s2 = dc_pm s"
    using bitfield_noted[of s1 p ?new "?d [] tx" pf f] s1(2-4) assms(4) by auto
  have taken: "(?d (wire (BitfieldMsg f)) tx)\<lparr>rx_buffer := []\<rparr> = ?d [] tx" by (cases c) simp
  have "process_rx_buffer ?rn (peer_env pf p) (c, s) = process_rx_buffer ?rn (peer_env pf p) (?d (wire (BitfieldMsg f)) tx, s1)"
    using process_handshake_arrival[OF assms(2,6-8), of ?rn "peer_env pf p" s] s1(1) assms(3) by simp
  also have "\<dots> = process_rx_buffer ?rn (peer_env pf p) (?d [] tx, s2)"
    using process_arrival[of "?d (wire (BitfieldMsg f)) tx" "BitfieldMsg f" "[]" ?rn "peer_env pf p" s1, unfolded taken] s2(1) assms(9) by simp
  also have "\<dots> = returns (?d [] tx, s2)" by (subst process_rx_buffer_unfold) simp
  finally show ?thesis using s2(2,3) by (intro exI[of _ "?d [] tx"] exI[of _ s2]) (simp add: attached_def)
qed

text \<open>The same as an event of the descriptor: the system has received a handshake and a bitfield, in any portions.\<close>

lemma peer_introduced_event:
  assumes "sends_accepted (pf_sock pf)" "connections (dc_world s) p = Some c" "pc_state c = Handshaking" "on_handshake_cb c = Some PmHandshake"
    "peer_choking c" "0 < p" "handshake_wf h" "handshake_serialize h = Inr bs" "msg_fits (BitfieldMsg f)"
    "recv_loop (env_sock (peer_env pf p)) (tcp_fd (pc_conn c)) (rx_buffer c) s = Some (bs @ wire (BitfieldMsg f), False, False, s1)"
  shows "\<exists>c' s'. peer_events pf p EPOLLIN s = returns s' \<and> connections (dc_world s') p = Some c' \<and> attached c' \<and> am_interested c' \<and>
    dc_peers s' = (dc_peers s)(p \<mapsto> \<lparr>ds_bitfield = bitfield_of_bytes f (dc_num_pieces s), outstanding = [], active_piece = None\<rparr>) \<and>
    dc_pm s' = dc_pm s"
proof -
  have "left_alone p s (c, s)" by (simp add: left_alone_def)
  from alone.recv_loop_J[OF this assms(10)]
  have core: "same_core s s1" using assms(3) by (auto simp: left_alone_def)
  let ?c = "c\<lparr>rx_buffer := bs @ wire (BitfieldMsg f)\<rparr>"
  obtain c' s' where s': "process_rx_buffer (run_callbacks pf p) (peer_env pf p) (?c, s1) = returns (c', s')" "attached c'" "am_interested c'"
    "dc_peers s' = (dc_peers s1)(p \<mapsto> \<lparr>ds_bitfield = bitfield_of_bytes f (dc_num_pieces s1), outstanding = [], active_piece = None\<rparr>)"
    "dc_pm s' = dc_pm s1"
    using peer_introduced_held[OF assms(1) _ _ _ assms(6-8) _ assms(9), of ?c s1] assms(3-5) by auto
  have masks: "EPOLLIN AND (EPOLLERR OR EPOLLHUP) = 0" "EPOLLIN AND EPOLLRDHUP = 0" "EPOLLIN AND EPOLLOUT = 0" "EPOLLIN AND EPOLLIN \<noteq> 0"
    by (simp_all add: EPOLLIN_def EPOLLERR_def EPOLLHUP_def EPOLLRDHUP_def EPOLLOUT_def)
  have "handle_events (run_callbacks pf p) (peer_env pf p) EPOLLIN (c, s) = returns (c', s')"
    using s'(1) assms(3,10) masks by (simp add: handle_events_def finish_connect_def handle_read_def Let_def)
  then have "peer_events pf p EPOLLIN s = returns (put_conn p c' s')" by (simp add: peer_events_def with_conn_def assms(2))
  with s' core show ?thesis by (intro exI[of _ c'] exI[of _ "put_conn p c' s'"]) (simp add: same_core_def)
qed

end
