(* ===== verification/Engine_Download.thy ===== *)
theory Engine_Download
  imports Engine_Swarm
begin

text \<open>
  The whole download: peers that unchoke us, that together have every missing piece and that answer every request with
  the content that the metadata describe complete the download with as many answers as blocks are missing,
  whatever the order of the answers, and the pieces are then on disk.
\<close>

section \<open>Arrivals\<close>

text \<open>Peers unchoke us one after the other.\<close>

primrec unchoked_by :: "('g, 'i, 'o) Platform \<Rightarrow> ptr list \<Rightarrow> ('g, 'i, 'o) engine \<Rightarrow> ('g, 'i, 'o) engine effect" where
  "unchoked_by pf [] s = returns s"
| "unchoked_by pf (p # ps) s = bindR (message_arrives pf p UnchokeMsg s) (unchoked_by pf ps)"

text \<open>A number of answers, each to the outstanding request that \<open>pick\<close> selects: their order is arbitrary.\<close>

primrec answered ::
  "('g, 'i, 'o) Platform \<Rightarrow> (nat \<Rightarrow> bytes) \<Rightarrow> (('g, 'i, 'o) engine \<Rightarrow> (ptr \<times> RequestedBlock) option) \<Rightarrow> nat \<Rightarrow> ('g, 'i, 'o) engine \<Rightarrow>
     ('g, 'i, 'o) engine effect" where
  "answered pf P pick 0 s = returns s"
| "answered pf P pick (Suc k) s =
     (case pick s of
        None \<Rightarrow> returns s
      | Some (p, r) \<Rightarrow> bindR (message_arrives pf p (answer P r) s) (answered pf P pick k))"

text \<open>The state between arrivals: the peers of \<open>U\<close> serve us, and the invariant of the program holds.\<close>

definition supplied :: "nat \<Rightarrow> ('g, 'i, 'o) Platform \<Rightarrow> TorrentMetadata \<Rightarrow> nat \<Rightarrow> (nat \<Rightarrow> bytes) \<Rightarrow> ptr set \<Rightarrow> ('g, 'i, 'o) engine \<Rightarrow> bool" where
  "supplied mx pf md n P U s \<longleftrightarrow> serving (dc_env pf) (linked pf) md n P U s \<and> engine_ok mx pf md n s"

lemma supplied_conn:
  assumes "supplied mx pf md n P U s" "dc_peers s p \<noteq> None"
  obtains c where "connections (dc_world s) p = Some c" "attached c"
proof -
  have "linked pf s" using assms(1) by (simp add: supplied_def serving_def orderly_def)
  then show ?thesis using assms(2) that by (auto simp: linked_def)
qed

lemma serving_conn:
  assumes "serving (dc_env pf) (linked pf) md n P U s'" "kept (dc_env pf) n p s s'" "dc_peers s p \<noteq> None"
  shows "connections (dc_world s') p \<noteq> None"
proof -
  have "linked pf s'" "dc_peers s' p \<noteq> None" using assms kept_registered[OF assms(2), of p] by (auto simp: serving_def orderly_def)
  then show ?thesis by (auto simp: linked_def)
qed

text \<open>The arrival of an unchoke message changes only a flag of the connection before the coordinator handles it.\<close>

lemma serving_unchoked:
  assumes "serving (dc_env pf) (linked pf) md n P U s" "connections (dc_world s) p = Some c" "attached c"
  shows "serving (dc_env pf) (linked pf) md n P U (put_conn p (note_received UnchokeMsg c) s)"
proof -
  have "linked pf (put_conn p (note_received UnchokeMsg c) s)"
    using assms by (auto simp: serving_def orderly_def linked_def attached_def)
  then show ?thesis using assms(1,2) by (auto simp: serving_def orderly_def exact_def saturated_def dc_env_def)
qed

lemma unchoke_supplied:
  assumes sup: "supplied mx pf md n P U s" and des: "describes (pf_sha1 pf) md n P" and draw: "draw_in_range (pf_draw pf)"
    and p: "dc_peers s p \<noteq> None" and cov: "covered n W s"
  shows "achieves (\<lambda>s'. supplied mx pf md n P (insert p U) s' \<and> lacking (dc_pm s') = lacking (dc_pm s) \<and> covered n W s' \<and>
    dom (dc_peers s') = dom (dc_peers s)) (message_arrives pf p UnchokeMsg s)"
proof -
  obtain c where c: "connections (dc_world s) p = Some c" "attached c" by (rule supplied_conn[OF sup p])
  let ?s = "put_conn p (note_received UnchokeMsg c) s"
  have srv: "serving (dc_env pf) (linked pf) md n P U ?s" using serving_unchoked[OF _ c] sup by (simp add: supplied_def)
  have env: "describes (dc_sha1 (dc_env pf)) md n P" "draw_in_range (dc_draw (dc_env pf))"
    "\<not> is_peer_choking (dc_env pf) p (dc_world ?s)" using des draw by (simp_all add: dc_env_def)
  let ?Q = "\<lambda>s'. serving (dc_env pf) (linked pf) md n P (insert p U) s' \<and> kept (dc_env pf) n p ?s s' \<and> lacking (dc_pm s') = lacking (dc_pm ?s)"
  have "achieves ?Q (handle_peer_message (dc_env pf) p UnchokeMsg ?s)"
    by (rule steady.unchoke_serving[OF srv env(1,2) _ env(3)]) (simp add: p)
  then have "achieves ?Q (message_arrives pf p UnchokeMsg s)"
    by (rule message_arrives_handled[OF c]) (use serving_conn[of pf md n P _ _ p ?s] p in auto)
  moreover have "yields (engine_ok mx pf md n) (message_arrives pf p UnchokeMsg s)"
    using message_arrives_ok[OF _ p] sup by (simp add: supplied_def)
  ultimately show ?thesis
  proof (rule achieves_mono[OF achieves_yields])
    fix s'
    assume s': "?Q s' \<and> engine_ok mx pf md n s'"
    then have "dom (dc_peers s') = dom (dc_peers s)" using kept_registered[of "dc_env pf" n p ?s s'] by (auto simp: dom_def)
    moreover have "covered n W ?s" using cov by (simp add: covered_def)
    ultimately show "supplied mx pf md n P (insert p U) s' \<and> lacking (dc_pm s') = lacking (dc_pm s) \<and> covered n W s' \<and> dom (dc_peers s') = dom (dc_peers s)"
      using s' kept_covered[of "dc_env pf" n p ?s s' W] by (simp add: supplied_def)
  qed
qed

lemma answer_supplied:
  assumes sup: "supplied mx pf md n P U s" and des: "describes (pf_sha1 pf) md n P" and draw: "draw_in_range (pf_draw pf)"
    and st: "dc_peers s p = Some st" "r \<in> set (outstanding st)" and cov: "covered n U s"
  shows "achieves (\<lambda>s'. supplied mx pf md n P U s' \<and> covered n U s' \<and> missing_blocks n (dc_pm s) = Suc (missing_blocks n (dc_pm s')))
    (message_arrives pf p (answer P r) s)"
proof -
  have p: "dc_peers s p \<noteq> None" using st(1) by simp
  obtain c where c: "connections (dc_world s) p = Some c" "attached c" by (rule supplied_conn[OF sup p])
  have same: "put_conn p (note_received (answer P r) c) s = s" using put_conn_same[OF c(1)] by (simp add: answer_def)
  have env: "describes (dc_sha1 (dc_env pf)) md n P" "draw_in_range (dc_draw (dc_env pf))" using des draw by (simp_all add: dc_env_def)
  have srv: "serving (dc_env pf) (linked pf) md n P U s" using sup by (simp add: supplied_def)
  let ?Q = "\<lambda>s'. serving (dc_env pf) (linked pf) md n P U s' \<and> kept (dc_env pf) n p s s' \<and>
    missing_blocks n (dc_pm s) = Suc (missing_blocks n (dc_pm s'))"
  have "achieves ?Q (handle_peer_message (dc_env pf) p (answer P r) (put_conn p (note_received (answer P r) c) s))"
    unfolding same by (rule steady.answer_serving[OF srv env st])
  then have "achieves ?Q (message_arrives pf p (answer P r) s)"
    by (rule message_arrives_handled[OF c]) (use serving_conn[of pf md n P _ _ p s] p in auto)
  moreover have "yields (engine_ok mx pf md n) (message_arrives pf p (answer P r) s)"
    using message_arrives_ok[OF _ p] sup by (simp add: supplied_def)
  ultimately show ?thesis
    by (rule achieves_mono[OF achieves_yields]) (use kept_covered[OF _ cov] in \<open>auto simp: supplied_def\<close>)
qed

section \<open>Completion\<close>

lemma unchoked_supplied:
  assumes "describes (pf_sha1 pf) md n P" "draw_in_range (pf_draw pf)"
  shows "supplied mx pf md n P U s \<Longrightarrow> set ps \<subseteq> dom (dc_peers s) \<Longrightarrow> covered n W s \<Longrightarrow>
    achieves (\<lambda>s'. supplied mx pf md n P (U \<union> set ps) s' \<and> lacking (dc_pm s') = lacking (dc_pm s) \<and> covered n W s') (unchoked_by pf ps s)"
proof (induction ps arbitrary: s U)
  case (Cons p ps)
  then have p: "dc_peers s p \<noteq> None" by auto
  show ?case unfolding unchoked_by.simps
  proof (rule achieves_bindI[OF unchoke_supplied[OF Cons.prems(1) assms p Cons.prems(3)]])
    fix s1
    assume s1: "supplied mx pf md n P (insert p U) s1 \<and> lacking (dc_pm s1) = lacking (dc_pm s) \<and> covered n W s1 \<and> dom (dc_peers s1) = dom (dc_peers s)"
    with Cons.IH[of "insert p U" s1] Cons.prems(2)
    show "achieves (\<lambda>s'. supplied mx pf md n P (U \<union> set (p # ps)) s' \<and> lacking (dc_pm s') = lacking (dc_pm s) \<and> covered n W s') (unchoked_by pf ps s1)"
      by auto
  qed
qed simp

lemma answered_completes:
  assumes "describes (pf_sha1 pf) md n P" "draw_in_range (pf_draw pf)" "picks_outstanding pick"
  shows "supplied mx pf md n P U s \<Longrightarrow> covered n U s \<Longrightarrow> missing_blocks n (dc_pm s) \<le> k \<Longrightarrow>
    achieves (\<lambda>s'. supplied mx pf md n P U s' \<and> missing_blocks n (dc_pm s') = 0) (answered pf P pick k s)"
proof (induction k arbitrary: s)
  case (Suc k)
  have srv: "serving (dc_env pf) (linked pf) md n P U s" using Suc.prems(1) by (simp add: supplied_def)
  then have "finite (dom (dc_peers s))" by (auto simp: serving_def intro: inv_finite)
  note pick = assms(3)[unfolded picks_outstanding_def, rule_format, OF this]
  show ?case
  proof (cases "pick s")
    case None
    with pick have "missing_blocks n (dc_pm s) = 0" by (intro nothing_left[OF srv Suc.prems(2)]) simp
    with Suc.prems(1) None show ?thesis by simp
  next
    case (Some x)
    then obtain p r where x: "pick s = Some (p, r)" by (cases x) auto
    then obtain st where st: "dc_peers s p = Some st" "r \<in> set (outstanding st)" using pick by auto
    show ?thesis unfolding answered.simps x option.case prod.case
    proof (rule achieves_bindI[OF answer_supplied[OF Suc.prems(1) assms(1,2) st Suc.prems(2)]])
      fix s1
      assume s1: "supplied mx pf md n P U s1 \<and> covered n U s1 \<and> missing_blocks n (dc_pm s) = Suc (missing_blocks n (dc_pm s1))"
      then show "achieves (\<lambda>s'. supplied mx pf md n P U s' \<and> missing_blocks n (dc_pm s') = 0) (answered pf P pick k s1)"
        using Suc.prems(3) by (intro Suc.IH) auto
    qed
  qed
qed simp

lemma supplied_complete:
  assumes "supplied mx pf md n P U s" "describes (pf_sha1 pf) md n P" "missing_blocks n (dc_pm s) = 0" "i < n"
  shows "has_piece (dc_pm s) i" "verify_piece (pf_sha1 pf) (pf_resolve pf) (pf_disk pf) (files (dc_world s)) i = Inr True"
proof -
  have l: "lively n (dc_pm s)" "pm_metadata (dc_pm s) = md" and ok: "saved pf md s"
    using assms(1) by (auto simp: supplied_def serving_def orderly_def engine_ok_def dc_inv_def pm_good_def program_ok_def)
  show h: "has_piece (dc_pm s) i" by (rule none_missing_complete[OF assms(3) l(1) _ assms(4)]) (use describes_sel(2)[OF assms(2)] l(2) in simp)
  show "verify_piece (pf_sha1 pf) (pf_resolve pf) (pf_disk pf) (files (dc_world s)) i = Inr True" using ok h by (simp add: saved_def)
qed

lemma download_completes:
  assumes ok: "engine_ok mx pf md n s" and fresh: "fresh_download s"
    and sys: "sends_accepted (pf_sock pf)" "enumerates (pf_order pf)" "draw_in_range (pf_draw pf)"
    and des: "describes (pf_sha1 pf) md n P" and pick: "picks_outstanding pick" and ps: "set ps \<subseteq> dom (dc_peers s)" "covered n (set ps) s"
  shows "achieves (\<lambda>s'. \<forall>i<n. has_piece (dc_pm s') i \<and>
      verify_piece (pf_sha1 pf) (pf_resolve pf) (pf_disk pf) (files (dc_world s')) i = Inr True)
    (bindR (unchoked_by pf ps s) (answered pf P pick (missing_blocks n (dc_pm s))))"
proof -
  have inv: "dc_inv md n s" and heap: "heap_ok s" using ok by (simp_all add: engine_ok_def program_ok_def)
  have "linked pf s" using sys heap by (fastforce simp: linked_def heap_ok_def)
  then have start: "supplied mx pf md n P {} s"
    unfolding supplied_def using fresh_serving[OF inv fresh, where G = "linked pf"] ok by blast
  show ?thesis
  proof (rule achieves_bindI[OF unchoked_supplied[OF des sys(3) start ps]])
    fix s1
    assume s1: "supplied mx pf md n P ({} \<union> set ps) s1 \<and> lacking (dc_pm s1) = lacking (dc_pm s) \<and> covered n (set ps) s1"
    then have "achieves (\<lambda>s'. supplied mx pf md n P (set ps) s' \<and> missing_blocks n (dc_pm s') = 0) (answered pf P pick (missing_blocks n (dc_pm s)) s1)"
      by (intro answered_completes[OF des sys(3) pick]) (auto simp: missing_blocks_def)
    then show "achieves (\<lambda>s'. \<forall>i<n. has_piece (dc_pm s') i \<and>
        verify_piece (pf_sha1 pf) (pf_resolve pf) (pf_disk pf) (files (dc_world s')) i = Inr True)
        (answered pf P pick (missing_blocks n (dc_pm s)) s1)"
      by (rule achieves_mono) (use supplied_complete[OF _ des] in blast)
  qed
qed

text \<open>The first outstanding request along the table of peers.\<close>

definition first_outstanding :: "((ptr \<rightharpoonup> PeerState) \<Rightarrow> ptr list) \<Rightarrow> ('g, 'w) Coordinator \<Rightarrow> (ptr \<times> RequestedBlock) option" where
  "first_outstanding order s =
     (case concat (map (\<lambda>p. case dc_peers s p of None \<Rightarrow> [] | Some st \<Rightarrow> map (Pair p) (outstanding st)) (order (dc_peers s))) of
        [] \<Rightarrow> None
      | x # _ \<Rightarrow> Some x)"

lemma first_outstanding_picks:
  fixes order :: "(ptr \<rightharpoonup> PeerState) \<Rightarrow> ptr list"
  assumes "enumerates order"
  shows "picks_outstanding (first_outstanding order :: ('g, 'w) Coordinator \<Rightarrow> (ptr \<times> RequestedBlock) option)"
  unfolding picks_outstanding_def
proof (intro allI impI)
  fix s :: "('g, 'w) Coordinator"
  assume fin: "finite (dom (dc_peers s))"
  let ?xs = "concat (map (\<lambda>p. case dc_peers s p of None \<Rightarrow> [] | Some st \<Rightarrow> map (Pair p) (outstanding st)) (order (dc_peers s)))"
  have "set (order (dc_peers s)) = dom (dc_peers s)" using assms fin by (simp add: enumerates_def)
  then have mem: "(p, r) \<in> set ?xs \<longleftrightarrow> (\<exists>st. dc_peers s p = Some st \<and> r \<in> set (outstanding st))" for p r
    by (cases "dc_peers s p") (auto split: option.splits intro!: bexI[of _ p])
  show "case first_outstanding order s of None \<Rightarrow> \<forall>p st. dc_peers s p = Some st \<longrightarrow> outstanding st = []
      | Some (p, r) \<Rightarrow> \<exists>st. dc_peers s p = Some st \<and> r \<in> set (outstanding st)"
  proof (cases ?xs)
    case Nil
    then have "\<not> (p, r) \<in> set ?xs" for p r by simp
    then have "outstanding st = []" if "dc_peers s p = Some st" for p st
      using mem that by (metis list.set_intros(1) neq_Nil_conv)
    then show ?thesis unfolding first_outstanding_def Nil by simp
  next
    case (Cons x xs)
    then have "x \<in> set ?xs" by simp
    with mem[of "fst x" "snd x"] show ?thesis unfolding first_outstanding_def Cons by (cases x) simp
  qed
qed

end
