(* ===== verification/Scenario.thy ===== *)
theory Scenario
  imports Engine_Progress
begin

text \<open>
  A machine and a torrent of seven bytes in two pieces, on which the program runs from start to end: the tracker
  cannot be reached, the socket of the manual peer cannot be opened, and the interrupt signal arrives.
\<close>

definition demo_torrent :: bytes where
  "demo_torrent = encode (single_file_torrent [117] [102] 7 4 (concat [replicate 20 9, replicate 20 5]))"

definition demo_metadata :: TorrentMetadata where
  "demo_metadata = \<lparr>md_name = [102], announce_url = [117], announce_list = [[117]], piece_length = 4, total_length = 7,
     num_pieces = 2, piece_hashes = [replicate 20 9, replicate 20 5],
     md_files = [\<lparr>fi_path = [102], fi_length = 7, fi_offset = 0\<rparr>], info_hash = replicate 20 7\<rparr>"

lemma demo_torrent_parses: "from_bencode (\<lambda>_. replicate 20 7) demo_torrent = Inr demo_metadata"
proof -
  have wf: "bencode_wf (single_file_torrent [117] [102] 7 4 (concat [replicate 20 9, replicate 20 5]))"
    by (simp add: single_file_torrent_def)
  show ?thesis unfolding demo_torrent_def
    by (subst from_bencode_single_file[OF wf]) (simp_all add: demo_metadata_def calculated_pieces_def int64_def div64_def cast_int32_def)
qed

text \<open>The world is a clock that counts its readings, in seconds.\<close>

definition demo_machine :: "(unit, bytes, nat) Machine" where
  "demo_machine =
     \<lparr>mc_sock =
       \<lparr>sys_socket = \<lambda>x. (- 1, x), sys_getfl = \<lambda>fd x. (False, x), sys_setfl = \<lambda>fd x. (False, x), sys_inet_pton = \<lambda>ip. False,
        sys_connect = \<lambda>fd ip port x. (Some EOTHER, x), sys_send = \<lambda>fd bs x. (Inl EPIPE, x), sys_recv = \<lambda>fd k x. (Inl EOTHER, x),
        sys_so_error = \<lambda>fd x. (True, x), sys_close = \<lambda>fd x. x\<rparr>,
      mc_epoll =
       \<lparr>epoll_add = \<lambda>fd ev x. (False, x), epoll_mod = \<lambda>fd ev x. (False, x), epoll_del = \<lambda>fd x. x,
        epoll_wait = \<lambda>t x. (PollEvents [], x), steady_now = \<lambda>x. (int x * 1000000000, x + 1), hires_now = \<lambda>x. (int x * 1000000000, x + 1)\<rparr>,
      mc_net =
       \<lparr>net_http = \<lambda>url x. (HttpNoHandle, x), net_getaddrinfo = \<lambda>h p x. (False, x), net_socket = \<lambda>x. (False, x),
        net_set_timeout = \<lambda>t x. (False, x), net_rand = \<lambda>x. (0, x), net_sendto = \<lambda>bs x. (False, x), net_recvfrom = \<lambda>x. (None, x)\<rparr>,
      mc_sha1 = \<lambda>_. replicate 20 7, mc_seed = (), mc_draw = \<lambda>g n. (0, g), mc_rand = \<lambda>x. (0, x),
      mc_order = \<lambda>m. sorted_list_of_set (dom m), mc_manager_order = \<lambda>m. sorted_list_of_set (dom m), mc_heap_top = \<lambda>ts. 0,
      mc_exists = \<lambda>path. True, mc_open = \<lambda>path. Some demo_torrent, mc_resolve = id, mc_creatable = \<lambda>path. True, mc_max_size = 1000,
      mc_big_endian = False, mc_stack = (replicate 16 0, replicate 98 0), mc_interrupted = \<lambda>x. True\<rparr>"

definition demo_arguments :: "bytes list" where
  "demo_arguments = [ascii ''--peer=h:1'', ascii ''t'']"

definition demo_config :: AppConfig where
  "demo_config = app_config\<lparr>torrent_path := ascii ''t'', cfg_peer := ascii ''h:1''\<rparr>"

definition demo_files :: "bytes fs" where
  "demo_files = [ascii ''./f'' \<mapsto> replicate 7 0]"

lemma demo_parse: "parse_arguments (mc_exists demo_machine) demo_arguments = Inr demo_config"
  by (simp add: parse_arguments_def parse_argument_def demo_arguments_def demo_config_def app_config_def demo_machine_def Let_def)

lemma demo_client_disk: "cl_disk (client mc demo_config md i) = \<lparr>base_path = ascii ''.'', dio_metadata = md\<rparr>"
  by (simp add: demo_config_def app_config_def)

lemma demo_preallocate:
  "preallocate_files id (\<lambda>_. True) 1000 \<lparr>base_path = ascii ''.'', dio_metadata = demo_metadata\<rparr> Map.empty = Inr demo_files"
  by (simp add: preallocate_files_def demo_metadata_def get_full_path_def Let_def cast_size_def resize_def demo_files_def)

lemma demo_sane: "sane_torrent (client demo_machine demo_config demo_metadata i)"
  by (simp add: sane_torrent_def demo_metadata_def)

lemma demo_set_up: "set_up demo_machine demo_config demo_metadata demo_files"
proof -
  have "disk_ok (mc_resolve demo_machine) \<lparr>base_path = ascii ''.'', dio_metadata = demo_metadata\<rparr> demo_files"
    using preallocate_disk_ok[of "\<lambda>_. replicate 20 7" demo_torrent "client demo_machine demo_config demo_metadata []" "\<lambda>_. True" 1000 Map.empty demo_files]
      demo_torrent_parses demo_preallocate demo_sane[of "[]"] by (simp add: demo_machine_def demo_config_def app_config_def)
  then show ?thesis by (simp add: set_up_def demo_config_def app_config_def demo_metadata_def)
qed

lemma demo_discover: "\<exists>s'. discover (client demo_machine demo_config demo_metadata i) s = (None, s')"
  by (simp add: discover_def tracker_announce_def with_os_def announce_def announce_attempt_def client_def demo_metadata_def Let_def)

text \<open>An interrupted program stops at its first timer.\<close>

lemma demo_run:
  assumes "timers (loop (dc_world s)) = t # ts" "t_callback t = CheckShutdown" "t_id t \<notin> cancelled_timers (loop (dc_world s))"
    "deadline t \<le> int (os (dc_world s)) * 1000000000"
  shows "\<exists>s'. run_client (client demo_machine demo_config md i) s = returns s'"
proof -
  let ?cl = "client demo_machine demo_config md i"
  let ?l = "(loop (dc_world s))\<lparr>running := True\<rparr>"
  let ?timer = "\<lambda>cb. on_loop (timer_callback ?cl cb)"
  obtain now s1 where now: "steady_now (engine_epoll ?cl) s = (now, s1)" "now = int (os (dc_world s)) * 1000000000"
    by (simp add: engine_epoll_def demo_machine_def with_os_def Let_def)
  have fire: "?timer CheckShutdown (pop (\<lambda>ts. 0) ?l, s1) = returns (shutdown (pop (\<lambda>ts. 0) ?l), set_loop (shutdown (pop (\<lambda>ts. 0) ?l)) s1)"
    by (simp add: on_loop_def check_shutdown_def demo_machine_def set_loop_def upd_world_def)
  obtain now2 s2 where now2: "steady_now (engine_epoll ?cl) (set_loop (shutdown (pop (\<lambda>ts. 0) ?l)) s1) = (now2, s2)" by fastforce
  have "timer_phase (\<lambda>ts. 0) (engine_epoll ?cl) ?timer (shutdown (pop (\<lambda>ts. 0) ?l)) s2 now2 =
      returns (shutdown (pop (\<lambda>ts. 0) ?l), s2, - 1)"
    by (subst timer_phase_unfold) (simp add: shutdown_def)
  then have "timer_phase (\<lambda>ts. 0) (engine_epoll ?cl) ?timer ?l s1 now = returns (shutdown (pop (\<lambda>ts. 0) ?l), s2, - 1)"
    using assms fire now2 now(2) by (subst timer_phase_unfold) (simp add: Let_def)
  then have "loop_round (\<lambda>ts. 0) (engine_epoll ?cl) ?timer fdr (?l, s) = returns (False, shutdown (pop (\<lambda>ts. 0) ?l), s2)" for fdr
    using now(1) by (simp add: loop_round_def shutdown_def)
  then show ?thesis
    unfolding run_client_def run_def by (subst repeat_while_unfold) (simp add: demo_machine_def)
qed

text \<open>The connection attempt fails at once, and only the tables of connections change.\<close>

lemma demo_connect:
  assumes "manager (dc_world s) = peer_manager ih our_id 50"
  shows "\<exists>s'. connect_to_peer (platform (client demo_machine demo_config md i)) ip port s = returns s' \<and>
    loop (dc_world s') = loop (dc_world s) \<and> os (dc_world s') = os (dc_world s) \<and> connections (dc_world s') (next_ptr (dc_world s)) \<noteq> None"
  using assms
  by (simp add: connect_to_peer_def new_connection_def Let_def is_blacklisted_def with_conn_def connect_def peer_manager_def
      peer_connection_def connect_async_def tcp_close_def tcp_connection_def peer_env_def platform_def demo_machine_def with_os_def
      upd_world_def upd_manager_def put_conn_def run_callback_def unregister_peer_def split: option.split)

lemma demo_manual_peer: "manual_peer (cfg_peer demo_config) = Inr (ascii ''h'', 1)" "cfg_peer demo_config \<noteq> []"
  by (simp_all add: demo_config_def manual_peer_def stoi_def is_space_def isdigit_def digit_val_def Let_def)

lemma demo_launch:
  assumes "manager (dc_world s) = peer_manager ih our_id 50" "loop (dc_world s) = event_loop"
  shows "\<exists>s'. launch (client demo_machine demo_config md i) demo_config None s = returns (Finished s')"
proof -
  let ?cl = "client demo_machine demo_config md i" and ?x = "os (dc_world s)"
  let ?t = "\<lparr>t_id = 1, deadline = int ?x * 1000000000 + 250000000, t_callback = CheckShutdown\<rparr> :: engine_timer Timer"
  let ?s1 = "set_timer ?cl 250 CheckShutdown s"
  have s1: "manager (dc_world ?s1) = peer_manager ih our_id 50" "timers (loop (dc_world ?s1)) = [?t]" "os (dc_world ?s1) = ?x + 1"
    "cancelled_timers (loop (dc_world ?s1)) = {}"
    using assms by (simp_all add: set_timer_def register_timer_def upd_world_def demo_machine_def event_loop_def Let_def)
  obtain s2 where
    s2: "connect_to_peer (platform ?cl) (ascii ''h'') 1 ?s1 = returns s2" "loop (dc_world s2) = loop (dc_world ?s1)" "os (dc_world s2) = ?x + 1"
    using s1(3) demo_connect[OF s1(1), of md i "ascii ''h''" 1] by fastforce
  let ?s3 = "set_timer ?cl 1000 RenderProgress s2"
  have "\<exists>ts. timers (loop (dc_world ?s3)) = ?t # ts" "os (dc_world ?s3) = ?x + 2" "cancelled_timers (loop (dc_world ?s3)) = {}"
    using s1 s2 by (simp_all add: set_timer_def register_timer_def upd_world_def demo_machine_def Let_def)
  then obtain ts where s3: "timers (loop (dc_world ?s3)) = ?t # ts" "os (dc_world ?s3) = ?x + 2" "cancelled_timers (loop (dc_world ?s3)) = {}"
    by blast
  have "\<exists>s'. run_client ?cl ?s3 = returns s'" by (rule demo_run[OF s3(1)]) (simp_all add: s3(2,3))
  then show ?thesis using s2(1) demo_manual_peer by (auto simp: launch_def Let_def)
qed

lemma demo_main: "\<exists>s. program_main demo_machine demo_arguments Map.empty 0 = returns (Finished s)"
proof -
  obtain our_id x where id: "main_peer_id (mc_rand demo_machine) 0 = (our_id, x)" by fastforce
  let ?cl = "client demo_machine demo_config demo_metadata our_id"
  let ?s0 = "components demo_machine demo_config demo_metadata our_id demo_files x"
  obtain s where s: "discover ?cl ?s0 = (None, s)" using demo_discover by fast
  note sel = sys_only_sel[OF discover_sys[OF s]]
  have "loop (dc_world s) = event_loop"
    using s by (auto simp: discover_def tracker_announce_def with_os_def upd_world_def components_def Let_def download_coordinator_def split: prod.splits)
  moreover have "manager (dc_world s) = peer_manager (info_hash demo_metadata) our_id 50"
    using sel by (simp add: components_def Let_def download_coordinator_def demo_config_def app_config_def cast_size_def)
  ultimately have "\<exists>s'. launch ?cl demo_config None s = returns (Finished s')" by (rule demo_launch[rotated])
  moreover have "mc_open demo_machine (torrent_path demo_config) = Some demo_torrent" "mc_sha1 demo_machine = (\<lambda>_. replicate 20 7)"
    "mc_resolve demo_machine = id" "mc_creatable demo_machine = (\<lambda>_. True)" "mc_max_size demo_machine = 1000"
    by (simp_all add: demo_machine_def)
  moreover have "\<not> show_help demo_config" by (simp add: demo_config_def app_config_def)
  ultimately show ?thesis
    using demo_manual_peer(2) s demo_preallocate demo_client_disk[of demo_machine demo_metadata our_id]
    by (simp add: program_main_def demo_parse demo_torrent_parses id Let_def del: client_sel)
qed

lemma demo_runs: "\<exists>s. runs_to demo_machine demo_config demo_metadata demo_files s \<and> connections (dc_world s) 1 \<noteq> None"
proof -
  let ?cl = "client demo_machine demo_config demo_metadata []" and ?s0 = "components demo_machine demo_config demo_metadata [] demo_files 0"
  have w: "manager (dc_world ?s0) = peer_manager (info_hash demo_metadata) [] 50" "next_ptr (dc_world ?s0) = 1"
    by (simp_all add: components_def Let_def download_coordinator_def demo_config_def app_config_def cast_size_def)
  obtain s where "connect_to_peer (platform ?cl) [] 1 ?s0 = returns s" and c: "connections (dc_world s) 1 \<noteq> None"
    using demo_connect[OF w(1), of demo_metadata "[]" "[]" 1] w(2) by auto
  then have "client_step ?cl ?s0 s" by (intro client_step.Connect)
  then have "runs_to demo_machine demo_config demo_metadata demo_files s" unfolding runs_to_def by (intro exI r_into_rtranclp)
  with c show ?thesis by blast
qed

section \<open>A registered peer\<close>

text \<open>A connection that is active and registered with the coordinator, in the slot of its address, and unchoked.\<close>

definition demo_connection :: "engine_cb PeerConnection" where
  "demo_connection = (peer_connection [] 1 [] [])\<lparr>pc_state := Active, peer_choking := False,
     on_message_cb := Some DcMessage, on_disconnect_cb := Some DcDisconnect\<rparr>"

definition demo_peer :: PeerState where
  "demo_peer = \<lparr>ds_bitfield = bitfield_empty 2, outstanding = [], active_piece = None\<rparr>"

definition demo_world :: "(bytes, nat) World" where
  "demo_world =
     \<lparr>connections = [1 \<mapsto> demo_connection], next_ptr = 2,
      manager = (peer_manager [] [] 50)\<lparr>active_peers := [make_peer_key [] 1 \<mapsto> 1]\<rparr>, loop = event_loop,
      files = demo_files, last_bytes = 0, printed = [], os = 0\<rparr>"

definition demo_state :: "(unit, bytes, nat) engine" where
  "demo_state = (download_coordinator (piece_manager demo_metadata) (piece_picker 2 ()) 2 demo_world)\<lparr>dc_peers := [1 \<mapsto> demo_peer]\<rparr>"

abbreviation demo_platform :: "(unit, bytes, nat) Platform" where
  "demo_platform \<equiv> platform (client demo_machine demo_config demo_metadata [])"

lemma demo_state_sel:
  "dc_peers demo_state 1 = Some demo_peer" "connections (dc_world demo_state) 1 = Some demo_connection" "attached demo_connection"
  "active_peers (manager (dc_world demo_state)) (key_of demo_connection) = Some 1" "dc_pm demo_state = piece_manager demo_metadata"
  by (simp_all add: demo_state_def demo_world_def demo_connection_def attached_def key_of_def peer_connection_def download_coordinator_def)

lemma demo_corrupt_block:
  "\<exists>pm. block_received (piece_manager demo_metadata) 0 0 [1, 2, 3, 4] = (True, pm) \<and> validate_piece (\<lambda>_. replicate 20 7) pm 0 = Inr False"
proof -
  have "get_piece_length demo_metadata 0 = 4"
    by (simp add: get_piece_length_def demo_metadata_def cast_size_def cast_uint32_def)
  then have blocks: "make_blocks 0 (get_piece_length demo_metadata 0) 0 = [\<lparr>blk_piece = 0, blk_begin = 0, blk_length = 4, blk_state = Pending\<rparr>]"
    by (simp add: make_blocks.simps)
  have "\<not> has_piece (piece_manager demo_metadata) 0" by (simp add: has_piece_def piece_manager_def bitset.mem_empty)
  moreover have "piece_hashes demo_metadata = [replicate 20 9, replicate 20 5]" by (simp add: demo_metadata_def)
  ultimately show ?thesis
    using blocks \<open>get_piece_length demo_metadata 0 = 4\<close>
    by (simp add: block_received_def init_piece_state_def piece_at_def set_piece_def store_block_def set_block_state_def resize_def
        piece_manager_def validate_piece_def read_at_def empty_piece_def Let_def)
qed

end
