(* ===== verification/Seeding.thy ===== *)
theory Seeding
  imports Engine_Download Scenario
begin

text \<open>
  A machine on which a peer connects, introduces itself and offers both pieces of a torrent of seven bytes: the state that the
  program reaches has a registered peer.
\<close>

definition seed_metadata :: TorrentMetadata where
  "seed_metadata = demo_metadata\<lparr>piece_hashes := [replicate 20 7, replicate 20 7]\<rparr>"

definition seed_content :: "nat \<Rightarrow> bytes" where
  "seed_content i = (if i = 0 then [1, 2, 3, 4] else if i = 1 then [5, 6, 7] else [])"

definition seed_handshake :: HandshakeMsg where
  "seed_handshake = \<lparr>reserved = replicate 8 0, hs_info_hash = replicate 20 7, hs_peer_id = replicate 20 1\<rparr>"

definition seed_bytes :: bytes where
  "seed_bytes = (19 # protocol_name @ replicate 8 0 @ replicate 20 7 @ replicate 20 1) @ wire (BitfieldMsg [0xC0])"

text \<open>The socket takes everything that is sent and delivers the bytes above once.\<close>

definition seed_sockets :: "nat Sockets" where
  "seed_sockets =
     \<lparr>sys_socket = \<lambda>x. (3, x), sys_getfl = \<lambda>fd x. (True, x), sys_setfl = \<lambda>fd x. (True, x), sys_inet_pton = \<lambda>ip. True,
      sys_connect = \<lambda>fd ip port x. (None, x), sys_send = \<lambda>fd bs x. (Inr (length bs), x),
      sys_recv = \<lambda>fd k x. if x = 0 then (Inr seed_bytes, 1) else (Inl EAGAIN, x),
      sys_so_error = \<lambda>fd x. (False, x), sys_close = \<lambda>fd x. x\<rparr>"

definition seed_machine :: "(unit, bytes, nat) Machine" where
  "seed_machine = demo_machine\<lparr>mc_sock := seed_sockets,
     mc_epoll := (mc_epoll demo_machine)\<lparr>epoll_add := \<lambda>fd ev x. (True, x), epoll_mod := \<lambda>fd ev x. (True, x)\<rparr>\<rparr>"

abbreviation seed_platform :: "(unit, bytes, nat) Platform" where
  "seed_platform \<equiv> platform (client seed_machine demo_config seed_metadata [])"

lemma seed_describes: "describes (\<lambda>_. replicate 20 7) seed_metadata 2 seed_content"
proof -
  have "get_piece_length seed_metadata i = length (seed_content i)" for i
    by (auto simp: get_piece_length_def seed_metadata_def demo_metadata_def cast_size_def cast_uint32_def seed_content_def)
  moreover have "piece_hashes seed_metadata = [replicate 20 7, replicate 20 7]" by (simp add: seed_metadata_def)
  ultimately show ?thesis by (auto simp: describes_def seed_content_def less_2_cases_iff)
qed

lemma seed_system:
  "sends_accepted (mc_sock seed_machine)" "enumerates (mc_order seed_machine)" "draw_in_range (mc_draw seed_machine)"
  by (simp_all add: sends_accepted_def enumerates_def draw_in_range_def seed_machine_def seed_sockets_def demo_machine_def)

lemma seed_set_up: "set_up seed_machine demo_config seed_metadata demo_files"
proof -
  have "get_full_path \<lparr>base_path = b, dio_metadata = seed_metadata\<rparr> = get_full_path \<lparr>base_path = b, dio_metadata = demo_metadata\<rparr>" for b
    by (intro ext) (simp add: get_full_path_def seed_metadata_def demo_metadata_def)
  then have "file_id id \<lparr>base_path = b, dio_metadata = seed_metadata\<rparr> = file_id id \<lparr>base_path = b, dio_metadata = demo_metadata\<rparr>" for b
    by (intro ext) (simp add: file_id_def)
  then have "allocated id \<lparr>base_path = b, dio_metadata = seed_metadata\<rparr> fis fs = allocated id \<lparr>base_path = b, dio_metadata = demo_metadata\<rparr> fis fs" for b fis fs
    by (simp add: allocated_def)
  moreover have "length (piece_hashes demo_metadata) = 2" "piece_hashes demo_metadata \<noteq> []" by (simp_all add: demo_metadata_def)
  ultimately show ?thesis
    using demo_set_up by (auto simp: set_up_def disk_ok_def seed_machine_def seed_metadata_def demo_machine_def layout_ok_def)
qed

section \<open>The peer connects\<close>

lemma seed_env:
  "sys_socket (env_sock (peer_env seed_platform p)) s = (3, s)" "sys_getfl (env_sock (peer_env seed_platform p)) fd s = (True, s)"
  "sys_setfl (env_sock (peer_env seed_platform p)) fd s = (True, s)" "sys_inet_pton (env_sock (peer_env seed_platform p)) ip"
  "sys_connect (env_sock (peer_env seed_platform p)) fd ip port s = (None, s)"
  "sys_send (env_sock (peer_env seed_platform p)) fd bs s = (Inr (length bs), s)"
  "env_modify (peer_env seed_platform p) fd ev s = s"
  "0 \<le> fd \<Longrightarrow> env_register (peer_env seed_platform p) fd ev s =
     (True, set_loop ((loop (dc_world s))\<lparr>fd_callbacks := (fd_callbacks (loop (dc_world s)))(fd \<mapsto> p)\<rparr>) s)"
  by (simp_all add: peer_env_def platform_def seed_machine_def seed_sockets_def demo_machine_def with_os_def upd_world_def modify_fd_def
      register_fd_def set_loop_def Let_def)

lemma seed_send_loop: "send_loop (env_sock (peer_env seed_platform p)) fd tx 0 s = Some (length tx, False, s)"
  by (cases "tx = []") (subst send_loop.simps, simp, subst send_loop.simps, simp add: seed_env send_loop.simps[of _ _ _ "length tx"])

lemma seed_handle_write: "pc_state c = Handshaking \<Longrightarrow> handle_write rn (peer_env seed_platform p) (c, s) = returns (c\<lparr>tx_buffer := []\<rparr>, s)"
  by (simp add: handle_write_def seed_send_loop update_epoll_interests_def seed_env Let_def)

lemma seed_connect_conn:
  assumes "pc_state c = Idle" "pc_conn c = tcp_connection" "handshake_serialize \<lparr>reserved = replicate 8 0, hs_info_hash = pc_info_hash c, hs_peer_id = pc_our_peer_id c\<rparr> = Inr bs"
  shows "\<exists>l. connect rn (peer_env seed_platform p) (c, s) =
    returns (c\<lparr>pc_state := Handshaking, pc_conn := tcp_of_fd 3, tx_buffer := []\<rparr>, set_loop l s)"
proof -
  obtain l where l: "env_register (peer_env seed_platform p) 3 (EPOLLIN OR EPOLLOUT OR EPOLLRDHUP OR EPOLLERR OR EPOLLHUP) s = (True, set_loop l s)"
    using seed_env(8)[of 3] by simp
  have a: "connect_async (env_sock (peer_env seed_platform p)) (pc_conn c) (pc_ip c) (pc_port c) s = (Connected, tcp_of_fd 3, s)"
    by (simp add: connect_async_def assms(2) tcp_connection_def tcp_close_def tcp_of_fd_def seed_env)
  have "c\<lparr>pc_state := Connecting, pc_conn := tcp_of_fd 3, pc_state := Handshaking, tx_buffer := []\<rparr> =
      c\<lparr>pc_state := Handshaking, pc_conn := tcp_of_fd 3, tx_buffer := []\<rparr>" by (cases c) simp
  then show ?thesis
    using assms(1,3) a l
    by (simp add: connect_def send_handshake_def seed_handle_write update_epoll_interests_def seed_env tcp_of_fd_def Let_def) blast
qed

lemma seed_connect:
  assumes "manager (dc_world s) = peer_manager (replicate 20 7) (replicate 20 1) 50"
  shows "\<exists>c s'. connect_to_peer seed_platform [] 1 s = returns s' \<and> connections (dc_world s') (next_ptr (dc_world s)) = Some c \<and>
    pc_state c = Handshaking \<and> on_handshake_cb c = Some PmHandshake \<and> peer_choking c \<and> rx_buffer c = [] \<and>
    dc_peers s' = dc_peers s \<and> dc_pm s' = dc_pm s \<and> dc_num_pieces s' = dc_num_pieces s \<and> os (dc_world s') = os (dc_world s)"
proof -
  have "handshake_wf seed_handshake" by (simp add: handshake_wf_def seed_handshake_def)
  from handshake_wire[OF this] obtain bs where bs: "handshake_serialize seed_handshake = Inr bs" by blast
  obtain p s1 where n: "new_connection [] 1 s = (p, s1)" by fastforce
  define c where "c = (peer_connection [] 1 (replicate 20 7) (replicate 20 1) :: engine_cb PeerConnection)
    \<lparr>on_handshake_cb := Some PmHandshake, on_disconnect_cb := Some (PmDisconnect (make_peer_key [] 1))\<rparr>"
  have c: "pc_state c = Idle" "pc_conn c = tcp_connection" "pc_info_hash c = replicate 20 7" "pc_our_peer_id c = replicate 20 1"
    "on_handshake_cb c = Some PmHandshake" "peer_choking c" "rx_buffer c = []"
    by (simp_all add: c_def peer_connection_def)
  have s1: "connections (dc_world s1) p = Some c" "p = next_ptr (dc_world s)" "dc_peers s1 = dc_peers s" "dc_pm s1 = dc_pm s"
    "dc_num_pieces s1 = dc_num_pieces s" "os (dc_world s1) = os (dc_world s)"
    using assms n by (auto simp: new_connection_def Let_def c_def peer_manager_def)
  obtain l where "connect (run_callbacks seed_platform p) (peer_env seed_platform p) (c, s1) =
      returns (c\<lparr>pc_state := Handshaking, pc_conn := tcp_of_fd 3, tx_buffer := []\<rparr>, set_loop l s1)"
    using seed_connect_conn[OF c(1,2), of bs "run_callbacks seed_platform p" p s1] bs c(3,4) unfolding seed_handshake_def by auto
  then have "connect_to_peer seed_platform [] 1 s = returns (put_conn p (c\<lparr>pc_state := Handshaking, pc_conn := tcp_of_fd 3, tx_buffer := []\<rparr>) (set_loop l s1))"
    using assms by (simp add: connect_to_peer_def n with_conn_def s1(1) is_blacklisted_def peer_manager_def)
  then show ?thesis using c s1 by (auto simp: set_loop_def upd_world_def put_conn_def)
qed

lemma seed_recv:
  assumes "os (dc_world s) = 0"
  shows "\<exists>s'. recv_loop (env_sock (peer_env seed_platform p)) fd [] s = Some (seed_bytes, False, False, s')"
proof -
  have r: "sys_recv (env_sock (peer_env seed_platform p)) fd 4096 t =
      (if os (dc_world t) = 0 then (Inr seed_bytes, upd_world (\<lambda>w. w\<lparr>os := 1\<rparr>) t) else (Inl EAGAIN, t))" for t :: "(unit, bytes, nat) engine"
    by (simp add: peer_env_def platform_def seed_machine_def seed_sockets_def with_os_def upd_world_def)
  have "seed_bytes \<noteq> []" by (simp add: seed_bytes_def)
  then show ?thesis
    using assms r[of s] r[of "upd_world (\<lambda>w. w\<lparr>os := 1\<rparr>) s"]
    by (subst recv_loop.simps, simp, subst recv_loop.simps, simp add: upd_world_def)
qed

lemma seed_wire:
  "handshake_wf seed_handshake" "handshake_serialize seed_handshake = Inr (19 # protocol_name @ replicate 8 0 @ replicate 20 7 @ replicate 20 1)"
proof -
  show h: "handshake_wf seed_handshake" by (simp add: handshake_wf_def seed_handshake_def)
  show "handshake_serialize seed_handshake = Inr (19 # protocol_name @ replicate 8 0 @ replicate 20 7 @ replicate 20 1)"
    using handshake_wire[OF h] by (simp add: seed_handshake_def)
qed

abbreviation seed_client :: "(unit, bytes, nat) Client" where
  "seed_client \<equiv> client seed_machine demo_config seed_metadata (replicate 20 1)"

abbreviation seed_start :: "(unit, bytes, nat) engine" where
  "seed_start \<equiv> components seed_machine demo_config seed_metadata (replicate 20 1) demo_files 0"

text \<open>The peer is connected, our handshake is sent, and the bytes of the peer wait to be received.\<close>

lemma seed_handshaking:
  "\<exists>c s s1. client_step seed_client seed_start s \<and> connections (dc_world s) 1 = Some c \<and> pc_state c = Handshaking \<and>
     on_handshake_cb c = Some PmHandshake \<and> peer_choking c \<and> dc_peers s = Map.empty \<and> dc_pm s = piece_manager seed_metadata \<and> dc_num_pieces s = 2 \<and>
     recv_loop (env_sock (peer_env seed_platform 1)) (tcp_fd (pc_conn c)) (rx_buffer c) s = Some (seed_bytes, False, False, s1)"
proof -
  have pf: "platform seed_client = seed_platform" by (simp add: platform_def)
  have w: "manager (dc_world seed_start) = peer_manager (replicate 20 7) (replicate 20 1) 50" "next_ptr (dc_world seed_start) = 1"
    "os (dc_world seed_start) = 0" "dc_peers seed_start = Map.empty" "dc_pm seed_start = piece_manager seed_metadata" "dc_num_pieces seed_start = 2"
    by (simp_all add: components_def Let_def download_coordinator_def demo_config_def app_config_def cast_size_def seed_metadata_def demo_metadata_def)
  obtain c s where c: "connect_to_peer seed_platform [] 1 seed_start = returns s" "connections (dc_world s) 1 = Some c" "pc_state c = Handshaking"
    "on_handshake_cb c = Some PmHandshake" "peer_choking c" "rx_buffer c = []"
    and s: "dc_peers s = Map.empty" "dc_pm s = piece_manager seed_metadata" "dc_num_pieces s = 2" "os (dc_world s) = 0"
    using seed_connect[OF w(1)] w(2-6) by auto
  obtain s1 where "recv_loop (env_sock (peer_env seed_platform 1)) (tcp_fd (pc_conn c)) (rx_buffer c) s = Some (seed_bytes, False, False, s1)"
    using seed_recv[OF s(4), of 1 "tcp_fd (pc_conn c)"] c(6) by auto
  moreover have "client_step seed_client seed_start s" by (rule client_step.Connect[of _ "[]" 1]) (simp only: pf c(1))
  ultimately show ?thesis using c s by blast
qed

text \<open>The state that the program reaches when the peer has introduced itself.\<close>

lemma seed_runs:
  "\<exists>s. runs_to seed_machine demo_config seed_metadata demo_files s \<and> fresh_download s \<and> covered 2 {1} s \<and>
     (\<exists>st. dc_peers s = [1 \<mapsto> st] \<and> bf_has (ds_bitfield st) 0 \<and> bf_has (ds_bitfield st) 1)"
proof -
  have pf: "platform seed_client = seed_platform" by (simp add: platform_def)
  obtain c s1 s2 where c: "client_step seed_client seed_start s1" "connections (dc_world s1) 1 = Some c" "pc_state c = Handshaking"
    "on_handshake_cb c = Some PmHandshake" "peer_choking c" "dc_peers s1 = Map.empty" "dc_pm s1 = piece_manager seed_metadata" "dc_num_pieces s1 = 2"
    "recv_loop (env_sock (peer_env seed_platform 1)) (tcp_fd (pc_conn c)) (rx_buffer c) s1 = Some (seed_bytes, False, False, s2)"
    using seed_handshaking by blast
  have acc: "sends_accepted (pf_sock seed_platform)" using seed_system(1) by (simp add: platform_def)
  let ?st = "\<lparr>ds_bitfield = bitfield_of_bytes [0xC0] 2, outstanding = [], active_piece = None\<rparr>"
  obtain s where s: "peer_events seed_platform 1 EPOLLIN s1 = returns s" "dc_peers s = [1 \<mapsto> ?st]" "dc_pm s = piece_manager seed_metadata"
    using peer_introduced_event[OF acc c(2-5) _ seed_wire _ c(9)[unfolded seed_bytes_def]] c(6-8) by auto
  have "client_step seed_client s1 s" by (rule client_step.Event[of _ 1 EPOLLIN]) (simp only: pf s(1))
  with c(1) have "runs_to seed_machine demo_config seed_metadata demo_files s"
    unfolding runs_to_def by (intro exI) (rule rtranclp.rtrancl_into_rtrancl[OF r_into_rtranclp])
  moreover have "fresh_download s" using s(2,3) by (simp add: fresh_download_def)
  moreover have has: "bf_has (bitfield_of_bytes [0xC0] 2) 0" "bf_has (bitfield_of_bytes [0xC0] 2) 1" by code_simp+
  then have "covered 2 {1} s" using s(2) by (auto simp: covered_def less_2_cases_iff)
  ultimately show ?thesis using s(2) has by (intro exI[of _ s] conjI exI[of _ ?st]) simp_all
qed

end
