(* ===== verification/Spec2Isabelle.thy ===== *)
theory Spec2Isabelle
  imports Bencode Bitfields Peer_Message Torrent Piece_Manager Piece_Picker Disk_IO Tracker_Client
    Event_Loop Tcp_Connection Peer_Connection Connection_Client Peer_Stream Download_Coordinator Coordinator_Invariant
    Coordinator_World Peer_Manager Engine Config Client_Program Engine_Progress Teardown Hasher
    Swarm Engine_Swarm Engine_Download Scenario Seeding
begin

text \<open>
  Verification of a BitTorrent download engine: a single-threaded C++20 client that reads a torrent file, asks trackers for
  peers, connects to them over non-blocking sockets, downloads the pieces from several peers at once,
  checks their SHA-1 hashes and writes them to disk.  The sources are \<^verbatim>\<open>src/code/include\<close> and \<^verbatim>\<open>src/code/src\<close>; file names below are
  relative to \<^verbatim>\<open>src/code\<close>.

  \<^bold>\<open>How the parts interact.\<close>  \<^verbatim>\<open>main\<close> parses the command line and the torrent file, allocates the output files, announces to a
  tracker and hands the peers to the peer manager, which creates a connection for each and starts it.  From then on everything
  happens in the event loop: a readiness event goes to its connection, which sends what is buffered, receives, and cuts
  the stream into messages; a handshake registers the peer with the download coordinator; a message goes to the coordinator, which
  keeps the piece picker (availability of pieces) and the piece manager (blocks of pieces) up to date, keeps up to five
  requests outstanding with every peer that does not choke us, and calls back into \<^verbatim>\<open>main\<close> to write a validated piece to
  disk or to blacklist the sender of a corrupt one.  Two timers render the progress and watch for the interrupt signal.

  \<^bold>\<open>Theories and sources.\<close>
  \<^item> \<open>Prelude\<close>: bytes, machine integers, the error monads (\<open>bindE\<close> for operations that may fail, \<open>bindR\<close> for effects that may also not
    end), bounds-checked memory, loops, big-endian codecs, and the readings \<open>yields\<close> (a property holds if a result is returned)
    and \<open>achieves\<close> (a result is returned, and has the property) of an effect.
  \<^item> \<open>Bencode\<close> (\<^verbatim>\<open>bencode.hpp\<close>, \<^verbatim>\<open>bencode.cpp\<close>), \<open>Torrent\<close> (\<^verbatim>\<open>torrent.hpp\<close>, \<^verbatim>\<open>torrent.cpp\<close>): the parser and the encoder; the
    metadata of a torrent.
  \<^item> \<open>Hasher\<close> (\<^verbatim>\<open>hasher.hpp\<close>, \<^verbatim>\<open>hasher.cpp\<close>): the wrapper around the SHA-1 object of Crypto++.
  \<^item> \<open>Bitfields\<close> (\<^verbatim>\<open>bitfield.hpp\<close>, \<^verbatim>\<open>bitfield.cpp\<close>), \<open>Piece_Picker\<close> (\<^verbatim>\<open>piece_picker.hpp\<close>, \<^verbatim>\<open>piece_picker.cpp\<close>),
    \<open>Piece_Manager\<close> (\<^verbatim>\<open>piece_manager.hpp\<close>, \<^verbatim>\<open>piece_manager.cpp\<close>), \<open>Disk_IO\<close> (\<^verbatim>\<open>disk_io.hpp\<close>, \<^verbatim>\<open>disk_io.cpp\<close>): which pieces and blocks
    we and our peers have, which one to fetch next, and where a piece lies in the files.
  \<^item> \<open>Tracker_Client\<close> (\<^verbatim>\<open>tracker_client.hpp\<close>, \<^verbatim>\<open>tracker_client.cpp\<close>): announces over HTTP and UDP with fallback between trackers.
  \<^item> \<open>Peer_Message\<close> (\<^verbatim>\<open>peer_message.hpp\<close>, \<^verbatim>\<open>peer_message.cpp\<close>), \<open>Tcp_Connection\<close> (\<^verbatim>\<open>tcp_connection.hpp\<close>, \<^verbatim>\<open>tcp_connection.cpp\<close>),
    \<open>Peer_Connection\<close> (\<^verbatim>\<open>peer_connection.hpp\<close>, \<^verbatim>\<open>peer_connection.cpp\<close>), \<open>Event_Loop\<close> (\<^verbatim>\<open>event_loop.hpp\<close>, \<^verbatim>\<open>event_loop.cpp\<close>): the wire
    protocol, sockets, connections with their buffers, and the multiplexer with its timers.
  \<^item> \<open>Download_Coordinator\<close> (\<^verbatim>\<open>download_coordinator.hpp\<close>, \<^verbatim>\<open>download_coordinator.cpp\<close>), \<open>Peer_Manager\<close> (\<^verbatim>\<open>peer_manager.hpp\<close>,
    \<^verbatim>\<open>peer_manager.cpp\<close> and the callbacks of \<^verbatim>\<open>main.cpp\<close>): the state \<open>engine\<close> of the running program is the coordinator with
    the world around it (connections in a heap of addresses, peer manager, event loop, files, output, system).
  \<^item> \<open>Config\<close> (\<^verbatim>\<open>config.hpp\<close>, \<^verbatim>\<open>config.cpp\<close>, \<^verbatim>\<open>peer_id.cpp\<close>, \<^verbatim>\<open>logger.cpp\<close>), \<open>Client_Program\<close> (\<^verbatim>\<open>main.cpp\<close>): command line, peer
    ids, logger; start-up, timers, the loop, the exit code and the destructors.
  \<^item> \<open>Connection_Client\<close>, \<open>Peer_Stream\<close>: correctness of one connection.  \<open>Coordinator_Invariant\<close>, \<open>Coordinator_World\<close>, \<open>Swarm\<close>:
    correctness and progress of the coordinator.  \<open>Engine\<close>, \<open>Engine_Progress\<close>, \<open>Engine_Swarm\<close>, \<open>Engine_Download\<close>, \<open>Teardown\<close>: the same
    for the whole program.  \<open>Scenario\<close>, \<open>Seeding\<close>: two machines on which the program runs, for the witnesses.

  \<^bold>\<open>How the code is represented.\<close>  Classes are records, enumerations and variants are datatypes, methods are functions that
  return the new state.  Unsigned integers whose wrap-around matters are words or carry an explicit modulus; signed 64-bit overflow
  and division by zero are error values of \<open>Torrent\<close>.  An exception is a value of an error type.  Reading or writing outside a
  buffer, using an erased entry of a table or a null pointer is a value of \<open>mem_error\<close>.  Loops whose end depends on the peer or the system
  (\<open>send_loop\<close>, \<open>recv_loop\<close>, and \<open>repeat_while\<close>, which carries the receive loop, the timer phase, the request pipeline and the event
  loop) are partial functions: not to end is the value \<open>None\<close>, so no fuel has to be chosen, and that a loop ends is a theorem.
  Callbacks are names of the closures that the code installs, with the functions \<open>run_disconnect\<close> and \<open>run_callbacks\<close> that run them.

  \<^bold>\<open>Parameters.\<close>  Code outside the repository is an argument: SHA-1, the socket calls (\<open>Sockets\<close>), epoll and the clocks (\<open>Epoll\<close>), name
  resolution, UDP and HTTP (\<open>Net\<close>), random generators, the heap operations of the timer queue, the order in which hash
  maps are visited, and the file that a path denotes.  What a theorem asks of them is a named hypothesis:
  \<open>sends_progress\<close> and \<open>sends_accepted\<close> (a send takes bytes or has no room), \<open>enumerates\<close> (a loop over a hash map visits its
  entries), \<open>draw_in_range\<close> (a random number is within its bounds), \<open>sha1_library\<close>, \<open>socket_ok\<close>.

  \<^bold>\<open>Interfaces.\<close>  \<open>index_set\<close> (what the clients of a bitfield rely on), \<open>fixed_codec\<close> (big-endian integers), \<open>event_invariant\<close> (invariants
  along histories), \<open>piece_store\<close> (a store that reads back what was written), \<open>loop_client\<close> (the event loop and the program in it),
  \<open>connection_client\<close> (a connection and the program around it), \<open>peer_link\<close> with its extensions \<open>world_link\<close> and
  \<open>steady_link\<close> (the coordinator and its connections) are locales; each is interpreted on the definitions of the component that
  provides it, and the results about the whole program are facts of these interpretations.

  \<^bold>\<open>What is shown.\<close>
  \<^item> Integrity and completion: \<open>program_integrity\<close> (whatever is counted as complete is on disk with its hash when the program ends) and
    \<open>swarm_completes\<close> (honest peers that together have the missing pieces complete the download).  An arriving message is
    \<open>message_arrives\<close>, which is what the receive loop does with its bytes (\<open>process_arrival\<close>).
  \<^item> Invariants of every reachable state: \<open>requests_accounted\<close>, \<open>peers_under_control\<close>; \<open>pipeline_fills\<close> and \<open>shutdown_releases\<close>: the pipeline
    and the destructors end, and with what.
  \<^item> Data: round trips of Bencode, messages, handshakes and URLs; \<open>write_piece_concatenation\<close> and \<open>read_after_writes\<close>
    refine the disk to the concatenation of its files; \<open>block_received_assembles\<close> and \<open>block_received_any_order\<close> for the blocks of a piece.
  \<^item> Connections: \<open>received_stream\<close>, \<open>transmitted_stream\<close>, \<open>connection_life_cycle\<close>, \<open>process_rx_buffer_terminates\<close>, \<open>peer_introduced\<close>.
  \<^item> Failures: the section on failures below and the last properties of the component theories prove where the code does not do what it
    means to (use after free on a corrupt piece, slots that are not given back, wrap-around of a length prefix, oversize
    and misplaced blocks, unchecked piece length, paths that leave the download directory).

  \<^bold>\<open>Order of the work.\<close>  Data and parsers first, then the components of the download, then connections and the event loop, then the
  program as a whole, then progress, the end of the program and the hasher.  What is left are stronger versions of the last steps: the
  completion of a download from any reachable state, with requests outstanding and peers that come and go.

  \<^bold>\<open>Not modelled.\<close>  Crypto++, curl and its global initialisation, and spdlog themselves; log messages, the usage and the welcome text;
  the floating-point numbers and the text of the progress line and the average latency (the numbers they are made of are
  modelled); the reference counts of shared pointers, so that a connection lives until the end of the program; write errors of the device
  after the files have been allocated; the epoll descriptor itself; the depth of the call stack.
\<close>

section \<open>The program as a whole\<close>









text \<open>C4: in every state that the program can reach, each registered peer has at most five outstanding requests,
  every block that the piece manager holds to be requested is an outstanding request of a registered peer,
  and the availability of a piece is the number of registered peers that have it.\<close>

theorem requests_accounted:
  assumes "set_up mc cfg md fs" "runs_to mc cfg md fs s"
  shows "(\<forall>p st. dc_peers s p = Some st \<longrightarrow> length (outstanding st) \<le> 5) \<and>
    (\<forall>i pst b. in_progress (dc_pm s) i = Some pst \<and> b \<in> set (ps_blocks pst) \<and> blk_state b = Requested \<longrightarrow>
       (\<exists>p st r. dc_peers s p = Some st \<and> r \<in> set (outstanding st) \<and> rq_piece r = i \<and> rq_begin r = blk_begin b)) \<and>
    (\<forall>i<cast_size (num_pieces md). unat (availability_histogram (dc_picker s) ! i) =
       card {p. \<exists>st. dc_peers s p = Some st \<and> bf_has (ds_bitfield st) i})"
proof -
  have inv: "dc_inv md (cast_size (num_pieces md)) s" using runs_to_ok[OF assms] by (simp add: client_ok_def engine_ok_def)
  have "\<exists>p st r. dc_peers s p = Some st \<and> r \<in> set (outstanding st) \<and> rq_piece r = i \<and> rq_begin r = blk_begin b"
    if "in_progress (dc_pm s) i = Some pst" "b \<in> set (ps_blocks pst)" "blk_state b = Requested" for i pst b
  proof -
    have "(i, blk_begin b) \<in> requested (dc_pm s)" using that unfolding requested_iff by blast
    then have "(i, blk_begin b) \<in> owed (dc_peers s)" by (rule subsetD[OF inv_sel(6)[OF inv]])
    then obtain p st r where "i = rq_piece r" "blk_begin b = rq_begin r" "dc_peers s p = Some st" "r \<in> set (outstanding st)"
      by (auto simp: owed_def)
    then show ?thesis by (intro exI[of _ p] exI[of _ st] exI[of _ r]) simp
  qed
  moreover have "length (outstanding st) \<le> 5" if "dc_peers s p = Some st" for p st
    using inv_entry(2)[OF inv that] by (simp add: peer_ok_def)
  ultimately show ?thesis using tallied_card[OF inv_sel(3)[OF inv]] by blast
qed

theorem requests_accounted_witness:
  "\<exists>s :: (unit, bytes, nat) engine. dc_peers s 1 \<noteq> None \<and> unat (availability_histogram (dc_picker s) ! 0) = 1"
proof -
  obtain s st where s: "runs_to seed_machine demo_config seed_metadata demo_files s" "dc_peers s = [1 \<mapsto> st]" "bf_has (ds_bitfield st) 0"
    using seed_runs by blast
  have "{p. \<exists>st. dc_peers s p = Some st \<and> bf_has (ds_bitfield st) 0} = {1}" using s(2,3) by auto
  moreover have "0 < cast_size (num_pieces seed_metadata)" by (simp add: seed_metadata_def demo_metadata_def cast_size_def)
  ultimately show ?thesis using requests_accounted[OF seed_set_up s(1)] s(2) by (intro exI[of _ s]) auto
qed



text \<open>C6: when the system takes what is sent to it, filling the request pipeline of a registered peer that does not
  choke us ends; and if it does not run into a memory error, five requests are then outstanding, or
  no piece that the peer has needs another request.\<close>

theorem pipeline_fills:
  assumes "sends_progress (pf_sock pf)" "draw_in_range (pf_draw pf)" "n = cast_size (num_pieces md)" "n \<le> 2 ^ 32"
    "(dc_step (dc_env pf))\<^sup>*\<^sup>* (download_coordinator (piece_manager md) (piece_picker n seed) n w) s"
    "p \<noteq> 0" "dc_peers s p \<noteq> None" "\<not> is_peer_choking (dc_env pf) p (dc_world s)"
  shows "\<exists>r. fill_request_pipeline (dc_env pf) p s = Some r \<and>
    (\<forall>s'. r = Inr s' \<longrightarrow> (\<exists>st. dc_peers s' p = Some st \<and> (length (outstanding st) = 5 \<or>
       (\<forall>i<n. bf_has (ds_bitfield st) i \<longrightarrow> \<not> has_pending_blocks (dc_pm s') i))))"
proof -
  have inv: "dc_inv md n s" by (rule eng.run_inv[OF assms(5) dc_inv_start[OF assms(3,4)]])
  have ends: "dc_send (dc_env pf) p m s \<noteq> None" for p m s using engine_send_ends[OF assms(1)] by (simp add: dc_env_def)
  have draw: "draw_in_range (dc_draw (dc_env pf))" using assms(2) by (simp add: dc_env_def)
  have "settles (saturated n p) (fill_request_pipeline (dc_env pf) p s)"
    by (rule settles_mono[OF eng.fill_settles[OF ends draw inv, of p]]) (use assms(6-8) in blast)
  then show ?thesis
    by (cases "fill_request_pipeline (dc_env pf) p s") (auto simp: settles_def saturated_def split: sum.splits)
qed

theorem pipeline_fills_witness:
  "\<exists>r. fill_request_pipeline (dc_env demo_platform) 1 (register_peer (dc_env demo_platform) 1
     (download_coordinator (piece_manager demo_metadata) (piece_picker 2 ()) 2 demo_world)) = Some r"
proof -
  let ?env = "dc_env demo_platform" and ?start = "download_coordinator (piece_manager demo_metadata) (piece_picker 2 ()) 2 demo_world"
  let ?s = "register_peer ?env 1 ?start"
  have "dc_step ?env ?start ?s" by (rule dc_step.Register) (simp_all add: download_coordinator_def)
  then have "(dc_step ?env)\<^sup>*\<^sup>* ?start ?s" by (rule r_into_rtranclp)
  moreover have "sends_progress (pf_sock demo_platform)" "draw_in_range (pf_draw demo_platform)"
    by (simp_all add: platform_def demo_machine_def sends_progress_def draw_in_range_def)
  moreover have "cast_size (num_pieces demo_metadata) = 2" by (simp add: demo_metadata_def cast_size_def)
  moreover have "dc_peers ?s 1 \<noteq> None" "\<not> is_peer_choking ?env 1 (dc_world ?s)"
    by (simp_all add: register_peer_def Let_def download_coordinator_def dc_env_def demo_world_def demo_connection_def)
  ultimately show ?thesis
    using pipeline_fills[of demo_platform 2 demo_metadata "()" demo_world ?s 1] by auto
qed

text \<open>C31: as long as the sizes of the torrent are sane, the number of downloaded bytes that the progress is
  computed from is the sum of the lengths of the completed pieces, never more than the total length and
  equal to it once all pieces are counted; so the remaining bytes do not wrap around.\<close>

theorem downloaded_bytes:
  assumes "layout_ok md" "piece_length md < 2 ^ 32" "total_length md < 2 ^ 63"
  shows "get_downloaded_bytes (pm_run md es) md = (\<Sum>i | has_piece (pm_run md es) i. get_piece_length md i) \<and>
    get_downloaded_bytes (pm_run md es) md \<le> nat (total_length md) \<and>
    (bf_count (pm_bitfield (pm_run md es)) = cast_size (num_pieces md) \<longrightarrow>
       get_downloaded_bytes (pm_run md es) md = nat (total_length md))"
  using downloaded_sum[OF assms pm_run_inv, of es] by simp

theorem downloaded_bytes_witness:
  "get_downloaded_bytes (pm_run demo_metadata [PieceCompleted 1]) demo_metadata \<le> 7"
proof -
  have "layout_ok demo_metadata" using demo_set_up by (simp add: set_up_def disk_ok_def)
  then show ?thesis using downloaded_bytes[of demo_metadata "[PieceCompleted 1]"] by (simp add: demo_metadata_def)
qed

section \<open>Failures\<close>

text \<open>C35: when a block of an attached peer completes a piece and the piece does not have its hash, handling the
  message ends in a use after free: blacklisting the peer disconnects it, which erases the entry that
  the handler still refers to.\<close>

theorem corrupt_piece_use_after_free:
  assumes "dc_peers s p = Some st" "connections (dc_world s) p = Some c" "attached c" "0 < p"
    "active_peers (manager (dc_world s)) (key_of c) = Some p"
    "block_received (dc_pm s) (unat i) (unat bgn) block = (True, pm)" "validate_piece (pf_sha1 pf) pm (unat i) = Inr False"
  shows "handle_peer_message (dc_env pf) p (PieceMsg i bgn block) s = Some (Inl UseAfterFree)"
  using corrupt_piece_dangles[OF assms] by (simp add: handle_peer_message_def assms(1))

theorem corrupt_piece_use_after_free_witness:
  "handle_peer_message (dc_env demo_platform) 1 (PieceMsg 0 0 [1, 2, 3, 4]) demo_state = Some (Inl UseAfterFree)"
proof -
  obtain pm where "block_received (piece_manager demo_metadata) 0 0 [1, 2, 3, 4] = (True, pm)"
    "validate_piece (\<lambda>_. replicate 20 7) pm 0 = Inr False" using demo_corrupt_block by blast
  moreover have "pf_sha1 demo_platform = (\<lambda>_. replicate 20 7)" by (simp add: platform_def demo_machine_def)
  ultimately show ?thesis
    using corrupt_piece_use_after_free[of demo_state 1 demo_peer demo_connection 0 0 "[1, 2, 3, 4]" pm demo_platform] demo_state_sel by simp
qed

text \<open>C36: disconnecting a peer that is registered with the coordinator leaves its slot in the table of the peer manager
  taken, and any later attempt to connect to its address does nothing.\<close>

theorem slot_not_returned:
  assumes "connections (dc_world s) p = Some c" "attached c" "0 < p" "active_peers (manager (dc_world s)) (key_of c) = Some p"
  shows "\<exists>s'. engine_disconnect pf p s = returns s' \<and>
    (\<exists>c'. connections (dc_world s') p = Some c' \<and> pc_state c' = Disconnected) \<and>
    active_peers (manager (dc_world s')) (key_of c) = Some p \<and>
    connect_to_peer pf (pc_ip c) (pc_port c) s' = returns s'"
proof -
  from disconnect_attached[OF assms(1-3), of pf] obtain s' where s': "engine_disconnect pf p s = returns s'"
    "manager (dc_world s') = manager (dc_world s)" "\<exists>c'. connections (dc_world s') p = Some c' \<and> pc_state c' = Disconnected"
    by blast
  then have "active_peers (manager (dc_world s')) (key_of c) = Some p" using assms(4) by simp
  moreover from this have "connect_to_peer pf (pc_ip c) (pc_port c) s' = returns s'"
    by (simp add: connect_to_peer_def key_of_def Let_def)
  ultimately show ?thesis using s' by blast
qed

theorem slot_not_returned_witness:
  "\<exists>s'. engine_disconnect demo_platform 1 demo_state = returns s' \<and> active_peers (manager (dc_world s')) (key_of demo_connection) = Some 1"
  using slot_not_returned[OF demo_state_sel(2,3) _ demo_state_sel(4), of demo_platform] by auto

end
